(* ===== verification/Sakura_Prelude.thy ===== *)
theory Sakura_Prelude
  imports Main "HOL-Library.Word"
begin

text \<open>
  Shared vocabulary of the development: the machine types of the C sources, memory blocks as
  byte lists with checked access, the conversions of C's \<open>int\<close>, and the generic lemmas on
  lists, options and words that the component theories use.

  A block of memory is a \<open>byte list\<close>. A read or a write outside of the block is undefined
  behaviour in C; here it is the value \<^const>\<open>None\<close>, so that a claim that a routine stays inside
  its buffers is a claim that it never returns \<^const>\<open>None\<close>.
\<close>

unbundle bit_operations_syntax

named_theorems wire_simps \<open>lengths and inverses of the wire encodings\<close>
named_theorems mem_simps \<open>checked access to memory blocks\<close>

type_synonym byte = "8 word"
type_synonym u16 = "16 word"
type_synonym u32 = "32 word"
type_synonym u64 = "64 word"

subsection \<open>C integers\<close>

text \<open>\<open>int\<close> and \<open>size_t\<close> values are HOL integers kept in range by the code; where the code
  converts a value that may be out of range, the conversion is written out.\<close>

definition INT_MAX :: int where
  "INT_MAX = 2147483647"

definition UINT16_MAX :: int where
  "UINT16_MAX = 65535"

text \<open>Conversion to a 32-bit two's complement \<open>int\<close>, as the supported compilers define it.\<close>

definition to_int :: "int \<Rightarrow> int" where
  "to_int x = (x + 2147483648) mod 4294967296 - 2147483648"

lemma to_int_id [simp]:
  assumes "- 2147483648 \<le> x" and "x \<le> INT_MAX"
  shows "to_int x = x"
  using assms by (simp add: to_int_def INT_MAX_def)

lemma to_int_bounds: "- 2147483648 \<le> to_int x" "to_int x \<le> INT_MAX"
proof -
  have "0 \<le> (x + 2147483648) mod 4294967296" and "(x + 2147483648) mod 4294967296 < 4294967296"
    by simp_all
  then show "- 2147483648 \<le> to_int x" and "to_int x \<le> INT_MAX"
    unfolding to_int_def INT_MAX_def by linarith+
qed

subsection \<open>Words\<close>

lemma unat_less_len: "unat (w :: 'a::len word) < 2 ^ LENGTH('a)"
  by (rule unsigned_less)

lemma unat_byte_less: "unat (b :: byte) < 256"
  using unat_less_len [of b] by simp

lemma unat_u16_less: "unat (w :: u16) < 65536"
  using unat_less_len [of w] by simp

lemma unat_ucast_widen:
  fixes w :: "'a::len word"
  assumes "LENGTH('a) \<le> LENGTH('b::len)"
  shows "unat (ucast w :: 'b word) = unat w"
proof -
  have "unat w < 2 ^ LENGTH('b)"
    using unat_less_len [of w] power_increasing [OF assms, of "2::nat"] by linarith
  then show ?thesis
    by (simp add: unsigned_ucast_eq take_bit_nat_eq_self)
qed

lemma unat_ucast_byte [simp]: "unat (ucast (b :: byte) :: u16) = unat b"
  "unat (ucast (b :: byte) :: u32) = unat b"
  by (rule unat_ucast_widen, simp)+

lemma unat_ucast_u16 [simp]: "unat (ucast (w :: u16) :: u32) = unat w"
  by (rule unat_ucast_widen, simp)

subsection \<open>Checked memory access\<close>

definition read_at :: "'a list \<Rightarrow> nat \<Rightarrow> nat \<Rightarrow> 'a list option" where
  "read_at m off n = (if off + n \<le> length m then Some (take n (drop off m)) else None)"

definition get_at :: "'a list \<Rightarrow> nat \<Rightarrow> 'a option" where
  "get_at m i = (if i < length m then Some (m ! i) else None)"

definition write_at :: "'a list \<Rightarrow> nat \<Rightarrow> 'a list \<Rightarrow> 'a list option" where
  "write_at m off bs =
     (if off + length bs \<le> length m then Some (take off m @ bs @ drop (off + length bs) m) else None)"

lemma read_at_Some [mem_simps]: "off + n \<le> length m \<Longrightarrow> read_at m off n = Some (take n (drop off m))"
  by (simp add: read_at_def)

lemma read_at_None [mem_simps]: "read_at m off n = None \<longleftrightarrow> length m < off + n"
  by (auto simp: read_at_def)

lemma read_at_length: "read_at m off n = Some bs \<Longrightarrow> length bs = n"
  by (auto simp: read_at_def split: if_splits)

lemma get_at_Some [mem_simps]: "i < length m \<Longrightarrow> get_at m i = Some (m ! i)"
  by (simp add: get_at_def)

lemma get_at_None [mem_simps]: "get_at m i = None \<longleftrightarrow> length m \<le> i"
  by (auto simp: get_at_def)

lemma get_at_append1: "i < length xs \<Longrightarrow> get_at (xs @ ys) i = Some (xs ! i)"
  by (simp add: get_at_def nth_append)

lemma get_at_append2: "get_at (xs @ ys) (length xs + i) = get_at ys i"
  by (simp add: get_at_def)

lemma write_at_length [mem_simps]: "write_at m off bs = Some m' \<Longrightarrow> length m' = length m"
  by (auto simp: write_at_def split: if_splits)

lemma write_at_None [mem_simps]: "write_at m off bs = None \<longleftrightarrow> length m < off + length bs"
  by (auto simp: write_at_def)

lemma write_at_nth:
  assumes "write_at m off bs = Some m'" and "k < off \<or> off + length bs \<le> k"
  shows "m' ! k = m ! k"
proof -
  have l: "off + length bs \<le> length m" and m': "m' = take off m @ bs @ drop (off + length bs) m"
    using assms(1) by (auto simp: write_at_def split: if_splits)
  show ?thesis
  proof (cases "k < off")
    case True
    then show ?thesis using l by (simp add: m' nth_append)
  next
    case False
    then have k: "off + length bs \<le> k" and nk: "\<not> k - off < length bs" using assms(2) by auto
    then have "m' ! k = drop (off + length bs) m ! (k - (off + length bs))"
      using l False nk by (simp add: m' nth_append)
    then show ?thesis using k l by simp
  qed
qed

lemma read_write_after:
  assumes "write_at m off bs = Some m'" and "off + length bs \<le> i"
  shows "read_at m' i n = read_at m i n"
  using assms by (auto simp: write_at_def read_at_def split: if_splits)

lemma read_at_take: "read_at m off n = Some bs \<Longrightarrow> k \<le> n \<Longrightarrow> read_at m off k = Some (take k bs)"
  by (auto simp: read_at_def min_def split: if_splits)

lemma read_write_same:
  "write_at m off bs = Some m' \<Longrightarrow> read_at m' off (length bs) = Some bs"
  by (auto simp: write_at_def read_at_def split: if_splits)

lemma read_write_before:
  "write_at m off bs = Some m' \<Longrightarrow> i + n \<le> off \<Longrightarrow> read_at m' i n = read_at m i n"
  by (auto simp: write_at_def read_at_def drop_take min_def split: if_splits)

lemma read_at_sub:
  assumes "s + u \<le> length m" and "k + n \<le> u"
  shows "read_at m (s + k) n = Some (take n (drop k (take u (drop s m))))"
proof -
  have "take n (drop k (take u (drop s m))) = take n (drop (s + k) m)"
    using assms(2) by (simp add: drop_take take_take min_def add.commute)
  then show ?thesis using assms by (simp add: read_at_def)
qed

text \<open>What C promises of an allocator: memory of the size asked for, or failure.\<close>

definition malloc_ok :: "(nat \<Rightarrow> byte list option) \<Rightarrow> bool" where
  "malloc_ok malloc \<longleftrightarrow> (\<forall>n m. malloc n = Some m \<longrightarrow> length m = n)"

subsection \<open>Assertions\<close>

text \<open>An \<^verbatim>\<open>ASSERT\<close> of the source as a guard: the value \<^const>\<open>None\<close> is a failed assertion.\<close>

definition c_assert :: "bool \<Rightarrow> unit option" where
  "c_assert b = (if b then Some () else None)"

lemma c_assert_simps [simp]: "c_assert True = Some ()" "c_assert False = None"
  by (simp_all add: c_assert_def)

lemma c_assert_bind: "Option.bind (c_assert b) k = (if b then k () else None)"
  by (simp add: c_assert_def)

subsection \<open>Lists\<close>

lemma take_length_append [simp]: "n = length xs \<Longrightarrow> take n (xs @ ys) = xs"
  by simp

lemma drop_length_append [simp]: "n = length xs \<Longrightarrow> drop n (xs @ ys) = ys"
  by simp

lemma list_of_length_2: "length xs = 2 \<Longrightarrow> \<exists>a b. xs = [a, b]"
  by (auto simp: numeral_eq_Suc length_Suc_conv)

lemma list_of_length_4: "length xs = 4 \<Longrightarrow> \<exists>a b c d. xs = [a, b, c, d]"
  by (auto simp: numeral_eq_Suc length_Suc_conv)

end
