(* ===== verification/Byteorder.thy ===== *)
theory Byteorder
  imports Sakura_Prelude
begin

text \<open>
  \<^verbatim>\<open>misc/byteorder.h\<close>, \<^verbatim>\<open>misc/read_write_int.h\<close>, \<^verbatim>\<open>misc/balign.h\<close>, \<^verbatim>\<open>misc/bsize.h\<close>,
  \<^verbatim>\<open>misc/minmax.h\<close> and \<^verbatim>\<open>misc/compare.h\<close>: the arithmetic the tunnel is written in.

  The Android builds define \<^verbatim>\<open>BADVPN_LITTLE_ENDIAN\<close>, so the bytes of an integer object in memory
  are its little-endian bytes (\<open>le_bytes\<close>) and copying bytes into an integer object reads them
  in little-endian order (\<open>le_word\<close>).
\<close>

subsection \<open>Integer objects in memory\<close>

fun le_bytes :: "nat \<Rightarrow> 'a::len word \<Rightarrow> byte list" where
  "le_bytes 0 w = []"
| "le_bytes (Suc n) w = ucast w # le_bytes n (drop_bit 8 w)"

fun le_word :: "byte list \<Rightarrow> 'a::len word" where
  "le_word [] = 0"
| "le_word (b # bs) = ucast b OR push_bit 8 (le_word bs)"

lemma length_le_bytes [simp, wire_simps]: "length (le_bytes n w) = n"
  by (induction n arbitrary: w) auto


lemma length_le_bytes_rev [wire_simps]: "length (rev (le_bytes n w)) = n"
  by simp

lemma le_bytes_2: "le_bytes 2 x = [ucast x, ucast (drop_bit 8 x)]"
  by (simp add: numeral_2_eq_2)

lemma le_bytes_4:
  "le_bytes 4 x = [ucast x, ucast (drop_bit 8 x), ucast (drop_bit 16 x), ucast (drop_bit 24 x)]"
proof -
  have four: "4 = Suc (Suc (Suc (Suc 0)))" by simp
  show ?thesis
    unfolding four by (simp add: drop_bit_drop_bit del: numeral_eq_Suc)
qed

lemma bit_le_word:
  "bit (le_word bs :: 'a::len word) i \<longleftrightarrow>
     i < LENGTH('a) \<and> i div 8 < length bs \<and> bit (bs ! (i div 8)) (i mod 8)"
proof (induction bs arbitrary: i)
  case Nil
  then show ?case by simp
next
  case (Cons b bs)
  show ?case
  proof (cases "i < 8")
    case True
    then show ?thesis
      by (auto simp: bit_simps)
  next
    case False
    then obtain j where j: "i = 8 + j"
      using le_Suc_ex by (metis not_less)
    have "\<not> bit b i"
      using False by (auto dest: bit_imp_le_length)
    moreover have "(8 + j) div 8 = Suc (j div 8)"
      by simp
    ultimately show ?thesis
      unfolding j by (auto simp: bit_simps Cons.IH)
  qed
qed

lemma nth_le_bytes: "k < n \<Longrightarrow> le_bytes n w ! k = ucast (drop_bit (8 * k) w)"
  by (induction n arbitrary: k w) (auto simp: nth_Cons drop_bit_drop_bit add.commute split: nat.splits)

lemma le_word_le_bytes [wire_simps]:
  fixes w :: "'a::len word"
  assumes "LENGTH('a) \<le> 8 * n"
  shows "le_word (le_bytes n w) = w"
proof (rule bit_word_eqI)
  fix i
  assume i: "i < LENGTH('a)"
  then have "i div 8 < n"
    using assms by linarith
  then show "bit (le_word (le_bytes n w) :: 'a word) i = bit w i"
    using i by (simp add: bit_le_word nth_le_bytes bit_simps)
qed

lemma le_bytes_le_word [wire_simps]:
  assumes "8 * length bs \<le> LENGTH('a)" and "n = length bs"
  shows "le_bytes n (le_word bs :: 'a::len word) = bs"
proof (rule nth_equalityI)
  show "length (le_bytes n (le_word bs :: 'a word)) = length bs"
    using assms by simp
  fix k
  assume "k < length (le_bytes n (le_word bs :: 'a word))"
  then have k: "k < n" by simp
  show "le_bytes n (le_word bs :: 'a word) ! k = bs ! k"
  proof (rule bit_word_eqI)
    fix i :: nat
    assume "i < LENGTH(8)"
    then have i: "i < 8" by simp
    have "8 * k + i < LENGTH('a)"
      using i k assms by linarith
    then show "bit (le_bytes n (le_word bs :: 'a word) ! k) i = bit (bs ! k) i"
      using i k assms by (simp add: nth_le_bytes bit_simps bit_le_word)
  qed
qed

subsection \<open>byteorder.h\<close>

definition badvpn_reverse16 :: "u16 \<Rightarrow> u16" where
  "badvpn_reverse16 x = le_word (rev (le_bytes 2 x))"

definition badvpn_reverse32 :: "u32 \<Rightarrow> u32" where
  "badvpn_reverse32 x = le_word (rev (le_bytes 4 x))"

definition badvpn_reverse64 :: "u64 \<Rightarrow> u64" where
  "badvpn_reverse64 x = le_word (rev (le_bytes 8 x))"

definition hton8 :: "byte \<Rightarrow> byte" where
  "hton8 x = x"

definition hton16 :: "u16 \<Rightarrow> u16" where
  "hton16 x = badvpn_reverse16 x"

definition hton32 :: "u32 \<Rightarrow> u32" where
  "hton32 x = badvpn_reverse32 x"

definition htol8 :: "byte \<Rightarrow> byte" where
  "htol8 x = x"

definition htol16 :: "u16 \<Rightarrow> u16" where
  "htol16 x = x"

definition ntoh8 :: "byte \<Rightarrow> byte" where
  "ntoh8 x = hton8 x"

definition ntoh16 :: "u16 \<Rightarrow> u16" where
  "ntoh16 x = hton16 x"

definition ntoh32 :: "u32 \<Rightarrow> u32" where
  "ntoh32 x = hton32 x"

definition ltoh8 :: "byte \<Rightarrow> byte" where
  "ltoh8 x = htol8 x"

definition ltoh16 :: "u16 \<Rightarrow> u16" where
  "ltoh16 x = htol16 x"

lemma byte_identities [simp]: "hton8 x = x" "ntoh8 x = x" "htol8 x = x" "ltoh8 x = x"
  "htol16 y = y" "ltoh16 y = y"
  by (simp_all add: hton8_def ntoh8_def htol8_def ltoh8_def htol16_def ltoh16_def)

lemma bytes_hton16 [wire_simps]: "le_bytes 2 (hton16 x) = rev (le_bytes 2 x)"
  unfolding hton16_def badvpn_reverse16_def by (rule le_bytes_le_word) simp_all

lemma bytes_hton32 [wire_simps]: "le_bytes 4 (hton32 x) = rev (le_bytes 4 x)"
  unfolding hton32_def badvpn_reverse32_def by (rule le_bytes_le_word) simp_all

lemma ntoh16_hton16 [simp, wire_simps]: "ntoh16 (hton16 x) = x"
proof -
  have "ntoh16 (hton16 x) = le_word (rev (le_bytes 2 (hton16 x)))"
    by (simp add: ntoh16_def hton16_def badvpn_reverse16_def)
  also have "\<dots> = le_word (le_bytes 2 x)"
    by (simp add: bytes_hton16)
  finally show ?thesis by (simp add: le_word_le_bytes)
qed

lemma hton16_ntoh16 [simp, wire_simps]: "hton16 (ntoh16 x) = x"
  using ntoh16_hton16 [of x] by (simp add: ntoh16_def)

lemma ntoh32_hton32 [simp, wire_simps]: "ntoh32 (hton32 x) = x"
proof -
  have "ntoh32 (hton32 x) = le_word (rev (le_bytes 4 (hton32 x)))"
    by (simp add: ntoh32_def hton32_def badvpn_reverse32_def)
  also have "\<dots> = le_word (le_bytes 4 x)"
    by (simp add: bytes_hton32)
  finally show ?thesis by (simp add: le_word_le_bytes)
qed

lemma hton32_ntoh32 [simp, wire_simps]: "hton32 (ntoh32 x) = x"
  using ntoh32_hton32 [of x] by (simp add: ntoh32_def)

lemma hton16_inject [simp]: "hton16 x = hton16 y \<longleftrightarrow> x = y"
  by (metis ntoh16_hton16)

lemma ntoh16_inject [simp]: "ntoh16 x = ntoh16 y \<longleftrightarrow> x = y"
  by (metis hton16_ntoh16)

lemma ntoh32_inject [simp]: "ntoh32 x = ntoh32 y \<longleftrightarrow> x = y"
  by (metis hton32_ntoh32)

lemma hton16_0 [simp]: "hton16 0 = 0"
  by (simp add: hton16_def badvpn_reverse16_def numeral_eq_Suc)

subsection \<open>read\_write\_int.h\<close>

text \<open>Reading an integer from the first bytes of a block that holds at least that many.\<close>

definition badvpn_read_le16 :: "byte list \<Rightarrow> u16" where
  "badvpn_read_le16 p = push_bit 8 (ucast (p ! 1)) OR ucast (p ! 0)"

definition badvpn_read_be16 :: "byte list \<Rightarrow> u16" where
  "badvpn_read_be16 p = push_bit 8 (ucast (p ! 0)) OR ucast (p ! 1)"

definition badvpn_read_be32 :: "byte list \<Rightarrow> u32" where
  "badvpn_read_be32 p = push_bit 24 (ucast (p ! 0)) OR push_bit 16 (ucast (p ! 1)) OR
     push_bit 8 (ucast (p ! 2)) OR ucast (p ! 3)"

definition badvpn_write_le16 :: "u16 \<Rightarrow> byte list" where
  "badvpn_write_le16 x = [ucast x, ucast (drop_bit 8 x)]"

definition badvpn_write_be16 :: "u16 \<Rightarrow> byte list" where
  "badvpn_write_be16 x = [ucast (drop_bit 8 x), ucast x]"

definition badvpn_write_be32 :: "u32 \<Rightarrow> byte list" where
  "badvpn_write_be32 x =
     [ucast (drop_bit 24 x), ucast (drop_bit 16 x), ucast (drop_bit 8 x), ucast x]"

lemma read_be16_two: "badvpn_read_be16 [a, b] = le_word [b, a]"
  by (simp add: badvpn_read_be16_def or.commute)

lemma read_be16_le_bytes: "badvpn_read_be16 (le_bytes 2 x) = ntoh16 x"
  by (simp add: badvpn_read_be16_def ntoh16_def hton16_def badvpn_reverse16_def numeral_eq_Suc
      or.commute)

lemma read_be16_Cons3 [simp]: "badvpn_read_be16 (a # b # c # r) = badvpn_read_be16 [a, b]"
  by (simp add: badvpn_read_be16_def)

lemma unat_read_be16: "unat (badvpn_read_be16 [a, b]) = 256 * unat a + unat b"
proof -
  have disj: "push_bit 8 (ucast a) AND ucast b = (0 :: u16)"
    by (rule bit_word_eqI) (auto simp: bit_simps dest: bit_imp_le_length)
  have "badvpn_read_be16 [a, b] = push_bit 8 (ucast a) + ucast b"
    by (simp add: badvpn_read_be16_def disjunctive_add_eq_or [symmetric] disj)
  moreover have "unat (push_bit 8 (ucast a) :: u16) = 256 * unat a"
    using unat_byte_less [of a]
    by (simp add: push_bit_eq_mult unat_word_ariths)
  ultimately show ?thesis
    using unat_byte_less [of a] unat_byte_less [of b]
    by (simp add: unat_word_ariths)
qed

subsection \<open>balign.h, minmax.h, compare.h\<close>

definition bdivide_up :: "nat \<Rightarrow> nat \<Rightarrow> nat" where
  "bdivide_up a b = (let r = a mod b in if r > 0 then a div b + 1 else a div b)"

definition balign_up :: "nat \<Rightarrow> nat \<Rightarrow> nat" where
  "balign_up x n = (let r = x mod n in if r \<noteq> 0 then x + (n - r) else x)"

definition balign_down :: "nat \<Rightarrow> nat \<Rightarrow> nat" where
  "balign_down x n = x - x mod n"

definition balign_up_overflows :: "nat \<Rightarrow> nat \<Rightarrow> nat \<Rightarrow> bool" where
  "balign_up_overflows size_max x n = (let r = x mod n in r \<noteq> 0 \<and> x > size_max - (n - r))"

definition bmin_int :: "int \<Rightarrow> int \<Rightarrow> int" where
  "bmin_int a b = (if a < b then a else b)"

definition bmax_uint64 :: "u64 \<Rightarrow> u64 \<Rightarrow> u64" where
  "bmax_uint64 a b = (if a > b then a else b)"

definition B_COMPARE :: "'a::ord \<Rightarrow> 'a \<Rightarrow> int" where
  "B_COMPARE a b = of_bool (a > b) - of_bool (a < b)"

lemma bmin_int_min [simp]: "bmin_int a b = min a b"
  by (auto simp: bmin_int_def min_def)

lemma bdivide_up_mult:
  assumes "0 < b"
  shows "a \<le> bdivide_up a b * b"
proof -
  have "a = a div b * b + a mod b" and "a mod b < b"
    using assms by simp_all
  then have "a \<le> a div b * b + b" and "a mod b = 0 \<Longrightarrow> a \<le> a div b * b"
    by linarith+
  then show ?thesis
    by (auto simp: bdivide_up_def Let_def add.commute)
qed

lemma bdivide_up_least:
  assumes "0 < b" and "a \<le> k * b"
  shows "bdivide_up a b \<le> k"
proof (cases "a mod b > 0")
  case True
  then have "a \<noteq> k * b" by auto
  then have "a div b < k"
    using assms by (intro less_mult_imp_div_less) simp
  then show ?thesis
    using True by (simp add: bdivide_up_def)
next
  case False
  have "a div b \<le> k * b div b"
    using assms(2) by (rule div_le_mono)
  then show ?thesis
    using assms(1) False by (simp add: bdivide_up_def)
qed

lemma bdivide_up_mono: "a \<le> a' \<Longrightarrow> 0 < b \<Longrightarrow> bdivide_up a b \<le> bdivide_up a' b"
  by (meson bdivide_up_least bdivide_up_mult order_trans)

lemma B_COMPARE_zero: "B_COMPARE (a :: 'a::linorder) b = 0 \<longleftrightarrow> a = b"
  by (auto simp: B_COMPARE_def)

lemma B_COMPARE_neg: "B_COMPARE (a :: 'a::linorder) b < 0 \<longleftrightarrow> a < b"
  by (auto simp: B_COMPARE_def)

lemma B_COMPARE_pos: "B_COMPARE (a :: 'a::linorder) b > 0 \<longleftrightarrow> b < a"
  by (auto simp: B_COMPARE_def)

lemma B_COMPARE_uminus: "B_COMPARE (b :: 'a::linorder) a = - B_COMPARE a b"
  by (auto simp: B_COMPARE_def)

subsection \<open>bsize.h\<close>

text \<open>Sizes with an overflow flag. \<open>size_max\<close> is the platform's \<^verbatim>\<open>SIZE_MAX\<close> (32 or 64 bits:
  the library is built for both); conversions to \<^verbatim>\<open>size_t\<close> are modulo \<open>size_max + 1\<close>.\<close>

record bsize =
  is_overflow :: bool
  bs_value :: nat

definition bsize_fromsize :: "nat \<Rightarrow> bsize" where
  "bsize_fromsize v = \<lparr>is_overflow = False, bs_value = v\<rparr>"

definition bsize_fromint :: "nat \<Rightarrow> int \<Rightarrow> bsize" where
  "bsize_fromint size_max v =
     (let u = nat (v mod (int size_max + 1))
      in \<lparr>is_overflow = (v < 0 \<or> u > size_max), bs_value = u\<rparr>)"

definition bsize_overflow :: bsize where
  "bsize_overflow = \<lparr>is_overflow = True, bs_value = 0\<rparr>"

definition bsize_tosize :: "bsize \<Rightarrow> nat option" where
  "bsize_tosize s = (if is_overflow s then None else Some (bs_value s))"

definition bsize_toint :: "bsize \<Rightarrow> int option" where
  "bsize_toint s =
     (if is_overflow s \<or> int (bs_value s) > INT_MAX then None else Some (int (bs_value s)))"

definition bsize_add :: "nat \<Rightarrow> bsize \<Rightarrow> bsize \<Rightarrow> bsize" where
  "bsize_add size_max s1 s2 =
     \<lparr>is_overflow = (is_overflow s1 \<or> is_overflow s2 \<or> bs_value s2 > size_max - bs_value s1),
      bs_value = (bs_value s1 + bs_value s2) mod (size_max + 1)\<rparr>"

definition bsize_max :: "bsize \<Rightarrow> bsize \<Rightarrow> bsize" where
  "bsize_max s1 s2 =
     \<lparr>is_overflow = (is_overflow s1 \<or> is_overflow s2),
      bs_value = of_bool (bs_value s1 > bs_value s2) * bs_value s1 +
                 of_bool (bs_value s1 \<le> bs_value s2) * bs_value s2\<rparr>"

definition bsize_mul :: "nat \<Rightarrow> bsize \<Rightarrow> bsize \<Rightarrow> bsize" where
  "bsize_mul size_max s1 s2 =
     \<lparr>is_overflow = (is_overflow s1 \<or> is_overflow s2 \<or>
        (bs_value s1 \<noteq> 0 \<and> bs_value s2 > size_max div bs_value s1)),
      bs_value = (bs_value s1 * bs_value s2) mod (size_max + 1)\<rparr>"

text \<open>A size object denotes a number unless it is flagged; every operation denotes the exact
  result or flags it.\<close>

definition bsize_denotes :: "nat \<Rightarrow> bsize \<Rightarrow> nat \<Rightarrow> bool" where
  "bsize_denotes size_max s n \<longleftrightarrow>
     (if n \<le> size_max then \<not> is_overflow s \<and> bs_value s = n else is_overflow s)"

lemma bsize_denotes_fromsize: "n \<le> size_max \<Longrightarrow> bsize_denotes size_max (bsize_fromsize n) n"
  by (simp add: bsize_denotes_def bsize_fromsize_def)

lemma bsize_denotesD: "bsize_denotes size_max s n \<Longrightarrow> n \<le> size_max \<Longrightarrow> s = bsize_fromsize n"
  by (cases s) (simp add: bsize_denotes_def bsize_fromsize_def)

lemma bsize_fromsize_simps [simp]:
  "\<not> is_overflow (bsize_fromsize n)" "bs_value (bsize_fromsize n) = n"
  by (simp_all add: bsize_fromsize_def)

lemma bsize_denotes_fromint:
  "0 \<le> v \<Longrightarrow> v \<le> int size_max \<Longrightarrow> bsize_denotes size_max (bsize_fromint size_max v) (nat v)"
  by (simp add: bsize_denotes_def bsize_fromint_def Let_def)

lemma bsize_denotes_add:
  assumes "bsize_denotes size_max s1 a" and "bsize_denotes size_max s2 b"
  shows "bsize_denotes size_max (bsize_add size_max s1 s2) (a + b)"
  using assms by (auto simp: bsize_denotes_def bsize_add_def split: if_splits)

lemma bsize_denotes_max:
  assumes "bsize_denotes size_max s1 a" and "bsize_denotes size_max s2 b"
  shows "bsize_denotes size_max (bsize_max s1 s2) (max a b)"
  using assms by (auto simp: bsize_denotes_def bsize_max_def max_def split: if_splits)

lemma bsize_denotes_mul:
  assumes "bsize_denotes size_max s1 a" and "bsize_denotes size_max s2 b" and "a \<noteq> 0" "b \<noteq> 0"
  shows "bsize_denotes size_max (bsize_mul size_max s1 s2) (a * b)"
proof (cases "a \<le> size_max \<and> b \<le> size_max")
  case True
  have "a * b \<le> size_max \<longleftrightarrow> b \<le> size_max div a"
    using assms(3) by (simp add: less_eq_div_iff_mult_less_eq mult.commute)
  then show ?thesis
    using assms True by (auto simp: bsize_denotes_def bsize_mul_def)
next
  case False
  moreover have "a \<le> a * b" and "b \<le> a * b"
    using assms(3,4) by simp_all
  ultimately have "\<not> a * b \<le> size_max"
    by linarith
  then show ?thesis
    using assms False by (auto simp: bsize_denotes_def bsize_mul_def split: if_splits)
qed

end
