(* ===== verification/Ip_Proto.thy ===== *)
theory Ip_Proto
  imports Byteorder
begin

text \<open>
  \<^verbatim>\<open>misc/ipv4_proto.h\<close>, \<^verbatim>\<open>misc/ipv6_proto.h\<close> and \<^verbatim>\<open>misc/udp_proto.h\<close>: the header structures, their
  parsers and the internet checksums. A structure field holds the raw bytes of the wire as the
  machine reads them (little-endian), exactly as after the \<^verbatim>\<open>memcpy\<close> of the source; the code
  converts with \<open>ntoh16\<close> where it needs a number.
\<close>

subsection \<open>Header structures\<close>

record ipv4_header =
  version4_ihl4 :: byte
  ip_ds :: byte
  ip_total_length :: u16
  ip_identification :: u16
  flags3_fragmentoffset13 :: u16
  ip_ttl :: byte
  ip_protocol :: byte
  ip_checksum :: u16
  ip_source_address :: u32
  ip_destination_address :: u32

record ipv6_header =
  version4_tc4 :: byte
  tc4_fl4 :: byte
  ip6_fl :: u16
  ip6_payload_length :: u16
  ip6_next_header :: byte
  ip6_hop_limit :: byte
  ip6_source_address :: "byte list"
  ip6_destination_address :: "byte list"

record udp_header =
  udp_source_port :: u16
  udp_dest_port :: u16
  udp_length :: u16
  udp_checksum_field :: u16

abbreviation (input) sizeof_ipv4_header :: nat where "sizeof_ipv4_header \<equiv> 20"
abbreviation (input) sizeof_ipv6_header :: nat where "sizeof_ipv6_header \<equiv> 40"
abbreviation (input) sizeof_udp_header :: nat where "sizeof_udp_header \<equiv> 8"

abbreviation (input) IPV4_PROTOCOL_UDP :: byte where "IPV4_PROTOCOL_UDP \<equiv> 17"
abbreviation (input) IPV6_NEXT_UDP :: byte where "IPV6_NEXT_UDP \<equiv> 17"

text \<open>The two directions of \<^verbatim>\<open>memcpy\<close> between a packed structure and bytes.\<close>

definition ipv4_header_of_bytes :: "byte list \<Rightarrow> ipv4_header" where
  "ipv4_header_of_bytes d =
     \<lparr>version4_ihl4 = d ! 0, ip_ds = d ! 1,
      ip_total_length = le_word (take 2 (drop 2 d)),
      ip_identification = le_word (take 2 (drop 4 d)),
      flags3_fragmentoffset13 = le_word (take 2 (drop 6 d)),
      ip_ttl = d ! 8, ip_protocol = d ! 9,
      ip_checksum = le_word (take 2 (drop 10 d)),
      ip_source_address = le_word (take 4 (drop 12 d)),
      ip_destination_address = le_word (take 4 (drop 16 d))\<rparr>"

definition ipv4_header_bytes :: "ipv4_header \<Rightarrow> byte list" where
  "ipv4_header_bytes h =
     [version4_ihl4 h, ip_ds h] @ le_bytes 2 (ip_total_length h) @ le_bytes 2 (ip_identification h) @
     le_bytes 2 (flags3_fragmentoffset13 h) @ [ip_ttl h, ip_protocol h] @ le_bytes 2 (ip_checksum h) @
     le_bytes 4 (ip_source_address h) @ le_bytes 4 (ip_destination_address h)"

definition ipv6_header_of_bytes :: "byte list \<Rightarrow> ipv6_header" where
  "ipv6_header_of_bytes d =
     \<lparr>version4_tc4 = d ! 0, tc4_fl4 = d ! 1,
      ip6_fl = le_word (take 2 (drop 2 d)),
      ip6_payload_length = le_word (take 2 (drop 4 d)),
      ip6_next_header = d ! 6, ip6_hop_limit = d ! 7,
      ip6_source_address = take 16 (drop 8 d),
      ip6_destination_address = take 16 (drop 24 d)\<rparr>"

definition ipv6_header_bytes :: "ipv6_header \<Rightarrow> byte list" where
  "ipv6_header_bytes h =
     [version4_tc4 h, tc4_fl4 h] @ le_bytes 2 (ip6_fl h) @ le_bytes 2 (ip6_payload_length h) @
     [ip6_next_header h, ip6_hop_limit h] @ ip6_source_address h @ ip6_destination_address h"

definition udp_header_of_bytes :: "byte list \<Rightarrow> udp_header" where
  "udp_header_of_bytes d =
     \<lparr>udp_source_port = le_word (take 2 d),
      udp_dest_port = le_word (take 2 (drop 2 d)),
      udp_length = le_word (take 2 (drop 4 d)),
      udp_checksum_field = le_word (take 2 (drop 6 d))\<rparr>"

definition udp_header_bytes :: "udp_header \<Rightarrow> byte list" where
  "udp_header_bytes h =
     le_bytes 2 (udp_source_port h) @ le_bytes 2 (udp_dest_port h) @
     le_bytes 2 (udp_length h) @ le_bytes 2 (udp_checksum_field h)"

lemma length_ipv4_header_bytes [simp, wire_simps]: "length (ipv4_header_bytes h) = 20"
  by (simp add: ipv4_header_bytes_def)

lemma length_udp_header_bytes [simp, wire_simps]: "length (udp_header_bytes h) = 8"
  by (simp add: udp_header_bytes_def)

text \<open>Reading the bytes of a header back gives the header, whatever follows in the packet.\<close>

lemma ipv4_header_roundtrip [wire_simps]: "ipv4_header_of_bytes (ipv4_header_bytes h @ r) = h"
  by (cases h) (simp add: ipv4_header_of_bytes_def ipv4_header_bytes_def nth_append le_word_le_bytes)

lemma udp_header_roundtrip [wire_simps]: "udp_header_of_bytes (udp_header_bytes h @ r) = h"
  by (cases h) (simp add: udp_header_of_bytes_def udp_header_bytes_def le_word_le_bytes)

lemma ipv6_header_roundtrip [wire_simps]:
  "length (ip6_source_address h) = 16 \<Longrightarrow> length (ip6_destination_address h) = 16 \<Longrightarrow>
   ipv6_header_of_bytes (ipv6_header_bytes h @ r) = h"
  by (cases h)
    (simp add: ipv6_header_of_bytes_def ipv6_header_bytes_def nth_append le_word_le_bytes)

lemma length_ipv6_header_bytes [wire_simps]:
  "length (ip6_source_address h) = 16 \<Longrightarrow> length (ip6_destination_address h) = 16 \<Longrightarrow>
   length (ipv6_header_bytes h) = 40"
  by (simp add: ipv6_header_bytes_def)

subsection \<open>The internet checksum\<close>

text \<open>The summing loops: \<open>n\<close> big-endian 16-bit words from \<open>p\<close> on, added to a 32-bit
  accumulator.\<close>

fun sum_be16 :: "byte list \<Rightarrow> nat \<Rightarrow> u32 \<Rightarrow> u32" where
  "sum_be16 p 0 t = t"
| "sum_be16 p (Suc n) t = sum_be16 (drop 2 p) n (t + ucast (badvpn_read_be16 p))"

text \<open>\<^verbatim>\<open>while (t >> 16) { t = (t & 0xFFFF) + (t >> 16); }\<close>\<close>

lemma unat_and_FFFF: "unat (t AND 0xFFFF :: u32) = unat t mod 65536"
proof -
  have "t AND 0xFFFF = take_bit 16 t"
    by (simp add: take_bit_eq_mask mask_eq_exp_minus_1)
  then have "unat (t AND 0xFFFF) = take_bit 16 (unat t)"
    by (simp only: unsigned_take_bit_eq)
  then show ?thesis
    by (simp add: take_bit_eq_mod)
qed

lemma unat_drop_16: "unat (drop_bit 16 (t :: u32)) = unat t div 65536"
  by (simp add: drop_bit_eq_div unat_div_distrib)

lemma unat_split16: "unat (t :: u32) = 65536 * unat (drop_bit 16 t) + unat (t AND 0xFFFF)"
  by (simp add: unat_and_FFFF unat_drop_16)

lemma unat_low16: "unat (t AND 0xFFFF :: u32) < 65536"
  by (simp add: unat_and_FFFF)

lemma unat_high16: "unat (drop_bit 16 t :: u32) < 65536"
  using unat_split16 [of t] unat_less_len [of t] by simp

lemma unat_fold_step:
  "unat ((t AND 0xFFFF) + drop_bit 16 t :: u32) = unat (t AND 0xFFFF) + unat (drop_bit 16 t)"
  using unat_low16 [of t] unat_high16 [of t] by (simp add: unat_word_ariths)

function fold_carry :: "u32 \<Rightarrow> u32" where
  "fold_carry t =
     (if drop_bit 16 t \<noteq> 0 then fold_carry ((t AND 0xFFFF) + drop_bit 16 t) else t)"
  by pat_completeness auto
termination
proof (relation "measure unat")
  fix t :: u32
  assume "drop_bit 16 t \<noteq> 0"
  then have "0 < unat (drop_bit 16 t)"
    by (simp add: unat_gt_0)
  then show "((t AND 0xFFFF) + drop_bit 16 t, t) \<in> measure unat"
    using unat_split16 [of t] by (simp add: unat_fold_step)
qed simp

declare fold_carry.simps [simp del]

definition ipv4_checksum :: "ipv4_header \<Rightarrow> byte list \<Rightarrow> u16" where
  "ipv4_checksum h extra =
     (let t = sum_be16 (ipv4_header_bytes h) (sizeof_ipv4_header div 2) 0;
          t = sum_be16 extra (length extra div 2) t;
          t = fold_carry t
      in hton16 (ucast (NOT t)))"

definition udp_checksum_summer :: "byte list \<Rightarrow> nat \<Rightarrow> u32" where
  "udp_checksum_summer d len = sum_be16 d (len div 2) 0"

text \<open>The payload part shared by the two UDP checksums: an odd last byte is padded with a zero
  byte.\<close>

definition udp_payload_sum :: "byte list \<Rightarrow> nat \<Rightarrow> u32" where
  "udp_payload_sum payload payload_len =
     (if payload_len mod 2 = 0 then udp_checksum_summer payload payload_len
      else udp_checksum_summer payload (payload_len - 1) +
           udp_checksum_summer
             (le_bytes 2 (hton16 (push_bit 8 (ucast (payload ! (payload_len - 1)))))) 2)"

text \<open>\<open>payload_len\<close> is a \<^verbatim>\<open>uint16_t\<close> parameter, so a longer length would be cut to 16 bits.\<close>

definition udp_checksum :: "udp_header \<Rightarrow> byte list \<Rightarrow> u32 \<Rightarrow> u32 \<Rightarrow> u16" where
  "udp_checksum h payload source_addr dest_addr =
     (let payload_len = length payload mod 65536;
          t = udp_checksum_summer (le_bytes 4 source_addr) 4;
          t = t + udp_checksum_summer (le_bytes 4 dest_addr) 4;
          t = t + udp_checksum_summer (le_bytes 2 (hton16 (ucast IPV4_PROTOCOL_UDP))) 2;
          t = t + udp_checksum_summer
                (le_bytes 2 (hton16 (of_nat (sizeof_udp_header + payload_len)))) 2;
          t = t + udp_checksum_summer (udp_header_bytes h) sizeof_udp_header;
          t = t + udp_payload_sum payload payload_len;
          t = fold_carry t;
          t = (if t = 0 then 0xFFFF else t)
      in hton16 (ucast (NOT t)))"

definition udp_ip6_checksum :: "udp_header \<Rightarrow> byte list \<Rightarrow> byte list \<Rightarrow> byte list \<Rightarrow> u16" where
  "udp_ip6_checksum h payload source_addr dest_addr =
     (let payload_len = length payload mod 65536;
          t = udp_checksum_summer source_addr 16;
          t = t + udp_checksum_summer dest_addr 16;
          t = t + udp_checksum_summer
                (le_bytes 4 (hton32 (of_nat (sizeof_udp_header + payload_len)))) 4;
          t = t + udp_checksum_summer (le_bytes 4 (hton32 (ucast IPV6_NEXT_UDP))) 4;
          t = t + udp_checksum_summer (udp_header_bytes h) sizeof_udp_header;
          t = t + udp_payload_sum payload payload_len;
          t = fold_carry t;
          t = (if t = 0 then 0xFFFF else t)
      in hton16 (ucast (NOT t)))"

subsection \<open>The packet checks\<close>

text \<open>The parsers return the header and the payload as an offset into the packet and a length,
  like the out-parameters \<^verbatim>\<open>out_payload\<close> and \<^verbatim>\<open>out_payload_len\<close>; a refused packet is
  \<^const>\<open>None\<close> (the source returns 0).\<close>

definition IPV4_GET_VERSION :: "ipv4_header \<Rightarrow> byte" where
  "IPV4_GET_VERSION h = drop_bit 4 (version4_ihl4 h AND 0xF0)"

definition IPV4_GET_IHL :: "ipv4_header \<Rightarrow> byte" where
  "IPV4_GET_IHL h = version4_ihl4 h AND 0x0F"

definition IPV4_MAKE_VERSION_IHL :: "nat \<Rightarrow> byte" where
  "IPV4_MAKE_VERSION_IHL sz = of_nat (sz div 4 + 4 * 16)"

definition ipv4_check :: "byte list \<Rightarrow> (ipv4_header \<times> nat \<times> nat) option" where
  "ipv4_check d =
     (let data_len = length d in
      if data_len < sizeof_ipv4_header then None
      else let h = ipv4_header_of_bytes d in
      if IPV4_GET_VERSION h \<noteq> 4 then None
      else let header_len = unat (IPV4_GET_IHL h) * 4 in
      if header_len < sizeof_ipv4_header then None
      else if header_len > data_len then None
      else let total_length = unat (ntoh16 (ip_total_length h)) in
      if total_length < header_len then None
      else if total_length > data_len then None
      else let checksum_in_packet = ip_checksum h;
               checksum_computed =
                 ipv4_checksum (h\<lparr>ip_checksum := hton16 0\<rparr>)
                   (take (header_len - sizeof_ipv4_header) (drop sizeof_ipv4_header d)) in
      if checksum_in_packet \<noteq> checksum_computed then None
      else Some (h, header_len, total_length - header_len))"

definition ipv6_check :: "byte list \<Rightarrow> (ipv6_header \<times> nat \<times> nat) option" where
  "ipv6_check d =
     (let data_len = length d in
      if data_len < sizeof_ipv6_header then None
      else let h = ipv6_header_of_bytes d in
      if drop_bit 4 (ntoh8 (version4_tc4 h)) \<noteq> 6 then None
      else let payload_length = unat (ntoh16 (ip6_payload_length h)) in
      if payload_length > data_len - sizeof_ipv6_header then None
      else Some (h, sizeof_ipv6_header, payload_length))"

definition udp_check :: "byte list \<Rightarrow> (udp_header \<times> nat \<times> nat) option" where
  "udp_check d =
     (if length d < sizeof_udp_header then None
      else let h = udp_header_of_bytes d;
               data_len = length d - sizeof_udp_header;
               udp_len = unat (ntoh16 (udp_length h)) in
      if udp_len < sizeof_udp_header then None
      else if udp_len > sizeof_udp_header + data_len then None
      else Some (h, sizeof_udp_header, udp_len - sizeof_udp_header))"

text \<open>The payload a successful check hands on lies inside the packet.\<close>

lemma ipv4_check_bounds:
  assumes "ipv4_check d = Some (h, off, len)"
  shows "20 \<le> off" and "off \<le> 60" and "off + len \<le> length d"
    and "off + len = unat (ntoh16 (ip_total_length h))"
proof -
  have "unat (IPV4_GET_IHL h) \<le> 15"
    unfolding IPV4_GET_IHL_def
    using word_and_le1 [of "version4_ihl4 h" "0x0F"] by (simp add: word_le_nat_alt)
  then show "20 \<le> off" and "off \<le> 60" and "off + len \<le> length d"
    and "off + len = unat (ntoh16 (ip_total_length h))"
    using assms by (auto simp: ipv4_check_def Let_def split: if_splits)
qed

lemma ipv4_check_header: "ipv4_check d = Some (h, off, len) \<Longrightarrow> h = ipv4_header_of_bytes d"
  by (auto simp: ipv4_check_def Let_def split: if_splits)

lemma ipv6_check_bounds:
  assumes "ipv6_check d = Some (h, off, len)"
  shows "off = 40" and "off + len \<le> length d"
  using assms by (auto simp: ipv6_check_def Let_def split: if_splits)

lemma udp_check_bounds:
  assumes "udp_check d = Some (h, off, len)"
  shows "off = 8" and "off + len \<le> length d" and "len < 65528"
  using assms unat_u16_less [of "ntoh16 (udp_length h)"]
  by (auto simp: udp_check_def Let_def split: if_splits)

end
