(* ===== verification/Checksum_Facts.thy ===== *)
theory Checksum_Facts
  imports Ip_Proto
begin

text \<open>
  What the checksum routines of \<^verbatim>\<open>ipv4_proto.h\<close> and \<^verbatim>\<open>udp_proto.h\<close> compute, against the
  definition of RFC 1071: the ones' complement of the ones' complement sum of the 16-bit words,
  an odd last byte being padded with zero.
\<close>

subsection \<open>The specification: sums of big-endian words\<close>

fun be_sum :: "byte list \<Rightarrow> nat" where
  "be_sum [] = 0"
| "be_sum [a] = 256 * unat a"
| "be_sum (a # b # r) = 256 * unat a + unat b + be_sum r"

text \<open>The ones' complement sum, as the number 0 to 65535 that represents it.\<close>

definition ones_sum :: "nat \<Rightarrow> nat" where
  "ones_sum n = (if n = 0 then 0 else (n - 1) mod 65535 + 1)"

lemma be_sum_append: "even (length xs) \<Longrightarrow> be_sum (xs @ ys) = be_sum xs + be_sum ys"
  by (induction xs rule: be_sum.induct) auto

lemma be_sum_le: "be_sum xs \<le> 65535 * ((length xs + 1) div 2)"
proof (induction xs rule: be_sum.induct)
  case (2 a)
  then show ?case using unat_byte_less [of a] by simp
next
  case (3 a b r)
  then show ?case using unat_byte_less [of a] unat_byte_less [of b] by simp
qed simp

lemma ones_sum_small [simp]: "n < 65536 \<Longrightarrow> ones_sum n = n"
  by (auto simp: ones_sum_def)

lemma ones_sum_le: "ones_sum n \<le> 65535"
  by (simp add: ones_sum_def Suc_le_eq)

lemma ones_sum_eq_0 [simp]: "ones_sum n = 0 \<longleftrightarrow> n = 0"
  by (simp add: ones_sum_def)

lemma ones_sum_cong_mod: "ones_sum n mod 65535 = n mod 65535"
  by (cases n) (simp_all add: ones_sum_def mod_Suc_eq)

lemma ones_sum_eq_FFFF: "ones_sum n = 65535 \<longleftrightarrow> n \<noteq> 0 \<and> n mod 65535 = 0"
proof
  assume "ones_sum n = 65535"
  then show "n \<noteq> 0 \<and> n mod 65535 = 0"
    using ones_sum_cong_mod [of n] by (cases "n = 0") auto
next
  assume n: "n \<noteq> 0 \<and> n mod 65535 = 0"
  then have "ones_sum n mod 65535 = 0" and "ones_sum n \<noteq> 0"
    using ones_sum_cong_mod [of n] by auto
  then show "ones_sum n = 65535"
    using ones_sum_le [of n] by (auto simp: mod_eq_0_iff_dvd dvd_def le_Suc_eq)
qed

lemma ones_sum_fold: "ones_sum (65536 * hi + lo) = ones_sum (hi + lo)"
proof (cases "hi + lo = 0")
  case False
  then have "65536 * hi + lo - 1 = (hi + lo - 1) + 65535 * hi"
    by simp
  then have "(65536 * hi + lo - 1) mod 65535 = (hi + lo - 1) mod 65535"
    by (simp only: mod_mult_self2)
  then show ?thesis
    using False by (simp add: ones_sum_def)
qed simp

subsection \<open>The loops compute the specification\<close>

lemma unat_fold_carry: "unat (fold_carry t) = ones_sum (unat t)"
proof (induction t rule: fold_carry.induct)
  case (1 t)
  show ?case
  proof (cases "drop_bit 16 t = 0")
    case True
    then have "unat t < 65536"
      using unat_split16 [of t] unat_low16 [of t] by simp
    then show ?thesis
      using True by (simp add: fold_carry.simps [of t])
  next
    case False
    have "ones_sum (unat t) = ones_sum (unat (drop_bit 16 t) + unat (t AND 0xFFFF))"
      by (subst unat_split16) (rule ones_sum_fold)
    then show ?thesis
      using False "1.IH"
      by (simp add: fold_carry.simps [of t] unat_fold_step add.commute [of "unat (drop_bit 16 t)"])
  qed
qed

lemma unat_sum_be16:
  assumes "length p = 2 * n" and "unat t + 65535 * n < 2 ^ 32"
  shows "unat (sum_be16 p n t) = unat t + be_sum p"
  using assms
proof (induction n arbitrary: p t)
  case (Suc n)
  then obtain a b r where p: "p = a # b # r"
    by (metis Suc_length_conv mult_Suc_right add_2_eq_Suc)
  have w: "unat (badvpn_read_be16 p) = 256 * unat a + unat b"
    unfolding p by (cases r) (simp_all add: unat_read_be16)
  have "unat (badvpn_read_be16 p) \<le> 65535"
    using unat_u16_less [of "badvpn_read_be16 p"] by linarith
  then have t: "unat (t + ucast (badvpn_read_be16 p)) = unat t + unat (badvpn_read_be16 p)"
    using Suc.prems(2) by (simp add: unat_word_ariths)
  have "unat (sum_be16 r n (t + ucast (badvpn_read_be16 p))) =
      unat (t + ucast (badvpn_read_be16 p)) + be_sum r"
    using Suc.prems p t \<open>unat (badvpn_read_be16 p) \<le> 65535\<close> by (intro Suc.IH) simp_all
  then show ?case
    using t w by (simp add: p)
qed simp

lemma sum_be16_take: "2 * n \<le> length p \<Longrightarrow> m = 2 * n \<Longrightarrow> sum_be16 p n t = sum_be16 (take m p) n t"
proof (induction n arbitrary: p t m)
  case (Suc n)
  then obtain a b r where p: "p = a # b # r"
    by (metis Suc_le_length_iff mult_Suc_right add_2_eq_Suc)
  then show ?case
    using Suc.prems Suc.IH [of r "2 * n"] by (simp add: badvpn_read_be16_def)
qed simp

lemma unat_summer:
  assumes "length p = len" and "even len" and "len < 131072"
  shows "unat (udp_checksum_summer p len) = be_sum p"
  unfolding udp_checksum_summer_def using assms by (subst unat_sum_be16) auto

lemma unat_not_u32: "unat (NOT t :: u32) = 4294967295 - unat t"
proof -
  have "NOT t = - 1 - t"
    by (simp add: not_eq_complement)
  moreover have "unat (- 1 - t) = unat (- 1 :: u32) - unat t"
    by (rule unat_sub) simp
  ultimately show ?thesis
    by (simp add: unsigned_minus_1_eq_mask mask_eq_exp_minus_1)
qed

lemma unat_low_not: "unat t \<le> 65535 \<Longrightarrow> unat (ucast (NOT t :: u32) :: u16) = 65535 - unat t"
  by (simp add: unsigned_ucast_eq take_bit_eq_mod unat_not_u32)
     (simp add: mod_nat_eqI)

lemma be_sum_le_bytes2 [wire_simps]: "be_sum (le_bytes 2 x) = unat (ntoh16 x)"
proof -
  obtain a b where ab: "le_bytes 2 x = [a, b]"
    using list_of_length_2 [OF length_le_bytes [of 2 x]] by blast
  have "ntoh16 x = badvpn_read_be16 (le_bytes 2 x)"
    by (simp add: read_be16_le_bytes)
  then show ?thesis
    by (simp add: ab unat_read_be16)
qed

lemma be_sum_hton16: "be_sum (le_bytes 2 (hton16 x)) = unat x"
  by (simp add: be_sum_le_bytes2)

lemma be_sum_set_checksum:
  "be_sum (ipv4_header_bytes (h\<lparr>ip_checksum := c\<rparr>)) =
   be_sum (ipv4_header_bytes (h\<lparr>ip_checksum := 0\<rparr>)) + unat (ntoh16 c)"
  by (simp add: ipv4_header_bytes_def be_sum_append be_sum_le_bytes2 ntoh16_def)

lemma be_sum_set_udp_checksum:
  "be_sum (udp_header_bytes (h\<lparr>udp_checksum_field := c\<rparr>)) =
   be_sum (udp_header_bytes (h\<lparr>udp_checksum_field := 0\<rparr>)) + unat (ntoh16 c)"
  by (simp add: udp_header_bytes_def be_sum_append be_sum_le_bytes2 ntoh16_def)

lemma unat_ipv4_checksum:
  assumes "even (length extra)" and "length extra < 65536"
  shows "unat (ntoh16 (ipv4_checksum h extra)) =
    65535 - ones_sum (be_sum (ipv4_header_bytes h @ extra))"
proof -
  let ?hd = "sum_be16 (ipv4_header_bytes h) 10 0"
  let ?t = "sum_be16 extra (length extra div 2) ?hd"
  have hd: "unat ?hd = be_sum (ipv4_header_bytes h)"
    by (subst unat_sum_be16) simp_all
  have le: "be_sum (ipv4_header_bytes h) \<le> 65535 * 10"
    using be_sum_le [of "ipv4_header_bytes h"] by simp
  have "unat ?t = be_sum (ipv4_header_bytes h) + be_sum extra"
    using assms le by (subst unat_sum_be16) (auto simp: hd)
  then have "unat (fold_carry ?t) = ones_sum (be_sum (ipv4_header_bytes h @ extra))"
    by (simp add: unat_fold_carry be_sum_append)
  then show ?thesis
    using ones_sum_le [of "be_sum (ipv4_header_bytes h @ extra)"]
    by (simp add: ipv4_checksum_def Let_def unat_low_not)
qed

text \<open>The arithmetic fact behind every receiver's check.\<close>

lemma ones_sum_complement: "ones_sum (s + (65535 - ones_sum s)) = 65535"
proof -
  have le: "ones_sum s \<le> 65535"
    by (rule ones_sum_le)
  have "(s + (65535 - ones_sum s)) mod 65535 = 0"
  proof -
    have "(s + (65535 - ones_sum s)) mod 65535 = (s mod 65535 + (65535 - ones_sum s)) mod 65535"
      by (simp add: mod_add_left_eq)
    also have "\<dots> = (ones_sum s mod 65535 + (65535 - ones_sum s)) mod 65535"
      by (simp add: ones_sum_cong_mod)
    also have "\<dots> = (ones_sum s + (65535 - ones_sum s)) mod 65535"
      by (simp add: mod_add_left_eq)
    also have "\<dots> = 0"
      using le by simp
    finally show ?thesis .
  qed
  moreover have "s + (65535 - ones_sum s) \<noteq> 0"
    using le by (cases "s = 0") auto
  ultimately show ?thesis
    by (simp add: ones_sum_eq_FFFF)
qed

subsection \<open>The UDP checksums\<close>

text \<open>The words RFC 768 sums over IPv4: the pseudo header, the UDP header and the payload.\<close>

definition udp4_words :: "udp_header \<Rightarrow> byte list \<Rightarrow> u32 \<Rightarrow> u32 \<Rightarrow> byte list" where
  "udp4_words h payload src dst =
     le_bytes 4 src @ le_bytes 4 dst @ [0, 17] @
     badvpn_write_be16 (of_nat (8 + length payload)) @ udp_header_bytes h @ payload"

definition udp6_words :: "udp_header \<Rightarrow> byte list \<Rightarrow> byte list \<Rightarrow> byte list \<Rightarrow> byte list" where
  "udp6_words h payload src dst =
     src @ dst @ badvpn_write_be32 (of_nat (8 + length payload)) @ [0, 0, 0, 17] @
     udp_header_bytes h @ payload"

lemma write_be16_bytes: "badvpn_write_be16 x = le_bytes 2 (hton16 x)"
  unfolding bytes_hton16 by (simp add: badvpn_write_be16_def le_bytes_2)

lemma write_be32_bytes: "badvpn_write_be32 x = le_bytes 4 (hton32 x)"
  unfolding bytes_hton32 by (simp add: badvpn_write_be32_def le_bytes_4)

lemma be_sum_odd_split:
  "odd (length p) \<Longrightarrow> be_sum p = be_sum (take (length p - 1) p) + 256 * unat (p ! (length p - 1))"
proof (induction p rule: be_sum.induct)
  case (3 a b r)
  then have "odd (length r)" and "0 < length r"
    by (auto intro: Nat.gr0I)
  then show ?case
    using "3.IH" by (cases r) (auto simp: take_Cons')
qed auto

lemma unat_pad_byte: "unat (push_bit 8 (ucast (b :: byte)) :: u16) = 256 * unat b"
  using unat_byte_less [of b] by (simp add: push_bit_eq_mult unat_word_ariths)

lemma unat_payload_sum:
  assumes "length p < 65536"
  shows "unat (udp_payload_sum p (length p)) = be_sum p"
proof (cases "even (length p)")
  case True
  then show ?thesis
    using assms by (simp add: udp_payload_sum_def unat_summer even_iff_mod_2_eq_zero)
next
  case False
  let ?q = "take (length p - 1) p"
  let ?last = "push_bit 8 (ucast (p ! (length p - 1))) :: u16"
  have q: "unat (udp_checksum_summer p (length p - 1)) = be_sum ?q"
  proof -
    have "udp_checksum_summer p (length p - 1) = udp_checksum_summer ?q (length p - 1)"
      unfolding udp_checksum_summer_def by (rule sum_be16_take) (use False in auto)
    then show ?thesis
      using assms False by (simp add: unat_summer)
  qed
  have l: "unat (udp_checksum_summer (le_bytes 2 (hton16 ?last)) 2) = 256 * unat (p ! (length p - 1))"
    by (simp add: unat_summer be_sum_hton16 unat_pad_byte)
  have "be_sum ?q \<le> 65535 * 32768"
  proof -
    have "length ?q + 1 \<le> 65536"
      using assms by simp
    then have "(length ?q + 1) div 2 \<le> 32768"
      by linarith
    then show ?thesis
      using be_sum_le [of ?q] by linarith
  qed
  then have "unat (udp_checksum_summer p (length p - 1) +
      udp_checksum_summer (le_bytes 2 (hton16 ?last)) 2) = be_sum p"
    using q l be_sum_odd_split [of p] False unat_byte_less [of "p ! (length p - 1)"]
    by (simp add: unat_word_ariths)
  then show ?thesis
    using False by (simp add: udp_payload_sum_def odd_iff_mod_2_eq_one)
qed

text \<open>A value of the accumulator that is small enough is not reduced modulo \<open>2 ^ 32\<close>.\<close>

lemma unat_add_small: "unat a + unat b < 2 ^ 32 \<Longrightarrow> unat (a + b :: u32) = unat a + unat b"
  by (simp add: unat_word_ariths)

lemma be_sum_le_bytes4: "be_sum (le_bytes 4 x) \<le> 131070"
  using be_sum_le [of "le_bytes 4 x"] by simp

lemma be_sum_udp_header: "be_sum (udp_header_bytes h) \<le> 262140"
  using be_sum_le [of "udp_header_bytes h"] by simp

lemma be_sum_payload:
  assumes "length p < 65536"
  shows "be_sum p \<le> 2147450880"
proof -
  have "(length p + 1) div 2 \<le> 32768"
    using assms by linarith
  then show ?thesis
    using be_sum_le [of p] by linarith
qed

lemma udp_finish:
  assumes "unat t = s" and "s \<noteq> 0"
  shows "unat (ntoh16 (hton16 (ucast (NOT (if fold_carry t = 0 then 0xFFFF else fold_carry t)) :: u16))) =
    65535 - ones_sum s"
proof -
  have "unat (fold_carry t) = ones_sum s"
    using assms(1) by (simp add: unat_fold_carry)
  moreover from this have "fold_carry t \<noteq> 0"
    using assms(2) by (metis ones_sum_eq_0 unat_0)
  ultimately show ?thesis
    using ones_sum_le [of s] by (simp add: unat_low_not)
qed

lemma unat_sum6:
  fixes a b c d e f :: u32
  assumes "unat a + unat b + unat c + unat d + unat e + unat f < 2 ^ 32"
  shows "unat (a + b + c + d + e + f) = unat a + unat b + unat c + unat d + unat e + unat f"
  using assms by (simp add: unat_add_small)

lemma unat_udp_checksum:
  assumes "length payload \<le> 65527"
  shows "unat (ntoh16 (udp_checksum h payload src dst)) =
    65535 - ones_sum (be_sum (udp4_words h payload src dst))"
proof -
  have len: "length payload mod 65536 = length payload"
    using assms by simp
  let ?s = "udp_checksum_summer (le_bytes 4 src) 4" and ?d = "udp_checksum_summer (le_bytes 4 dst) 4"
  let ?p = "udp_checksum_summer (le_bytes 2 (hton16 (ucast IPV4_PROTOCOL_UDP))) 2"
  let ?l = "udp_checksum_summer (le_bytes 2 (hton16 (of_nat (8 + length payload)))) 2"
  let ?h = "udp_checksum_summer (udp_header_bytes h) 8" and ?y = "udp_payload_sum payload (length payload)"
  let ?t = "?s + ?d + ?p + ?l + ?h + ?y"
  have parts: "unat ?s = be_sum (le_bytes 4 src)" "unat ?d = be_sum (le_bytes 4 dst)" "unat ?p = 17"
    "unat ?l = unat (of_nat (8 + length payload) :: u16)" "unat ?h = be_sum (udp_header_bytes h)"
    "unat ?y = be_sum payload"
    using assms by (simp_all add: unat_summer unat_payload_sum be_sum_hton16)
  have bound: "be_sum payload \<le> 2147450880"
    using assms by (intro be_sum_payload) simp
  have "unat ?s + unat ?d + unat ?p + unat ?l + unat ?h + unat ?y < 2 ^ 32"
    unfolding parts
    using bound be_sum_le_bytes4 [of src] be_sum_le_bytes4 [of dst] be_sum_udp_header [of h]
      unat_u16_less [of "of_nat (8 + length payload)"] by simp
  from unat_sum6 [OF this] have "unat ?t = be_sum (le_bytes 4 src) + be_sum (le_bytes 4 dst) + 17 +
      unat (of_nat (8 + length payload) :: u16) + be_sum (udp_header_bytes h) + be_sum payload"
    unfolding parts .
  then have "unat ?t = be_sum (udp4_words h payload src dst)"
    by (simp add: udp4_words_def be_sum_append write_be16_bytes be_sum_hton16 del: of_nat_add)
  moreover have "be_sum (udp4_words h payload src dst) \<noteq> 0"
    by (simp add: udp4_words_def be_sum_append)
  ultimately show ?thesis
    unfolding udp_checksum_def Let_def len by (rule udp_finish)
qed

lemma unat_udp_ip6_checksum:
  assumes "length payload \<le> 65527" and "length src = 16" and "length dst = 16"
  shows "unat (ntoh16 (udp_ip6_checksum h payload src dst)) =
    65535 - ones_sum (be_sum (udp6_words h payload src dst))"
proof -
  have len: "length payload mod 65536 = length payload"
    using assms by simp
  let ?s = "udp_checksum_summer src 16" and ?d = "udp_checksum_summer dst 16"
  let ?x = "of_nat (8 + length payload) :: u32"
  let ?l = "udp_checksum_summer (le_bytes 4 (hton32 ?x)) 4"
  let ?p = "udp_checksum_summer (le_bytes 4 (hton32 (ucast IPV6_NEXT_UDP))) 4"
  let ?h = "udp_checksum_summer (udp_header_bytes h) 8" and ?y = "udp_payload_sum payload (length payload)"
  let ?t = "?s + ?d + ?l + ?p + ?h + ?y"
  have seventeen: "be_sum (le_bytes 4 (hton32 (ucast IPV6_NEXT_UDP))) = 17"
    unfolding bytes_hton32 by (simp add: le_bytes_4)
  have parts: "unat ?s = be_sum src" "unat ?d = be_sum dst"
    "unat ?l = be_sum (le_bytes 4 (hton32 ?x))"
    "unat ?p = be_sum (le_bytes 4 (hton32 (ucast IPV6_NEXT_UDP)))"
    "unat ?h = be_sum (udp_header_bytes h)" "unat ?y = be_sum payload"
    using assms by (simp_all add: unat_summer unat_payload_sum)
  have bound: "be_sum payload \<le> 2147450880" "be_sum src \<le> 524280" "be_sum dst \<le> 524280"
    using assms be_sum_le [of src] be_sum_le [of dst] by (auto intro: be_sum_payload)
  have "unat ?s + unat ?d + unat ?l + unat ?p + unat ?h + unat ?y < 2 ^ 32"
    unfolding parts seventeen
    using bound be_sum_le_bytes4 [of "hton32 ?x"] be_sum_udp_header [of h] by simp
  from unat_sum6 [OF this] have "unat ?t = be_sum src + be_sum dst + be_sum (le_bytes 4 (hton32 ?x)) + 17 +
      be_sum (udp_header_bytes h) + be_sum payload"
    unfolding parts seventeen .
  then have "unat ?t = be_sum (udp6_words h payload src dst)"
    using assms by (simp add: udp6_words_def be_sum_append write_be32_bytes del: of_nat_add)
  moreover have "be_sum (udp6_words h payload src dst) \<noteq> 0"
    using assms by (simp add: udp6_words_def be_sum_append write_be32_bytes)
  ultimately show ?thesis
    unfolding udp_ip6_checksum_def Let_def len by (rule udp_finish)
qed

subsection \<open>Properties\<close>

text \<open>C1. The IPv4 header checksum is the RFC 1071 checksum: a header that carries the value
  \<open>ipv4_checksum\<close> computed over it with a zeroed checksum field (and over its options) has the
  ones' complement sum 0xFFFF that every receiver checks for. The 32-bit accumulator of the loop
  never wraps.\<close>

theorem ipv4_checksum_valid:
  assumes "even (length extra)" and "length extra < 65536"
  shows "ones_sum (be_sum (ipv4_header_bytes
      (h\<lparr>ip_checksum := ipv4_checksum (h\<lparr>ip_checksum := 0\<rparr>) extra\<rparr>) @ extra)) = 65535"
proof -
  let ?s = "be_sum (ipv4_header_bytes (h\<lparr>ip_checksum := 0\<rparr>) @ extra)"
  let ?c = "ipv4_checksum (h\<lparr>ip_checksum := 0\<rparr>) extra"
  have "be_sum (ipv4_header_bytes (h\<lparr>ip_checksum := ?c\<rparr>) @ extra) = ?s + unat (ntoh16 ?c)"
    by (simp add: be_sum_append be_sum_set_checksum [of ?c h])
  also have "\<dots> = ?s + (65535 - ones_sum ?s)"
    using assms by (simp add: unat_ipv4_checksum)
  finally show ?thesis
    by (simp add: ones_sum_complement)
qed

theorem ipv4_checksum_valid_witness:
  "ones_sum (be_sum (ipv4_header_bytes
     (ipv4_header_of_bytes (replicate 20 7)
       \<lparr>ip_checksum := ipv4_checksum (ipv4_header_of_bytes (replicate 20 7)\<lparr>ip_checksum := 0\<rparr>)
          [1, 2, 3, 4]\<rparr>) @ [1, 2, 3, 4])) = 65535"
  by (rule ipv4_checksum_valid) simp_all

text \<open>C2. The UDP checksum over IPv4 makes the datagram verify: with the computed value in the
  checksum field, the pseudo header, the header and the payload (odd payloads padded) sum to
  0xFFFF. The substitution of 0xFFFF for a zero sum in the source is never taken, because the
  protocol number in the pseudo header makes the sum positive.\<close>

theorem udp_checksum_valid:
  assumes "length payload \<le> 65527"
  shows "ones_sum (be_sum (udp4_words
      (h\<lparr>udp_checksum_field := udp_checksum (h\<lparr>udp_checksum_field := 0\<rparr>) payload src dst\<rparr>)
      payload src dst)) = 65535"
proof -
  let ?s = "be_sum (udp4_words (h\<lparr>udp_checksum_field := 0\<rparr>) payload src dst)"
  let ?c = "udp_checksum (h\<lparr>udp_checksum_field := 0\<rparr>) payload src dst"
  have "be_sum (udp4_words (h\<lparr>udp_checksum_field := ?c\<rparr>) payload src dst) = ?s + unat (ntoh16 ?c)"
    by (simp add: udp4_words_def be_sum_append write_be16_bytes be_sum_set_udp_checksum [of ?c h])
  also have "\<dots> = ?s + (65535 - ones_sum ?s)"
    using assms by (simp add: unat_udp_checksum)
  finally show ?thesis
    by (simp add: ones_sum_complement)
qed

theorem udp_checksum_valid_witness:
  "ones_sum (be_sum (udp4_words
      (udp_header_of_bytes [1, 2, 3, 4, 0, 9, 0, 0]\<lparr>udp_checksum_field :=
         udp_checksum (udp_header_of_bytes [1, 2, 3, 4, 0, 9, 0, 0]\<lparr>udp_checksum_field := 0\<rparr>)
           [7] 1 2\<rparr>) [7] 1 2)) = 65535"
  by (rule udp_checksum_valid) simp

text \<open>C3. The code deviates from RFC 768 exactly where the ones' complement sum is 0xFFFF: it then
  emits the checksum 0, which the RFC reserves for "no checksum computed" (it asks for 0xFFFF
  to be sent instead). Everywhere else the emitted value is the complement of the sum.\<close>

theorem udp_checksum_zero_iff:
  assumes "length payload \<le> 65527"
  shows "udp_checksum h payload src dst = 0 \<longleftrightarrow>
    ones_sum (be_sum (udp4_words h payload src dst)) = 65535"
proof -
  have "udp_checksum h payload src dst = 0 \<longleftrightarrow> unat (ntoh16 (udp_checksum h payload src dst)) = 0"
    using ntoh16_inject [of "udp_checksum h payload src dst" 0] by (simp add: ntoh16_def unat_eq_0)
  also have "\<dots> \<longleftrightarrow> ones_sum (be_sum (udp4_words h payload src dst)) = 65535"
    using assms ones_sum_le [of "be_sum (udp4_words h payload src dst)"]
    by (simp add: unat_udp_checksum)
  finally show ?thesis .
qed

theorem udp_checksum_zero_iff_witness:
  "udp_checksum (udp_header_of_bytes [0, 0, 0, 0, 0, 10, 0, 0]) [255, 218] 0 0 = 0"
  by (subst udp_checksum_zero_iff)
     (simp_all add: udp4_words_def udp_header_bytes_def udp_header_of_bytes_def
       badvpn_write_be16_def le_bytes_2 le_bytes_4 ones_sum_def)

end
