(* ===== verification/Net_Addr.thy ===== *)
theory Net_Addr
  imports Byteorder
begin

text \<open>
  The socket addresses of \<^verbatim>\<open>system/BAddr.h\<close>. A \<^verbatim>\<open>BAddr\<close> is a tagged union; addresses and ports are
  kept in network byte order, that is as the raw memory of the wire.
\<close>

datatype BAddr =
    BADDR_NONE
  | BADDR_IPV4 u32 u16
  | BADDR_IPV6 "byte list" u16
  | BADDR_PACKET u16 int int int "byte list"

fun baddr_type :: "BAddr \<Rightarrow> int" where
  "baddr_type BADDR_NONE = 0"
| "baddr_type (BADDR_IPV4 _ _) = 1"
| "baddr_type (BADDR_IPV6 _ _) = 2"
| "baddr_type (BADDR_PACKET _ _ _ _ _) = 5"

definition BAddr_InitIPv4 :: "u32 \<Rightarrow> u16 \<Rightarrow> BAddr" where
  "BAddr_InitIPv4 ip port = BADDR_IPV4 ip port"

definition BAddr_InitIPv6 :: "byte list \<Rightarrow> u16 \<Rightarrow> BAddr" where
  "BAddr_InitIPv6 ip port = BADDR_IPV6 (take 16 ip) port"

definition BAddr_IsInvalid :: "BAddr \<Rightarrow> bool" where
  "BAddr_IsInvalid a = (baddr_type a = 0)"

text \<open>The address family the tunnel works with, and the size of the \<^verbatim>\<open>ip\<close> array.\<close>

fun is_ip_addr :: "BAddr \<Rightarrow> bool" where
  "is_ip_addr (BADDR_IPV4 _ _) = True"
| "is_ip_addr (BADDR_IPV6 ip _) = (length ip = 16)"
| "is_ip_addr _ = False"

text \<open>The sign of C's \<^verbatim>\<open>memcmp\<close> on two arrays of the same size; for the sake of a total function, a
  shorter list is smaller than its extensions.\<close>

fun memcmp :: "byte list \<Rightarrow> byte list \<Rightarrow> int" where
  "memcmp (a # as) (b # bs) = (if a = b then memcmp as bs else if a < b then - 1 else 1)"
| "memcmp [] [] = 0"
| "memcmp [] (b # bs) = - 1"
| "memcmp (a # as) [] = 1"

fun BAddr_CompareOrder :: "BAddr \<Rightarrow> BAddr \<Rightarrow> int" where
  "BAddr_CompareOrder addr1 addr2 =
     (let cmp = B_COMPARE (baddr_type addr1) (baddr_type addr2) in
      if cmp \<noteq> 0 then cmp
      else case (addr1, addr2) of
        (BADDR_NONE, _) \<Rightarrow> 0
      | (BADDR_IPV4 ip1 port1, BADDR_IPV4 ip2 port2) \<Rightarrow>
          (let cmp = B_COMPARE (ntoh32 ip1) (ntoh32 ip2) in
           if cmp \<noteq> 0 then cmp else B_COMPARE (ntoh16 port1) (ntoh16 port2))
      | (BADDR_IPV6 ip1 port1, BADDR_IPV6 ip2 port2) \<Rightarrow>
          (let cmp = memcmp ip1 ip2 in
           if cmp \<noteq> 0 then B_COMPARE cmp 0 else B_COMPARE (ntoh16 port1) (ntoh16 port2))
      | _ \<Rightarrow> 0)"

declare BAddr_CompareOrder.simps [simp del]

subsection \<open>The comparison is a linear order on IP addresses\<close>

lemma memcmp_zero: "length xs = length ys \<Longrightarrow> memcmp xs ys = 0 \<longleftrightarrow> xs = ys"
  by (induction xs ys rule: list_induct2) auto

lemma memcmp_uminus: "length xs = length ys \<Longrightarrow> memcmp ys xs = - memcmp xs ys"
  by (induction xs ys rule: list_induct2) auto

lemma memcmp_trans:
  "length xs = length ys \<Longrightarrow> length ys = length zs \<Longrightarrow> memcmp xs ys < 0 \<Longrightarrow> memcmp ys zs < 0 \<Longrightarrow>
   memcmp xs zs < 0"
proof (induction xs arbitrary: ys zs)
  case (Cons x xs)
  then obtain y ys' z zs' where "ys = y # ys'" and "zs = z # zs'"
    by (metis length_Suc_conv)
  then show ?case
    using Cons.IH [of ys' zs'] Cons.prems order_less_trans [of x y z] by (simp split: if_splits)
qed simp

lemma B_COMPARE_sign [simp]: "B_COMPARE (B_COMPARE (a :: 'a::linorder) b) 0 = B_COMPARE a b"
  by (auto simp: B_COMPARE_def)

lemma memcmp_self [simp]: "memcmp xs xs = 0"
  by (induction xs) auto

lemma BAddr_cmp44: "BAddr_CompareOrder (BADDR_IPV4 i p) (BADDR_IPV4 j q) =
    (if i \<noteq> j then B_COMPARE (ntoh32 i) (ntoh32 j) else B_COMPARE (ntoh16 p) (ntoh16 q))"
  by (simp add: BAddr_CompareOrder.simps Let_def B_COMPARE_zero)

lemma BAddr_cmp66: "length i = length j \<Longrightarrow> BAddr_CompareOrder (BADDR_IPV6 i p) (BADDR_IPV6 j q) =
    (if i \<noteq> j then B_COMPARE (memcmp i j) 0 else B_COMPARE (ntoh16 p) (ntoh16 q))"
  by (simp add: BAddr_CompareOrder.simps Let_def B_COMPARE_zero memcmp_zero)

lemma BAddr_cmp46: "BAddr_CompareOrder (BADDR_IPV4 i p) (BADDR_IPV6 j q) = - 1"
  "BAddr_CompareOrder (BADDR_IPV6 j q) (BADDR_IPV4 i p) = 1"
  by (simp_all add: BAddr_CompareOrder.simps B_COMPARE_def)

lemmas BAddr_cmp = BAddr_cmp44 BAddr_cmp66 BAddr_cmp46

lemma BAddr_CompareOrder_zero:
  assumes "is_ip_addr a" and "is_ip_addr b"
  shows "BAddr_CompareOrder a b = 0 \<longleftrightarrow> a = b"
  using assms
  by (cases a; cases b) (simp_all add: BAddr_cmp B_COMPARE_zero memcmp_zero)

lemma ip_addr_cases:
  assumes "is_ip_addr a" and "is_ip_addr b"
  obtains (v4) i p j q where "a = BADDR_IPV4 i p" and "b = BADDR_IPV4 j q"
  | (v6) i p j q where "a = BADDR_IPV6 i p" and "b = BADDR_IPV6 j q" and "length i = length j"
  | (v46) i p j q where "a = BADDR_IPV4 i p" and "b = BADDR_IPV6 j q"
  | (v64) i p j q where "a = BADDR_IPV6 i p" and "b = BADDR_IPV4 j q"
  using assms by (cases a; cases b) auto

lemma BAddr_CompareOrder_uminus:
  assumes "is_ip_addr a" and "is_ip_addr b"
  shows "BAddr_CompareOrder b a = - BAddr_CompareOrder a b"
  using assms
proof (cases rule: ip_addr_cases)
  case (v4 i p j q)
  then show ?thesis
    by (simp add: BAddr_cmp44 B_COMPARE_def)
next
  case (v6 i p j q)
  then have "memcmp j i = - memcmp i j"
    by (intro memcmp_uminus)
  with v6 show ?thesis
    by (simp add: BAddr_cmp66 B_COMPARE_def)
qed (simp_all add: BAddr_cmp46)

lemma BAddr_CompareOrder_neg4:
  "BAddr_CompareOrder (BADDR_IPV4 i p) (BADDR_IPV4 j q) < 0 \<longleftrightarrow>
     ntoh32 i < ntoh32 j \<or> i = j \<and> ntoh16 p < ntoh16 q"
  by (auto simp: BAddr_cmp B_COMPARE_neg)

lemma BAddr_CompareOrder_neg6:
  "length i = length j \<Longrightarrow> BAddr_CompareOrder (BADDR_IPV6 i p) (BADDR_IPV6 j q) < 0 \<longleftrightarrow>
     memcmp i j < 0 \<or> i = j \<and> ntoh16 p < ntoh16 q"
  by (auto simp: BAddr_cmp B_COMPARE_neg)

lemma BAddr_CompareOrder_trans:
  assumes "is_ip_addr a" "is_ip_addr b" "is_ip_addr c"
    and "BAddr_CompareOrder a b < 0" and "BAddr_CompareOrder b c < 0"
  shows "BAddr_CompareOrder a c < 0"
  using assms(1,2)
proof (cases rule: ip_addr_cases)
  case (v4 i p j q)
  then show ?thesis
    using assms by (cases c) (auto simp: BAddr_CompareOrder_neg4 BAddr_cmp46)
next
  case (v6 i p j q)
  show ?thesis
  proof (cases c)
    case (BADDR_IPV6 k r)
    then have "length j = length k"
      using v6 assms(2,3) by simp
    then show ?thesis
      using v6 assms BADDR_IPV6 memcmp_trans [of i j k] by (auto simp: BAddr_CompareOrder_neg6)
  qed (use v6 assms in \<open>auto simp: BAddr_cmp46\<close>)
next
  case (v46 i p j q)
  then show ?thesis
    using assms by (cases c) (auto simp: BAddr_cmp46)
next
  case (v64 i p j q)
  then show ?thesis
    using assms by (auto simp: BAddr_cmp46)
qed

end
