(* ===== verification/Socks_Client.thy ===== *)
theory Socks_Client
  imports Net_Addr "HOL-Library.Monad_Syntax"
begin

text \<open>
  The SOCKS5 client of \<^verbatim>\<open>socksclient/BSocksClient.c\<close> with the message formats of
  \<^verbatim>\<open>misc/socks_proto.h\<close>. Every handler of the source is a function from the object to the new
  object and the list of calls it makes on its surroundings, in order. A handler that would access
  memory outside of its buffer returns \<^const>\<open>None\<close>.
\<close>

subsection \<open>The object\<close>

datatype socks_state =
    STATE_CONNECTING | STATE_SENDING_HELLO | STATE_SENT_HELLO
  | STATE_SENDING_PASSWORD | STATE_SENT_PASSWORD
  | STATE_SENDING_REQUEST | STATE_SENT_REQUEST
  | STATE_RECEIVED_REPLY_HEADER | STATE_UP

datatype socks_event = EVENT_ERROR | EVENT_UP | EVENT_ERROR_CLOSED

record auth_info =
  auth_type :: int
  auth_username :: "byte list"
  auth_password :: "byte list"

text \<open>Which interfaces of the connection are initialised.\<close>

datatype io_mode = IO_NONE | IO_CONTROL | IO_UP

record BSocksClient =
  sc_auth_info :: "auth_info list"
  sc_dest_addr :: BAddr
  sc_state :: socks_state
  sc_buffer :: "byte list option"
  sc_con :: bool
  sc_io :: io_mode
  sc_recv_dest :: nat
  sc_recv_len :: nat
  sc_recv_total :: nat

text \<open>Calls on the surroundings: a receive request into the buffer (offset and available bytes), a
  packet passed to the sender, and the user's event handler.\<close>

datatype socks_out = StreamRecv nat nat | SendPacket "byte list" | CallHandler socks_event

text \<open>The parts of the platform the client depends on: whether an allocation of a given size
  succeeds, the indeterminate contents of fresh memory, whether \<^verbatim>\<open>BConnection_Init\<close> and
  \<^verbatim>\<open>BConnector_Init\<close> succeed, and \<^verbatim>\<open>SIZE_MAX\<close>.\<close>

record sc_env =
  realloc_ok :: "nat \<Rightarrow> bool"
  junk :: "nat \<Rightarrow> byte"
  con_init_ok :: bool
  connector_init_ok :: bool
  env_size_max :: nat

type_synonym socks_result = "(BSocksClient \<times> socks_out list) option"

definition SOCKS_VERSION :: byte where "SOCKS_VERSION = 5"
definition SOCKS_METHOD_NO_AUTHENTICATION_REQUIRED :: int where
  "SOCKS_METHOD_NO_AUTHENTICATION_REQUIRED = 0"
definition SOCKS_METHOD_USERNAME_PASSWORD :: int where "SOCKS_METHOD_USERNAME_PASSWORD = 2"
definition SOCKS_CMD_CONNECT :: byte where "SOCKS_CMD_CONNECT = 1"
definition SOCKS_ATYP_IPV4 :: byte where "SOCKS_ATYP_IPV4 = 1"
definition SOCKS_ATYP_IPV6 :: byte where "SOCKS_ATYP_IPV6 = 4"
definition SOCKS_REP_SUCCEEDED :: byte where "SOCKS_REP_SUCCEEDED = 0"

lemmas socks_consts = SOCKS_VERSION_def SOCKS_METHOD_NO_AUTHENTICATION_REQUIRED_def
  SOCKS_METHOD_USERNAME_PASSWORD_def SOCKS_CMD_CONNECT_def SOCKS_ATYP_IPV4_def SOCKS_ATYP_IPV6_def
  SOCKS_REP_SUCCEEDED_def

subsection \<open>Helpers\<close>

definition report_error :: "BSocksClient \<Rightarrow> socks_event \<Rightarrow> socks_result" where
  "report_error s e = Some (s, [CallHandler e])"

definition init_control_io :: "BSocksClient \<Rightarrow> BSocksClient" where
  "init_control_io s = s\<lparr>sc_io := IO_CONTROL\<rparr>"

definition free_control_io :: "BSocksClient \<Rightarrow> BSocksClient" where
  "free_control_io s = s\<lparr>sc_io := IO_NONE\<rparr>"

definition init_up_io :: "BSocksClient \<Rightarrow> BSocksClient" where
  "init_up_io s = s\<lparr>sc_io := IO_UP\<rparr>"

text \<open>\<^verbatim>\<open>BRealloc\<close>: never asks for zero bytes, keeps the old contents up to the smaller size.\<close>

definition BRealloc :: "sc_env \<Rightarrow> byte list option \<Rightarrow> nat \<Rightarrow> byte list option" where
  "BRealloc env m n =
     (let k = (if n = 0 then 1 else n);
          old = (case m of None \<Rightarrow> [] | Some b \<Rightarrow> b)
      in if realloc_ok env k
         then Some (map (\<lambda>i. if i < length old then old ! i else junk env i) [0..<k])
         else None)"

text \<open>\<open>reserve_buffer\<close> returns the object with its new buffer, or \<^const>\<open>None\<close> where the source
  returns 0.\<close>

definition reserve_buffer :: "sc_env \<Rightarrow> BSocksClient \<Rightarrow> bsize \<Rightarrow> BSocksClient option" where
  "reserve_buffer env s size' =
     (if is_overflow size' then None
      else case BRealloc env (sc_buffer s) (bs_value size') of
        None \<Rightarrow> None
      | Some b \<Rightarrow> Some (s\<lparr>sc_buffer := Some b\<rparr>))"

definition do_receive :: "BSocksClient \<Rightarrow> socks_result" where
  "do_receive s =
     Some (s, [StreamRecv (sc_recv_dest s + sc_recv_len s) (sc_recv_total s - sc_recv_len s)])"

definition start_receive :: "BSocksClient \<Rightarrow> nat \<Rightarrow> nat \<Rightarrow> socks_result" where
  "start_receive s dest tot =
     do_receive (s\<lparr>sc_recv_dest := dest, sc_recv_len := 0, sc_recv_total := tot\<rparr>)"

text \<open>Reads and writes through the buffer pointer; a null buffer is a fault.\<close>

definition buf_read :: "BSocksClient \<Rightarrow> nat \<Rightarrow> nat \<Rightarrow> byte list option" where
  "buf_read s off n = (case sc_buffer s of None \<Rightarrow> None | Some b \<Rightarrow> read_at b off n)"

definition buf_write :: "BSocksClient \<Rightarrow> nat \<Rightarrow> byte list \<Rightarrow> BSocksClient option" where
  "buf_write s off bs =
     (case sc_buffer s of None \<Rightarrow> None
      | Some b \<Rightarrow> (case write_at b off bs of None \<Rightarrow> None | Some b' \<Rightarrow> Some (s\<lparr>sc_buffer := Some b'\<rparr>)))"

text \<open>\<^verbatim>\<open>PacketPassInterface_Sender_Send(send_if, buffer, len)\<close> followed by the change of state.\<close>

definition send_buffer :: "BSocksClient \<Rightarrow> nat \<Rightarrow> socks_state \<Rightarrow> socks_result" where
  "send_buffer s len st = do {
     bs \<leftarrow> buf_read s 0 len;
     Some (s\<lparr>sc_state := st\<rparr>, [SendPacket bs]) }"

subsection \<open>The handlers\<close>

fun write_methods :: "BSocksClient \<Rightarrow> nat \<Rightarrow> auth_info list \<Rightarrow> BSocksClient option" where
  "write_methods s i [] = Some s"
| "write_methods s i (a # as) =
     (case buf_write s (2 + i) [hton8 (of_int (auth_type a))] of
        None \<Rightarrow> None
      | Some s' \<Rightarrow> write_methods s' (i + 1) as)"

definition connector_handler :: "sc_env \<Rightarrow> BSocksClient \<Rightarrow> bool \<Rightarrow> socks_result" where
  "connector_handler env s is_error =
     (if is_error then report_error s EVENT_ERROR
      else if \<not> con_init_ok env then report_error s EVENT_ERROR
      else
        let s = init_control_io (s\<lparr>sc_con := True\<rparr>);
            n = length (sc_auth_info s);
            fail1 = (\<lambda>s. report_error ((free_control_io s)\<lparr>sc_con := False\<rparr>) EVENT_ERROR)
        in if n = 0 \<or> n > 255 then fail1 s
           else
             let size' = bsize_add (env_size_max env) (bsize_fromsize 2)
                  (bsize_mul (env_size_max env) (bsize_fromsize n) (bsize_fromsize 1))
             in case reserve_buffer env s size' of
                  None \<Rightarrow> fail1 s
                | Some s \<Rightarrow> do {
                    s \<leftarrow> buf_write s 0 [hton8 SOCKS_VERSION, hton8 (of_nat n)];
                    s \<leftarrow> write_methods s 0 (sc_auth_info s);
                    send_buffer s (bs_value size') STATE_SENDING_HELLO })"

definition connection_handler :: "BSocksClient \<Rightarrow> bool \<Rightarrow> socks_result" where
  "connection_handler s recv_closed =
     (if sc_state s = STATE_UP \<and> recv_closed then report_error s EVENT_ERROR_CLOSED
      else report_error s EVENT_ERROR)"

definition auth_finished :: "sc_env \<Rightarrow> BSocksClient \<Rightarrow> socks_result" where
  "auth_finished env s =
     (let size' = bsize_fromsize 4;
          size' = (case sc_dest_addr s of
             BADDR_IPV4 _ _ \<Rightarrow> bsize_add (env_size_max env) size' (bsize_fromsize 6)
           | BADDR_IPV6 _ _ \<Rightarrow> bsize_add (env_size_max env) size' (bsize_fromsize 18)
           | _ \<Rightarrow> size')
      in case reserve_buffer env s size' of
           None \<Rightarrow> report_error s EVENT_ERROR
         | Some s \<Rightarrow> do {
             (s, atyp) \<leftarrow> (case sc_dest_addr s of
                BADDR_IPV4 ip port \<Rightarrow> do {
                  s \<leftarrow> buf_write s 4 (le_bytes 4 ip @ le_bytes 2 port);
                  Some (s, hton8 SOCKS_ATYP_IPV4) }
              | BADDR_IPV6 ip port \<Rightarrow> do {
                  s \<leftarrow> buf_write s 4 (take 16 ip @ le_bytes 2 port);
                  Some (s, hton8 SOCKS_ATYP_IPV6) }
              | _ \<Rightarrow> Some (s, junk env 0));
             s \<leftarrow> buf_write s 0 [hton8 SOCKS_VERSION, hton8 SOCKS_CMD_CONNECT, hton8 0, atyp];
             send_buffer s (bs_value size') STATE_SENDING_REQUEST })"

text \<open>The search for the method the server chose: the first entry of that type.\<close>

fun find_auth :: "auth_info list \<Rightarrow> byte \<Rightarrow> auth_info option" where
  "find_auth [] m = None"
| "find_auth (a # as) m = (if auth_type a = int (unat (ntoh8 m)) then Some a else find_auth as m)"

definition received_hello :: "sc_env \<Rightarrow> BSocksClient \<Rightarrow> socks_result" where
  "received_hello env s = do {
     imsg \<leftarrow> buf_read s 0 2;
     if ntoh8 (imsg ! 0) \<noteq> SOCKS_VERSION then report_error s EVENT_ERROR
     else case find_auth (sc_auth_info s) (imsg ! 1) of
       None \<Rightarrow> report_error s EVENT_ERROR
     | Some ai \<Rightarrow>
         if auth_type ai = SOCKS_METHOD_NO_AUTHENTICATION_REQUIRED then auth_finished env s
         else if auth_type ai = SOCKS_METHOD_USERNAME_PASSWORD then
           let ulen = length (auth_username ai); plen = length (auth_password ai) in
           if ulen = 0 \<or> ulen > 255 \<or> plen = 0 \<or> plen > 255 then report_error s EVENT_ERROR
           else
             let size' = bsize_fromsize (1 + 1 + ulen + 1 + plen) in
             (case reserve_buffer env s size' of
                None \<Rightarrow> report_error s EVENT_ERROR
              | Some s \<Rightarrow> do {
                  s \<leftarrow> buf_write s 0 [1];
                  s \<leftarrow> buf_write s 1 [of_nat ulen];
                  s \<leftarrow> buf_write s 2 (auth_username ai);
                  s \<leftarrow> buf_write s (2 + ulen) [of_nat plen];
                  s \<leftarrow> buf_write s (3 + ulen) (auth_password ai);
                  send_buffer s (bs_value size') STATE_SENDING_PASSWORD })
         else Some (s, []) }"

definition received_reply_header :: "BSocksClient \<Rightarrow> socks_result" where
  "received_reply_header s = do {
     imsg \<leftarrow> buf_read s 0 4;
     if ntoh8 (imsg ! 0) \<noteq> SOCKS_VERSION then report_error s EVENT_ERROR
     else if ntoh8 (imsg ! 1) \<noteq> SOCKS_REP_SUCCEEDED then report_error s EVENT_ERROR
     else
       let go = (\<lambda>addr_len. do {
             (s, out) \<leftarrow> start_receive s 4 addr_len;
             Some (s\<lparr>sc_state := STATE_RECEIVED_REPLY_HEADER\<rparr>, out) })
       in if ntoh8 (imsg ! 3) = SOCKS_ATYP_IPV4 then go 6
          else if ntoh8 (imsg ! 3) = SOCKS_ATYP_IPV6 then go 18
          else report_error s EVENT_ERROR }"

definition received_password_reply :: "sc_env \<Rightarrow> BSocksClient \<Rightarrow> socks_result" where
  "received_password_reply env s = do {
     b0 \<leftarrow> buf_read s 0 1;
     if b0 \<noteq> [1] then report_error s EVENT_ERROR
     else do {
       b1 \<leftarrow> buf_read s 1 1;
       if b1 \<noteq> [0] then report_error s EVENT_ERROR
       else auth_finished env s } }"

definition received_reply_rest :: "BSocksClient \<Rightarrow> socks_result" where
  "received_reply_rest s =
     (let s = s\<lparr>sc_buffer := None\<rparr>;
          s = free_control_io s;
          s = init_up_io s
      in Some (s\<lparr>sc_state := STATE_UP\<rparr>, [CallHandler EVENT_UP]))"

text \<open>The switch on the state once a message is complete.\<close>

definition recv_switch :: "sc_env \<Rightarrow> BSocksClient \<Rightarrow> socks_result" where
  "recv_switch env s =
     (case sc_state s of
        STATE_SENT_HELLO \<Rightarrow> received_hello env s
      | STATE_SENT_REQUEST \<Rightarrow> received_reply_header s
      | STATE_SENT_PASSWORD \<Rightarrow> received_password_reply env s
      | STATE_RECEIVED_REPLY_HEADER \<Rightarrow> received_reply_rest s
      | _ \<Rightarrow> Some (s, []))"

text \<open>\<^verbatim>\<open>recv_handler_done(o, data_len)\<close>: the stream has stored \<open>d\<close> at the place requested last.\<close>

definition recv_handler_done :: "sc_env \<Rightarrow> BSocksClient \<Rightarrow> byte list \<Rightarrow> socks_result" where
  "recv_handler_done env s d = do {
     s \<leftarrow> buf_write s (sc_recv_dest s + sc_recv_len s) d;
     let s = s\<lparr>sc_recv_len := sc_recv_len s + length d\<rparr>;
     if sc_recv_len s < sc_recv_total s then do_receive s
     else recv_switch env s }"

definition reserve_and_receive ::
  "sc_env \<Rightarrow> BSocksClient \<Rightarrow> bsize \<Rightarrow> nat \<Rightarrow> socks_state \<Rightarrow> socks_result" where
  "reserve_and_receive env s size' tot st =
     (case reserve_buffer env s size' of
        None \<Rightarrow> report_error s EVENT_ERROR
      | Some s \<Rightarrow> do {
          (s, out) \<leftarrow> start_receive s 0 tot;
          Some (s\<lparr>sc_state := st\<rparr>, out) })"

definition send_handler_done :: "sc_env \<Rightarrow> BSocksClient \<Rightarrow> socks_result" where
  "send_handler_done env s =
     (case sc_state s of
        STATE_SENDING_HELLO \<Rightarrow>
          reserve_and_receive env s (bsize_fromsize 2) 2 STATE_SENT_HELLO
      | STATE_SENDING_REQUEST \<Rightarrow>
          reserve_and_receive env s
            (bsize_add (env_size_max env) (bsize_fromsize 4)
              (bsize_max (bsize_fromsize 6) (bsize_fromsize 18))) 4 STATE_SENT_REQUEST
      | STATE_SENDING_PASSWORD \<Rightarrow>
          reserve_and_receive env s (bsize_fromsize 2) 2 STATE_SENT_PASSWORD
      | _ \<Rightarrow> Some (s, []))"

definition BSocksClient_auth_none :: auth_info where
  "BSocksClient_auth_none =
     \<lparr>auth_type = SOCKS_METHOD_NO_AUTHENTICATION_REQUIRED, auth_username = [], auth_password = []\<rparr>"

definition BSocksClient_auth_password :: "byte list \<Rightarrow> byte list \<Rightarrow> auth_info" where
  "BSocksClient_auth_password u p =
     \<lparr>auth_type = SOCKS_METHOD_USERNAME_PASSWORD, auth_username = u, auth_password = p\<rparr>"

definition BSocksClient_Init :: "sc_env \<Rightarrow> auth_info list \<Rightarrow> BAddr \<Rightarrow> BSocksClient option" where
  "BSocksClient_Init env auth dest =
     (if connector_init_ok env
      then Some \<lparr>sc_auth_info = auth, sc_dest_addr = dest, sc_state = STATE_CONNECTING,
                 sc_buffer = None, sc_con = False, sc_io = IO_NONE,
                 sc_recv_dest = 0, sc_recv_len = 0, sc_recv_total = 0\<rparr>
      else None)"

text \<open>What \<open>BSocksClient_Free\<close> releases, in order.\<close>

datatype socks_free = FREE_UP_IO | FREE_CONTROL_IO | FREE_CONNECTION | FREE_CONNECTOR | FREE_BUFFER

definition BSocksClient_Free :: "BSocksClient \<Rightarrow> socks_free list" where
  "BSocksClient_Free s =
     (if sc_state s \<noteq> STATE_CONNECTING
      then (if sc_state s = STATE_UP then [FREE_UP_IO] else [FREE_CONTROL_IO]) @ [FREE_CONNECTION]
      else []) @
     [FREE_CONNECTOR] @
     (if sc_buffer s \<noteq> None then [FREE_BUFFER] else [])"

end
