(* ===== verification/Socks_Facts.thy ===== *)
theory Socks_Facts
  imports Socks_Client "HOL-Library.Code_Target_Nat"
begin

text \<open>
  Correctness of the SOCKS5 client: the messages of RFC 1928 and RFC 1929 as byte strings, the
  client as a transition system driven by its connection, the invariant that relates the object to
  the bytes exchanged so far, memory safety, conformance of every run, and completion of the
  handshake under any fragmentation of the server's replies.
\<close>

subsection \<open>Messages\<close>

definition hello_msg :: "auth_info list \<Rightarrow> byte list" where
  "hello_msg auth = [5, of_nat (length auth)] @ map (\<lambda>a. of_int (auth_type a)) auth"

definition password_msg :: "auth_info \<Rightarrow> byte list" where
  "password_msg a =
     [1, of_nat (length (auth_username a))] @ auth_username a @
     [of_nat (length (auth_password a))] @ auth_password a"

fun request_msg :: "BAddr \<Rightarrow> byte list" where
  "request_msg (BADDR_IPV4 ip port) = [5, 1, 0, 1] @ le_bytes 4 ip @ le_bytes 2 port"
| "request_msg (BADDR_IPV6 ip port) = [5, 1, 0, 4] @ ip @ le_bytes 2 port"
| "request_msg _ = []"

definition credentials_ok :: "auth_info \<Rightarrow> bool" where
  "credentials_ok a \<longleftrightarrow>
     0 < length (auth_username a) \<and> length (auth_username a) \<le> 255 \<and>
     0 < length (auth_password a) \<and> length (auth_password a) \<le> 255"

definition reply_addr_len :: "byte \<Rightarrow> nat option" where
  "reply_addr_len atyp = (if atyp = 1 then Some 6 else if atyp = 4 then Some 18 else None)"

subsection \<open>Buffer operations\<close>

lemma reserve_buffer_SomeD:
  assumes "reserve_buffer env s n = Some s'"
  obtains b where "s' = s\<lparr>sc_buffer := Some b\<rparr>" and "length b = max 1 (bs_value n)"
  using assms that
  by (auto simp: reserve_buffer_def BRealloc_def Let_def split: if_splits option.splits)

lemma buf_write_append:
  assumes "sc_buffer s = Some (p @ r)" and "k = length p" and "length bs \<le> length r"
  shows "buf_write s k bs = Some (s\<lparr>sc_buffer := Some ((p @ bs) @ drop (length bs) r)\<rparr>)"
  using assms by (simp add: buf_write_def write_at_def)

lemma buf_write_start:
  assumes "sc_buffer s = Some r" and "length bs \<le> length r"
  shows "buf_write s 0 bs = Some (s\<lparr>sc_buffer := Some (bs @ drop (length bs) r)\<rparr>)"
  using assms by (simp add: buf_write_def write_at_def)

lemma send_buffer_all:
  assumes "sc_buffer s = Some b" and "k = length b"
  shows "send_buffer s k st = Some (s\<lparr>sc_state := st\<rparr>, [SendPacket b])"
  using assms by (simp add: send_buffer_def buf_read_def read_at_def)

lemma write_methods_ok:
  assumes "sc_buffer s = Some (p @ r)" and "length p = 2 + i" and "length as \<le> length r"
  shows "write_methods s i as =
    Some (s\<lparr>sc_buffer := Some (p @ map (\<lambda>a. of_int (auth_type a)) as @ drop (length as) r)\<rparr>)"
  using assms
proof (induction s i as arbitrary: p r rule: write_methods.induct)
  case (1 s i)
  then show ?case by simp
next
  case (2 s i a as)
  let ?m = "of_int (auth_type a) :: byte"
  let ?s = "s\<lparr>sc_buffer := Some ((p @ [?m]) @ drop 1 r)\<rparr>"
  have w: "buf_write s (2 + i) [hton8 ?m] = Some ?s"
    using buf_write_append [of s p r "2 + i" "[?m]"] "2.prems" by (simp add: hton8_def)
  have "write_methods ?s (i + 1) as = Some (?s\<lparr>sc_buffer :=
      Some ((p @ [?m]) @ map (\<lambda>a. of_int (auth_type a)) as @ drop (length as) (drop 1 r))\<rparr>)"
    by (rule "2.IH" [OF w]) (use "2.prems" in simp_all)
  then show ?case
    using w by simp
qed

text \<open>C guarantees that \<^verbatim>\<open>SIZE_MAX\<close> is at least 65535.\<close>

definition c_platform :: "sc_env \<Rightarrow> bool" where
  "c_platform env \<longleftrightarrow> 65535 \<le> env_size_max env"

lemma hello_size:
  assumes "0 < n" "n \<le> 255" "c_platform env"
  shows "bsize_add (env_size_max env) (bsize_fromsize 2)
    (bsize_mul (env_size_max env) (bsize_fromsize n) (bsize_fromsize 1)) = bsize_fromsize (2 + n * 1)"
  using assms
  by (intro bsize_denotesD [where size_max = "env_size_max env"] bsize_denotes_add bsize_denotes_mul
      bsize_denotes_fromsize) (simp_all add: c_platform_def)

lemma request_size:
  assumes "c_platform env" and "k \<le> 255"
  shows "bsize_add (env_size_max env) (bsize_fromsize 4) (bsize_fromsize k) = bsize_fromsize (4 + k)"
  using assms
  by (intro bsize_denotesD [where size_max = "env_size_max env"] bsize_denotes_add
      bsize_denotes_fromsize) (simp_all add: c_platform_def)

subsection \<open>The client as a transition system\<close>

datatype socks_in = ConnectorDone bool | SendDone | Received "byte list" | ConnectionEvent bool

definition socks_handle :: "sc_env \<Rightarrow> BSocksClient \<Rightarrow> socks_in \<Rightarrow> socks_result" where
  "socks_handle env s i =
     (case i of
        ConnectorDone e \<Rightarrow> connector_handler env s e
      | SendDone \<Rightarrow> send_handler_done env s
      | Received d \<Rightarrow> recv_handler_done env s d
      | ConnectionEvent c \<Rightarrow> connection_handler s c)"

text \<open>The contract of the connector and of the stream interfaces: a callback comes only for an
  operation in progress, and a receive delivers between one byte and the number requested.\<close>

definition socks_sending :: "socks_state \<Rightarrow> bool" where
  "socks_sending st \<longleftrightarrow>
     st \<in> {STATE_SENDING_HELLO, STATE_SENDING_PASSWORD, STATE_SENDING_REQUEST}"

definition socks_receiving :: "socks_state \<Rightarrow> bool" where
  "socks_receiving st \<longleftrightarrow>
     st \<in> {STATE_SENT_HELLO, STATE_SENT_PASSWORD, STATE_SENT_REQUEST, STATE_RECEIVED_REPLY_HEADER}"

definition socks_ready :: "BSocksClient \<Rightarrow> socks_in \<Rightarrow> bool" where
  "socks_ready s i =
     (case i of
        ConnectorDone _ \<Rightarrow> sc_state s = STATE_CONNECTING
      | SendDone \<Rightarrow> socks_sending (sc_state s)
      | Received d \<Rightarrow> socks_receiving (sc_state s) \<and> d \<noteq> [] \<and>
          length d \<le> sc_recv_total s - sc_recv_len s
      | ConnectionEvent _ \<Rightarrow> sc_state s \<noteq> STATE_CONNECTING)"

fun sent_of :: "socks_out list \<Rightarrow> byte list list" where
  "sent_of [] = []"
| "sent_of (SendPacket b # xs) = b # sent_of xs"
| "sent_of (_ # xs) = sent_of xs"

fun received_of :: "socks_in \<Rightarrow> byte list" where
  "received_of (Received d) = d"
| "received_of _ = []"

definition error_free :: "socks_out list \<Rightarrow> bool" where
  "error_free out \<longleftrightarrow> CallHandler EVENT_ERROR \<notin> set out \<and> CallHandler EVENT_ERROR_CLOSED \<notin> set out"

text \<open>\<open>socks_reach auth dest s snt rcv out\<close>: an object created by \<^const>\<open>BSocksClient_Init\<close> is now \<open>s\<close>,
  has sent the packets \<open>snt\<close>, was delivered the bytes \<open>rcv\<close>, and its last step had the effects
  \<open>out\<close>. The user frees the object when it reports an error, so no step follows one. Allocations may
  fail or succeed at any step.\<close>

inductive socks_reach ::
  "auth_info list \<Rightarrow> BAddr \<Rightarrow> BSocksClient \<Rightarrow> byte list list \<Rightarrow> byte list \<Rightarrow> socks_out list \<Rightarrow> bool"
  for auth dest where
  init: "BSocksClient_Init env auth dest = Some s \<Longrightarrow> socks_reach auth dest s [] [] []"
| step: "socks_reach auth dest s snt rcv out0 \<Longrightarrow> error_free out0 \<Longrightarrow> socks_ready s i \<Longrightarrow>
    c_platform env \<Longrightarrow>
    socks_handle env s i = Some (s', out) \<Longrightarrow>
    socks_reach auth dest s' (snt @ sent_of out) (rcv @ received_of i) out"

subsection \<open>The invariant\<close>

text \<open>The packets sent and the bytes received once the authentication is complete.\<close>

definition auth_done :: "auth_info list \<Rightarrow> byte list list \<Rightarrow> byte list \<Rightarrow> bool" where
  "auth_done auth snt rcv \<longleftrightarrow>
     snt = [hello_msg auth] \<and> rcv = [5, 0] \<and> find_auth auth 0 \<noteq> None \<or>
     (\<exists>a. find_auth auth 2 = Some a \<and> credentials_ok a \<and>
          snt = [hello_msg auth, password_msg a] \<and> rcv = [5, 2, 1, 0])"

definition socks_state_inv ::
  "auth_info list \<Rightarrow> BAddr \<Rightarrow> BSocksClient \<Rightarrow> byte list list \<Rightarrow> byte list \<Rightarrow> bool" where
  "socks_state_inv auth dest s snt rcv =
     (case sc_state s of
        STATE_CONNECTING \<Rightarrow> snt = [] \<and> rcv = [] \<and> sc_buffer s = None
      | STATE_SENDING_HELLO \<Rightarrow> snt = [hello_msg auth] \<and> rcv = [] \<and> sc_buffer s = Some (hello_msg auth)
      | STATE_SENT_HELLO \<Rightarrow> snt = [hello_msg auth] \<and>
          (\<exists>r. sc_buffer s = Some (rcv @ r) \<and> sc_recv_len s = length rcv \<and> length (rcv @ r) = 2) \<and>
          sc_recv_dest s = 0 \<and> sc_recv_total s = 2 \<and> sc_recv_len s < 2
      | STATE_SENDING_PASSWORD \<Rightarrow> (\<exists>a. find_auth auth 2 = Some a \<and> credentials_ok a \<and>
          snt = [hello_msg auth, password_msg a] \<and> sc_buffer s = Some (password_msg a)) \<and> rcv = [5, 2]
      | STATE_SENT_PASSWORD \<Rightarrow> (\<exists>a. find_auth auth 2 = Some a \<and> credentials_ok a \<and>
          snt = [hello_msg auth, password_msg a]) \<and>
          (\<exists>q r. rcv = [5, 2] @ q \<and> sc_buffer s = Some (q @ r) \<and> sc_recv_len s = length q \<and>
            length (q @ r) = 2) \<and>
          sc_recv_dest s = 0 \<and> sc_recv_total s = 2 \<and> sc_recv_len s < 2
      | STATE_SENDING_REQUEST \<Rightarrow> (\<exists>snt0. auth_done auth snt0 rcv \<and> snt = snt0 @ [request_msg dest]) \<and>
          sc_buffer s = Some (request_msg dest)
      | STATE_SENT_REQUEST \<Rightarrow> (\<exists>snt0 rcv0 q r. auth_done auth snt0 rcv0 \<and>
          snt = snt0 @ [request_msg dest] \<and> rcv = rcv0 @ q \<and>
          sc_buffer s = Some (q @ r) \<and> sc_recv_len s = length q \<and> length (q @ r) = 22) \<and>
          sc_recv_dest s = 0 \<and> sc_recv_total s = 4 \<and> sc_recv_len s < 4
      | STATE_RECEIVED_REPLY_HEADER \<Rightarrow> (\<exists>snt0 rcv0 x atyp q r. auth_done auth snt0 rcv0 \<and>
          snt = snt0 @ [request_msg dest] \<and> rcv = rcv0 @ [5, 0, x, atyp] @ q \<and>
          sc_buffer s = Some ([5, 0, x, atyp] @ q @ r) \<and> sc_recv_len s = length q \<and>
          length (q @ r) = 18 \<and> reply_addr_len atyp = Some (sc_recv_total s)) \<and>
          sc_recv_dest s = 4 \<and> sc_recv_len s < sc_recv_total s
      | STATE_UP \<Rightarrow> (\<exists>snt0 rcv0 x atyp q. auth_done auth snt0 rcv0 \<and>
          snt = snt0 @ [request_msg dest] \<and> rcv = rcv0 @ [5, 0, x, atyp] @ q \<and>
          reply_addr_len atyp = Some (length q)) \<and> sc_buffer s = None)"

text \<open>The resources the object holds agree with its state, also after an error.\<close>

definition socks_res_inv :: "auth_info list \<Rightarrow> BAddr \<Rightarrow> BSocksClient \<Rightarrow> bool" where
  "socks_res_inv auth dest s \<longleftrightarrow>
     sc_auth_info s = auth \<and> sc_dest_addr s = dest \<and>
     sc_con s = (sc_state s \<noteq> STATE_CONNECTING) \<and>
     sc_io s = (if sc_state s = STATE_CONNECTING then IO_NONE
                else if sc_state s = STATE_UP then IO_UP else IO_CONTROL)"

text \<open>The outcome of a step: no fault, and either an error is reported and nothing is sent, or the
  invariant holds for what was sent and received.\<close>

definition socks_ok ::
  "auth_info list \<Rightarrow> BAddr \<Rightarrow> byte list list \<Rightarrow> byte list \<Rightarrow> socks_result \<Rightarrow> bool" where
  "socks_ok auth dest snt rcv res =
     (case res of None \<Rightarrow> False
      | Some (s, out) \<Rightarrow> socks_res_inv auth dest s \<and>
          (error_free out \<and> socks_state_inv auth dest s (snt @ sent_of out) rcv \<or>
           \<not> error_free out \<and> sent_of out = []))"

lemma report_error_ok:
  assumes "socks_res_inv auth dest s"
  shows "e \<noteq> EVENT_UP \<Longrightarrow> socks_ok auth dest snt rcv (report_error s e)"
  using assms by (cases e) (auto simp: socks_ok_def report_error_def error_free_def)

lemma connector_handler_sends:
  assumes auth: "sc_auth_info s = auth" and "c_platform env" and "con_init_ok env"
    and n: "0 < length auth" "length auth \<le> 255"
    and r: "reserve_buffer env (init_control_io (s\<lparr>sc_con := True\<rparr>))
      (bsize_fromsize (2 + length auth)) \<noteq> None"
  shows "connector_handler env s False =
    Some (s\<lparr>sc_con := True, sc_io := IO_CONTROL, sc_buffer := Some (hello_msg auth),
            sc_state := STATE_SENDING_HELLO\<rparr>, [SendPacket (hello_msg auth)])"
proof -
  let ?s = "init_control_io (s\<lparr>sc_con := True\<rparr>)" and ?n = "length auth"
  obtain s1 where r: "reserve_buffer env ?s (bsize_fromsize (2 + ?n)) = Some s1" using r by auto
  then obtain b where s1: "s1 = ?s\<lparr>sc_buffer := Some b\<rparr>" and len: "length b = 2 + ?n"
    by (rule reserve_buffer_SomeD) simp
  let ?h = "[hton8 SOCKS_VERSION, hton8 (of_nat ?n)]"
  let ?s2 = "s1\<lparr>sc_buffer := Some (?h @ drop 2 b)\<rparr>"
  let ?s3 = "?s2\<lparr>sc_buffer := Some (hello_msg auth)\<rparr>"
  have w: "buf_write s1 0 ?h = Some ?s2"
    using buf_write_start [of s1 b ?h] s1 len by (simp add: numeral_2_eq_2)
  have m: "write_methods ?s2 0 auth = Some ?s3"
    using write_methods_ok [of ?s2 ?h "drop 2 b" 0 auth] len
    by (simp add: hello_msg_def hton8_def SOCKS_VERSION_def)
  have "connector_handler env s False = send_buffer ?s3 (2 + ?n) STATE_SENDING_HELLO"
    using assms r w m s1 hello_size [of ?n env]
    by (simp add: connector_handler_def Let_def init_control_io_def)
  then show ?thesis
    using s1 by (simp add: send_buffer_all hello_msg_def init_control_io_def)
qed

lemma connector_handler_ok:
  assumes inv: "socks_res_inv auth dest s" "sc_state s = STATE_CONNECTING" and env: "c_platform env"
  shows "socks_ok auth dest [] [] (connector_handler env s e)"
proof -
  let ?s = "init_control_io (s\<lparr>sc_con := True\<rparr>)" and ?n = "length auth"
  have fail: "socks_ok auth dest [] []
      (report_error ((free_control_io ?s)\<lparr>sc_con := False\<rparr>) EVENT_ERROR)"
    by (rule report_error_ok)
      (use inv in \<open>simp_all add: socks_res_inv_def free_control_io_def init_control_io_def\<close>)
  have auth: "sc_auth_info s = auth"
    using inv by (simp add: socks_res_inv_def)
  consider "e \<or> \<not> con_init_ok env" | "\<not> e" "con_init_ok env" "?n = 0 \<or> ?n > 255"
    | "\<not> e" "con_init_ok env" "0 < ?n" "?n \<le> 255" "reserve_buffer env ?s (bsize_fromsize (2 + ?n)) = None"
    | "\<not> e" "con_init_ok env" "0 < ?n" "?n \<le> 255" "reserve_buffer env ?s (bsize_fromsize (2 + ?n)) \<noteq> None"
    by linarith
  then show ?thesis
  proof cases
    case 1
    then show ?thesis using report_error_ok [OF inv(1)] by (auto simp: connector_handler_def)
  next
    case 2
    then show ?thesis
      using fail auth by (auto simp: connector_handler_def Let_def init_control_io_def)
  next
    case 3
    then show ?thesis
      using fail auth hello_size [of ?n env] env
      by (auto simp: connector_handler_def Let_def init_control_io_def)
  next
    case 4
    then show ?thesis
      using connector_handler_sends [OF auth env] inv
      by (simp add: socks_ok_def socks_res_inv_def error_free_def socks_state_inv_def)
  qed
qed

lemma length_request_msg:
  "is_ip_addr dest \<Longrightarrow> length (request_msg dest) = (case dest of BADDR_IPV4 _ _ \<Rightarrow> 10 | _ \<Rightarrow> 22)"
  by (cases dest) (simp_all add: length_le_bytes)

lemma auth_finished_sends:
  assumes d: "sc_dest_addr s = dest" and dest: "is_ip_addr dest" and env: "c_platform env"
  shows "auth_finished env s =
    (if reserve_buffer env s (bsize_fromsize (length (request_msg dest))) = None
     then report_error s EVENT_ERROR
     else Some (s\<lparr>sc_buffer := Some (request_msg dest), sc_state := STATE_SENDING_REQUEST\<rparr>,
            [SendPacket (request_msg dest)]))"
proof -
  define k :: nat where "k = (case dest of BADDR_IPV4 _ _ \<Rightarrow> 6 | _ \<Rightarrow> 18)"
  have k: "bsize_add (env_size_max env) (bsize_fromsize 4) (bsize_fromsize k) = bsize_fromsize (4 + k)"
    using dest by (intro request_size env) (simp add: k_def split: BAddr.splits)
  have lk: "length (request_msg dest) = 4 + k"
    using dest by (cases dest) (simp_all add: length_request_msg k_def)
  show ?thesis
  proof (cases "reserve_buffer env s (bsize_fromsize (4 + k))")
    case None
    then show ?thesis
      using dest k d lk by (cases dest) (simp_all add: auth_finished_def k_def)
  next
    case (Some s1)
    then obtain b where s1: "s1 = s\<lparr>sc_buffer := Some b\<rparr>" and b: "length b = 4 + k"
      by (rule reserve_buffer_SomeD) simp
    let ?s2 = "s\<lparr>sc_buffer := Some (request_msg dest)\<rparr>"
    have "auth_finished env s = send_buffer ?s2 (4 + k) STATE_SENDING_REQUEST"
      using dest Some k d s1 b
      by (cases dest) (simp_all add: auth_finished_def k_def buf_write_def write_at_def
          length_le_bytes hton8_def socks_consts)
    then show ?thesis
      using Some lk by (simp add: send_buffer_all)
  qed
qed

lemma auth_finished_ok:
  assumes inv: "socks_res_inv auth dest s" and st: "socks_receiving (sc_state s)"
    and dest: "is_ip_addr dest" and auth: "auth_done auth snt rcv" and env: "c_platform env"
  shows "socks_ok auth dest snt rcv (auth_finished env s)"
proof -
  have d: "sc_dest_addr s = dest" using inv by (simp add: socks_res_inv_def)
  show ?thesis
    using report_error_ok [OF inv] inv st auth
    by (auto simp: auth_finished_sends [OF d dest env] socks_ok_def socks_receiving_def
        socks_res_inv_def error_free_def socks_state_inv_def)
qed

lemma find_auth_type: "find_auth as m = Some a \<Longrightarrow> auth_type a = int (unat m)"
  by (induction as m rule: find_auth.induct) (auto simp: ntoh8_def split: if_splits)

lemma find_auth_mem: "find_auth as m = Some a \<Longrightarrow> a \<in> set as"
  by (induction as m rule: find_auth.induct) (auto split: if_splits)

text \<open>The methods a user may configure: the precondition \<^const>\<open>BSocksClient_Init\<close> asserts.\<close>

definition auth_methods_ok :: "auth_info list \<Rightarrow> bool" where
  "auth_methods_ok auth \<longleftrightarrow> (\<forall>a\<in>set auth. auth_type a = 0 \<or> auth_type a = 2)"

lemma write_password_ok:
  assumes "sc_buffer s = Some b" and "length b = 3 + length (auth_username a) + length (auth_password a)"
  shows "do {
      s \<leftarrow> buf_write s 0 [1];
      s \<leftarrow> buf_write s 1 [of_nat (length (auth_username a))];
      s \<leftarrow> buf_write s 2 (auth_username a);
      s \<leftarrow> buf_write s (2 + length (auth_username a)) [of_nat (length (auth_password a))];
      s \<leftarrow> buf_write s (3 + length (auth_username a)) (auth_password a);
      f s } = f (s\<lparr>sc_buffer := Some (password_msg a)\<rparr>)"
proof -
  let ?u = "auth_username a" and ?p = "auth_password a"
  define r where "r = drop 1 b"
  have s1: "buf_write s 0 [1] = Some (s\<lparr>sc_buffer := Some ([1] @ r)\<rparr>)"
    using buf_write_start [of s b "[1]"] assms by (simp add: r_def)
  have s2: "buf_write (s\<lparr>sc_buffer := Some ([1] @ r)\<rparr>) 1 [of_nat (length ?u)] =
      Some (s\<lparr>sc_buffer := Some (([1] @ [of_nat (length ?u)]) @ drop 1 r)\<rparr>)"
    using buf_write_append [of "s\<lparr>sc_buffer := Some ([1] @ r)\<rparr>" "[1]" r 1 "[of_nat (length ?u)]"] assms
    by (simp add: r_def)
  let ?q = "[1] @ [of_nat (length ?u)] :: byte list"
  have s3: "buf_write (s\<lparr>sc_buffer := Some (?q @ drop 1 r)\<rparr>) 2 ?u =
      Some (s\<lparr>sc_buffer := Some ((?q @ ?u) @ drop (length ?u) (drop 1 r))\<rparr>)"
    using buf_write_append [of "s\<lparr>sc_buffer := Some (?q @ drop 1 r)\<rparr>" ?q "drop 1 r" 2 ?u] assms
    by (simp add: r_def)
  let ?r3 = "drop (length ?u) (drop 1 r)"
  have s4: "buf_write (s\<lparr>sc_buffer := Some ((?q @ ?u) @ ?r3)\<rparr>) (2 + length ?u) [of_nat (length ?p)] =
      Some (s\<lparr>sc_buffer := Some (((?q @ ?u) @ [of_nat (length ?p)]) @ drop 1 ?r3)\<rparr>)"
    using buf_write_append [of "s\<lparr>sc_buffer := Some ((?q @ ?u) @ ?r3)\<rparr>" "?q @ ?u" ?r3 "2 + length ?u"
        "[of_nat (length ?p)]"] assms by (simp add: r_def)
  let ?q4 = "(?q @ ?u) @ [of_nat (length ?p)]"
  have s5: "buf_write (s\<lparr>sc_buffer := Some (?q4 @ drop 1 ?r3)\<rparr>) (3 + length ?u) ?p =
      Some (s\<lparr>sc_buffer := Some ((?q4 @ ?p) @ drop (length ?p) (drop 1 ?r3))\<rparr>)"
    using buf_write_append [of "s\<lparr>sc_buffer := Some (?q4 @ drop 1 ?r3)\<rparr>" ?q4 "drop 1 ?r3" "3 + length ?u" ?p]
      assms by (simp add: r_def)
  have "drop (length ?p) (drop 1 ?r3) = []"
    using assms by (simp add: r_def)
  then show ?thesis
    unfolding s1 s2 s3 s4 s5 bind.bind_lunit using s5 by (simp add: password_msg_def)
qed

definition password_size :: "auth_info \<Rightarrow> nat" where
  "password_size a = 1 + 1 + length (auth_username a) + 1 + length (auth_password a)"

lemma received_hello_password_sends:
  assumes ai: "sc_auth_info s = auth"
    and rd: "buf_read s 0 2 = Some [5, 2]" and a: "find_auth auth 2 = Some a"
  shows "received_hello env s =
    (if credentials_ok a \<and> reserve_buffer env s (bsize_fromsize (password_size a)) \<noteq> None
     then Some (s\<lparr>sc_buffer := Some (password_msg a), sc_state := STATE_SENDING_PASSWORD\<rparr>,
            [SendPacket (password_msg a)])
     else report_error s EVENT_ERROR)"
proof -
  have ty: "auth_type a = 2" using find_auth_type [OF a] by simp
  note unf = received_hello_def rd ai ntoh8_def socks_consts
  show ?thesis
  proof (cases "credentials_ok a \<and> reserve_buffer env s (bsize_fromsize (password_size a)) \<noteq> None")
    case False
    then show ?thesis
      using a ty by (auto simp: unf credentials_ok_def not_le password_size_def Let_def)
  next
    case True
    then obtain s1 where s1: "reserve_buffer env s (bsize_fromsize (password_size a)) = Some s1" by auto
    then obtain b where b: "s1 = s\<lparr>sc_buffer := Some b\<rparr>"
      "length b = 3 + length (auth_username a) + length (auth_password a)"
      by (rule reserve_buffer_SomeD) (simp add: password_size_def)
    let ?s2 = "s\<lparr>sc_buffer := Some (password_msg a)\<rparr>"
    have "received_hello env s = send_buffer ?s2 (password_size a) STATE_SENDING_PASSWORD"
      using a ty True s1 write_password_ok [of s1 b a] b
      by (simp add: unf credentials_ok_def Let_def password_size_def)
    then show ?thesis
      using True by (simp add: send_buffer_all password_size_def password_msg_def)
  qed
qed

lemma received_hello_password:
  assumes inv: "socks_res_inv auth dest s" and st: "sc_state s = STATE_SENT_HELLO"
    and rd: "buf_read s 0 2 = Some [5, 2]" and a: "find_auth auth 2 = Some a"
  shows "socks_ok auth dest [hello_msg auth] [5, 2] (received_hello env s)"
proof -
  have ai: "sc_auth_info s = auth" using inv by (simp add: socks_res_inv_def)
  show ?thesis
    using report_error_ok [OF inv] inv st a
    by (auto simp: received_hello_password_sends [OF ai rd a] socks_ok_def socks_res_inv_def
        error_free_def socks_state_inv_def)
qed

lemma received_hello_ok:
  assumes inv: "socks_res_inv auth dest s" and st: "sc_state s = STATE_SENT_HELLO"
    and buf: "sc_buffer s = Some rcv" and len: "length rcv = 2"
    and dest: "is_ip_addr dest" and env: "c_platform env" and ms: "auth_methods_ok auth"
  shows "socks_ok auth dest [hello_msg auth] rcv (received_hello env s)"
proof -
  obtain v m where r: "rcv = [v, m]" using len list_of_length_2 by blast
  have ai: "sc_auth_info s = auth" using inv by (simp add: socks_res_inv_def)
  note err = report_error_ok [OF inv, of EVENT_ERROR "[hello_msg auth]" rcv, simplified]
  have rd: "buf_read s 0 2 = Some [v, m]"
    using buf r by (simp add: buf_read_def read_at_def)
  note unf = received_hello_def rd ai ntoh8_def socks_consts
  show ?thesis
  proof (cases "v = 5 \<and> find_auth auth m \<noteq> None")
    case False
    then show ?thesis using err by (auto simp: unf)
  next
    case True
    then obtain a where v: "v = 5" and a: "find_auth auth m = Some a" by auto
    have ty: "auth_type a = int (unat m)" by (rule find_auth_type [OF a])
    consider "auth_type a = 0" | "auth_type a = 2"
      using find_auth_mem [OF a] ms by (auto simp: auth_methods_ok_def)
    then show ?thesis
    proof cases
      case 1
      then have m: "m = 0" using ty by (simp add: unsigned_eq_0_iff)
      have "received_hello env s = auth_finished env s"
        using v a 1 by (simp add: unf)
      then show ?thesis
        using auth_finished_ok [OF inv _ dest _ env, of "[hello_msg auth]" rcv] st r v m a
        by (auto simp: socks_receiving_def auth_done_def)
    next
      case 2
      then have "int (unat m) = int 2" using ty by (simp only:)
      then have "m = 2" by (simp only: word_unat_eq_iff of_nat_eq_iff) simp
      then show ?thesis
        using received_hello_password [OF inv st _, of a env] rd a v r by simp
    qed
  qed
qed

lemma received_password_ok:
  assumes inv: "socks_res_inv auth dest s" and st: "sc_state s = STATE_SENT_PASSWORD"
    and buf: "sc_buffer s = Some q" and len: "length q = 2"
    and dest: "is_ip_addr dest" and env: "c_platform env"
    and a: "find_auth auth 2 = Some a" "credentials_ok a"
  shows "socks_ok auth dest [hello_msg auth, password_msg a] ([5, 2] @ q) (received_password_reply env s)"
proof -
  obtain v m where r: "q = [v, m]" using len list_of_length_2 by blast
  have rd: "buf_read s 0 (Suc 0) = Some [v]" "buf_read s (Suc 0) (Suc 0) = Some [m]"
    using buf r by (simp_all add: buf_read_def read_at_def)
  show ?thesis
  proof (cases "v = 1 \<and> m = 0")
    case True
    then have "received_password_reply env s = auth_finished env s"
      using rd by (simp add: received_password_reply_def)
    then show ?thesis
      using auth_finished_ok [OF inv _ dest _ env, of "[hello_msg auth, password_msg a]" "[5, 2] @ q"]
        st r True a by (auto simp: socks_receiving_def auth_done_def)
  next
    case False
    then show ?thesis
      using report_error_ok [OF inv] rd by (auto simp: received_password_reply_def)
  qed
qed

lemma received_reply_header_ok:
  assumes inv: "socks_res_inv auth dest s" and st: "sc_state s = STATE_SENT_REQUEST"
    and buf: "sc_buffer s = Some (q @ r)" and len: "length q = 4" "length r = 18"
    and auth: "auth_done auth snt rcv"
  shows "socks_ok auth dest (snt @ [request_msg dest]) (rcv @ q) (received_reply_header s)"
proof -
  obtain v p x atyp where q: "q = [v, p, x, atyp]" using len list_of_length_4 by blast
  have rd: "buf_read s 0 4 = Some [v, p, x, atyp]"
    using buf q len by (simp add: buf_read_def read_at_def)
  show ?thesis
  proof (cases "v = 5 \<and> p = 0 \<and> reply_addr_len atyp \<noteq> None")
    case True
    then obtain k where k: "reply_addr_len atyp = Some k" by auto
    let ?s = "s\<lparr>sc_recv_dest := 4, sc_recv_len := 0, sc_recv_total := k,
      sc_state := STATE_RECEIVED_REPLY_HEADER\<rparr>"
    have "received_reply_header s = Some (?s, [StreamRecv 4 k])"
      using rd True k by (auto simp: received_reply_header_def ntoh8_def socks_consts reply_addr_len_def
          start_receive_def do_receive_def split: if_splits)
    moreover have "socks_state_inv auth dest ?s (snt @ [request_msg dest]) (rcv @ q)"
      using auth buf q len True k
      by (auto simp: socks_state_inv_def reply_addr_len_def split: if_splits)
    ultimately show ?thesis
      using inv st by (simp add: socks_ok_def socks_res_inv_def error_free_def)
  next
    case False
    then show ?thesis
      using report_error_ok [OF inv] rd
      by (auto simp: received_reply_header_def ntoh8_def socks_consts reply_addr_len_def split: if_splits)
  qed
qed

lemma received_reply_rest_ok:
  assumes inv: "socks_res_inv auth dest s" and st: "sc_state s = STATE_RECEIVED_REPLY_HEADER"
    and auth: "auth_done auth snt rcv" and "reply_addr_len atyp = Some (length q)"
  shows "socks_ok auth dest (snt @ [request_msg dest]) (rcv @ [5, 0, x, atyp] @ q) (received_reply_rest s)"
  using assms
  by (auto simp: received_reply_rest_def socks_ok_def socks_res_inv_def error_free_def init_up_io_def
      free_control_io_def socks_state_inv_def)

text \<open>A receive that does not complete the message only asks for the rest.\<close>

lemma recv_partial:
  assumes "sc_buffer s = Some b" and "sc_recv_dest s + sc_recv_total s \<le> length b"
    and "sc_recv_len s + length d < sc_recv_total s"
  shows "recv_handler_done env s d =
    Some (s\<lparr>sc_buffer := Some (take (sc_recv_dest s + sc_recv_len s) b @ d @
              drop (sc_recv_dest s + sc_recv_len s + length d) b),
            sc_recv_len := sc_recv_len s + length d\<rparr>,
          [StreamRecv (sc_recv_dest s + (sc_recv_len s + length d))
             (sc_recv_total s - (sc_recv_len s + length d))])"
  using assms by (simp add: recv_handler_done_def buf_write_def write_at_def do_receive_def)

lemma recv_complete:
  assumes "sc_buffer s = Some b" and "sc_recv_dest s + sc_recv_total s \<le> length b"
    and "sc_recv_len s + length d = sc_recv_total s"
  shows "recv_handler_done env s d =
    recv_switch env (s\<lparr>sc_buffer := Some (take (sc_recv_dest s + sc_recv_len s) b @ d @
                 drop (sc_recv_dest s + sc_recv_len s + length d) b),
               sc_recv_len := sc_recv_total s\<rparr>)"
  using assms by (simp add: recv_handler_done_def buf_write_def write_at_def)

lemma socks_res_inv_update [simp]:
  "socks_res_inv auth dest (s\<lparr>sc_buffer := b\<rparr>) = socks_res_inv auth dest s"
  "socks_res_inv auth dest (s\<lparr>sc_recv_len := k\<rparr>) = socks_res_inv auth dest s"
  by (simp_all add: socks_res_inv_def)

lemma recv_hello_step:
  assumes inv: "socks_res_inv auth dest s" "socks_state_inv auth dest s snt rcv"
    and st: "sc_state s = STATE_SENT_HELLO" and d: "length d \<le> sc_recv_total s - sc_recv_len s"
    and pre: "is_ip_addr dest" "c_platform env" "auth_methods_ok auth"
  shows "socks_ok auth dest snt (rcv @ d) (recv_handler_done env s d)"
proof -
  obtain r where buf: "sc_buffer s = Some (rcv @ r)" and len: "sc_recv_len s = length rcv"
    "length rcv + length r = 2" and ctl: "sc_recv_dest s = 0" "sc_recv_total s = 2" "length rcv < 2"
    and snt: "snt = [hello_msg auth]"
    using inv(2) st by (auto simp: socks_state_inv_def)
  show ?thesis
  proof (cases "length rcv + length d < 2")
    case True
    then show ?thesis
      using recv_partial [OF buf, of d env] inv(1) st len ctl snt
      by (simp add: socks_ok_def error_free_def socks_state_inv_def)
  next
    case False
    then have "length rcv + length d = 2" using d len ctl by simp
    then show ?thesis
      using recv_complete [OF buf, of d env] inv(1) st len ctl snt pre
      by (simp add: recv_switch_def received_hello_ok)
  qed
qed

lemma recv_password_step:
  assumes inv: "socks_res_inv auth dest s" "socks_state_inv auth dest s snt rcv"
    and st: "sc_state s = STATE_SENT_PASSWORD" and d: "length d \<le> sc_recv_total s - sc_recv_len s"
    and pre: "is_ip_addr dest" "c_platform env"
  shows "socks_ok auth dest snt (rcv @ d) (recv_handler_done env s d)"
proof -
  obtain a q r where buf: "sc_buffer s = Some (q @ r)" and rcv: "rcv = [5, 2] @ q"
    and len: "sc_recv_len s = length q" "length q + length r = 2"
    and ctl: "sc_recv_dest s = 0" "sc_recv_total s = 2" "length q < 2"
    and a: "find_auth auth 2 = Some a" "credentials_ok a" and snt: "snt = [hello_msg auth, password_msg a]"
    using inv(2) st by (auto simp: socks_state_inv_def)
  show ?thesis
  proof (cases "length q + length d < 2")
    case True
    then show ?thesis
      using recv_partial [OF buf, of d env] inv(1) st len ctl snt a rcv
      by (simp add: socks_ok_def error_free_def socks_state_inv_def)
  next
    case False
    then have l: "length (q @ d) = 2" using d len ctl by simp
    show ?thesis
      using recv_complete [OF buf, of d env] inv(1) st len ctl snt l rcv
        received_password_ok [OF _ _ _ l pre a] by (simp add: recv_switch_def)
  qed
qed

lemma recv_request_step:
  assumes inv: "socks_res_inv auth dest s" "socks_state_inv auth dest s snt rcv"
    and st: "sc_state s = STATE_SENT_REQUEST" and d: "length d \<le> sc_recv_total s - sc_recv_len s"
  shows "socks_ok auth dest snt (rcv @ d) (recv_handler_done env s d)"
proof -
  obtain snt0 rcv0 q r where buf: "sc_buffer s = Some (q @ r)" and rcv: "rcv = rcv0 @ q"
    and len: "sc_recv_len s = length q" "length q + length r = 22"
    and ctl: "sc_recv_dest s = 0" "sc_recv_total s = 4" "length q < 4"
    and a: "auth_done auth snt0 rcv0" and snt: "snt = snt0 @ [request_msg dest]"
    using inv(2) st by (auto simp: socks_state_inv_def)
  have r: "length (drop (length d) r) = 22 - (length q + length d)" using len by simp
  show ?thesis
  proof (cases "length q + length d < 4")
    case True
    have "\<exists>snt0 rcv0 q' r. auth_done auth snt0 rcv0 \<and> snt = snt0 @ [request_msg dest] \<and>
        rcv @ d = rcv0 @ q' \<and> q @ d @ drop (length d) (r0 :: byte list) = q' @ r \<and>
        length q + length d = length q' \<and> length (q' @ r) = 22"
      if "length r0 = 22 - length q" for r0
      using a snt rcv that len ctl True
      by (intro exI [of _ snt0] exI [of _ rcv0] exI [of _ "q @ d"] exI [of _ "drop (length d) r0"]) auto
    from this [of r] show ?thesis
      using recv_partial [OF buf, of d env] inv(1) st len ctl True
      by (simp add: socks_ok_def error_free_def socks_state_inv_def)
  next
    case False
    then have l: "length (q @ d) = 4" using d len ctl by simp
    have l2: "length (drop (length d) r) = 18" using l r by simp
    have dl: "4 - length q = length d" using l by simp
    show ?thesis
      using recv_complete [OF buf, of d env] inv(1) st len ctl snt l rcv
        received_reply_header_ok [OF _ _ _ l l2 a, of dest] dl by (simp add: recv_switch_def)
  qed
qed

lemma recv_reply_step:
  assumes inv: "socks_res_inv auth dest s" "socks_state_inv auth dest s snt rcv"
    and st: "sc_state s = STATE_RECEIVED_REPLY_HEADER"
    and d: "length d \<le> sc_recv_total s - sc_recv_len s"
  shows "socks_ok auth dest snt (rcv @ d) (recv_handler_done env s d)"
proof -
  obtain snt0 rcv0 x atyp q r where buf: "sc_buffer s = Some (([5, 0, x, atyp] @ q) @ r)"
    and rcv: "rcv = rcv0 @ [5, 0, x, atyp] @ q"
    and len: "sc_recv_len s = length q" "length q + length r = 18"
    and ctl: "sc_recv_dest s = 4" "reply_addr_len atyp = Some (sc_recv_total s)" "length q < sc_recv_total s"
    and a: "auth_done auth snt0 rcv0" and snt: "snt = snt0 @ [request_msg dest]"
    using inv(2) st by (auto simp: socks_state_inv_def)
  have tot: "sc_recv_total s \<le> 18" using ctl(2) by (auto simp: reply_addr_len_def split: if_splits)
  show ?thesis
  proof (cases "length q + length d < sc_recv_total s")
    case True
    let ?r = "drop (length d) r"
    let ?s = "s\<lparr>sc_buffer := Some ([5, 0, x, atyp] @ (q @ d) @ ?r), sc_recv_len := length q + length d\<rparr>"
    have "recv_handler_done env s d =
        Some (?s, [StreamRecv (4 + (length q + length d)) (sc_recv_total s - (length q + length d))])"
      using recv_partial [OF buf, of d env] True len ctl tot by (simp add: numeral_eq_Suc)
    moreover have "socks_state_inv auth dest ?s snt (rcv @ d)"
      using a snt rcv ctl len True tot st
      by (simp add: socks_state_inv_def)
        (intro exI [of _ snt0] exI [of _ rcv0] exI [of _ x] exI [of _ atyp] exI [of _ "q @ d"], simp)
    ultimately show ?thesis
      using inv(1) by (simp add: socks_ok_def error_free_def)
  next
    case False
    then have l: "length (q @ d) = sc_recv_total s" using d len ctl by simp
    show ?thesis
      using recv_complete [OF buf, of d env] inv(1) st len ctl snt l rcv tot
        received_reply_rest_ok [OF _ _ a, of dest _ atyp "q @ d" x] by (simp add: recv_switch_def)
  qed
qed

lemma send_step:
  assumes inv: "socks_res_inv auth dest s" "socks_state_inv auth dest s snt rcv"
    and st: "socks_sending (sc_state s)" and env: "c_platform env"
  shows "socks_ok auth dest snt rcv (send_handler_done env s)"
proof -
  have m: "bsize_add (env_size_max env) (bsize_fromsize 4)
      (bsize_max (bsize_fromsize 6) (bsize_fromsize 18)) = bsize_fromsize 22"
    using request_size [OF env, of 18] by (simp add: bsize_max_def bsize_fromsize_def)
  have key: "socks_ok auth dest snt rcv (reserve_and_receive env s (bsize_fromsize n) k st')"
    if "\<And>b. length b = max 1 n \<Longrightarrow> socks_state_inv auth dest (s\<lparr>sc_buffer := Some b, sc_recv_dest := 0,
      sc_recv_len := 0, sc_recv_total := k, sc_state := st'\<rparr>) snt rcv"
      and "socks_receiving st'" for n k st'
  proof (cases "reserve_buffer env s (bsize_fromsize n)")
    case None
    then show ?thesis
      using report_error_ok [OF inv(1)] by (simp add: reserve_and_receive_def)
  next
    case (Some s1)
    then obtain b where "s1 = s\<lparr>sc_buffer := Some b\<rparr>" and "length b = max 1 n"
      by (rule reserve_buffer_SomeD) simp
    then show ?thesis
      using Some that inv(1) st
      by (auto simp: reserve_and_receive_def start_receive_def do_receive_def socks_ok_def
          error_free_def socks_res_inv_def socks_receiving_def socks_sending_def)
  qed
  consider "sc_state s = STATE_SENDING_HELLO" | "sc_state s = STATE_SENDING_PASSWORD"
    | "sc_state s = STATE_SENDING_REQUEST"
    using st by (auto simp: socks_sending_def)
  then show ?thesis
  proof cases
    case 3
    then obtain snt0 where a: "auth_done auth snt0 rcv" "snt = snt0 @ [request_msg dest]"
      using inv(2) by (auto simp: socks_state_inv_def)
    have "socks_ok auth dest snt rcv (reserve_and_receive env s (bsize_fromsize 22) 4 STATE_SENT_REQUEST)"
    proof (rule key)
      fix b :: "byte list"
      assume "length b = max 1 22"
      then show "socks_state_inv auth dest (s\<lparr>sc_buffer := Some b, sc_recv_dest := 0, sc_recv_len := 0,
          sc_recv_total := 4, sc_state := STATE_SENT_REQUEST\<rparr>) snt rcv"
        using a by (simp add: socks_state_inv_def) (intro exI [of _ rcv], simp)
    qed (simp add: socks_receiving_def)
    then show ?thesis
      using 3 by (simp add: send_handler_done_def m)
  qed (use inv(2) key [of 2 _ 2] in
      \<open>auto simp: send_handler_done_def socks_receiving_def socks_state_inv_def\<close>)
qed

subsection \<open>Runs\<close>

definition socks_pre :: "auth_info list \<Rightarrow> BAddr \<Rightarrow> bool" where
  "socks_pre auth dest \<longleftrightarrow> auth_methods_ok auth \<and> is_ip_addr dest"

lemma socks_handle_ok:
  assumes inv: "socks_res_inv auth dest s" "socks_state_inv auth dest s snt rcv"
    and rdy: "socks_ready s i" and env: "c_platform env" and pre: "socks_pre auth dest"
  shows "socks_ok auth dest snt (rcv @ received_of i) (socks_handle env s i)"
proof (cases i)
  case (ConnectorDone e)
  then have "sc_state s = STATE_CONNECTING" using rdy by (simp add: socks_ready_def)
  then show ?thesis
    using connector_handler_ok [OF inv(1) _ env, of e] inv(2) ConnectorDone
    by (simp add: socks_handle_def socks_state_inv_def)
next
  case SendDone
  then show ?thesis
    using send_step [OF inv _ env] rdy by (simp add: socks_handle_def socks_ready_def)
next
  case (Received d)
  then have "socks_receiving (sc_state s)" and d: "length d \<le> sc_recv_total s - sc_recv_len s"
    using rdy by (simp_all add: socks_ready_def)
  then consider "sc_state s = STATE_SENT_HELLO" | "sc_state s = STATE_SENT_PASSWORD"
    | "sc_state s = STATE_SENT_REQUEST" | "sc_state s = STATE_RECEIVED_REPLY_HEADER"
    by (auto simp: socks_receiving_def)
  then have "socks_ok auth dest snt (rcv @ d) (recv_handler_done env s d)"
    using pre env
    by cases (auto simp: socks_pre_def intro: recv_hello_step [OF inv _ d] recv_password_step [OF inv _ d]
        recv_request_step [OF inv _ d] recv_reply_step [OF inv _ d])
  then show ?thesis using Received by (simp add: socks_handle_def)
next
  case (ConnectionEvent c)
  then show ?thesis
    using report_error_ok [OF inv(1)] by (simp add: socks_handle_def connection_handler_def)
qed

text \<open>The packets of a run are those of the protocol, in order.\<close>

definition socks_sent_ok :: "auth_info list \<Rightarrow> BAddr \<Rightarrow> byte list list \<Rightarrow> bool" where
  "socks_sent_ok auth dest snt \<longleftrightarrow>
     snt = [] \<or> snt = [hello_msg auth] \<or> snt = [hello_msg auth, request_msg dest] \<or>
     (\<exists>a. find_auth auth 2 = Some a \<and> credentials_ok a \<and>
        (snt = [hello_msg auth, password_msg a] \<or>
         snt = [hello_msg auth, password_msg a, request_msg dest]))"

lemma socks_state_inv_sent: "socks_state_inv auth dest s snt rcv \<Longrightarrow> socks_sent_ok auth dest snt"
  by (auto simp: socks_state_inv_def socks_sent_ok_def auth_done_def split: socks_state.splits)

lemma socks_reach_inv:
  assumes "socks_reach auth dest s snt rcv out" and "socks_pre auth dest"
  shows "socks_res_inv auth dest s \<and> socks_sent_ok auth dest snt \<and>
    (error_free out \<longrightarrow> socks_state_inv auth dest s snt rcv)"
  using assms
proof (induction rule: socks_reach.induct)
  case (init env s)
  then show ?case
    by (auto simp: BSocksClient_Init_def socks_res_inv_def socks_sent_ok_def socks_state_inv_def
        split: if_splits)
next
  case (step s snt rcv out0 i env s' out)
  then have inv: "socks_res_inv auth dest s" "socks_state_inv auth dest s snt rcv"
    and snt: "socks_sent_ok auth dest snt"
    by auto
  have "socks_ok auth dest snt (rcv @ received_of i) (Some (s', out))"
    using socks_handle_ok [OF inv] step by metis
  then show ?case
    using snt socks_state_inv_sent by (auto simp: socks_ok_def)
qed

text \<open>C4. Memory safety of the SOCKS client. Take a destination and authentication methods that meet
  the asserted precondition of \<^const>\<open>BSocksClient_Init\<close>. In every reachable object that has
  not reported an error, every callback the connection may make runs without reading or writing
  outside of the buffer, whatever bytes the server sent, in whatever pieces, and whether or not
  allocations succeed.\<close>

theorem socks_no_fault:
  assumes "socks_reach auth dest s snt rcv out" and "error_free out" and "socks_pre auth dest"
    and "socks_ready s i" and "c_platform env"
  shows "\<exists>s' out'. socks_handle env s i = Some (s', out')"
proof -
  have "socks_ok auth dest snt (rcv @ received_of i) (socks_handle env s i)"
    using socks_reach_inv [OF assms(1,3)] assms by (intro socks_handle_ok) auto
  then show ?thesis
    by (auto simp: socks_ok_def split: option.splits)
qed

text \<open>C5. Conformance of the SOCKS client. In every run, failed or not, the packets sent are a prefix of
  the RFC 1928/1929 exchange for the configured methods and destination: hello, the
  credentials if the server chose them, the request. When the tunnel is up the server
  has accepted: its bytes were exactly a method selection naming a configured method, a
  positive password status if that method is 2, and a reply with version 5, status 0 and an address
  of the length its type says. No byte of the tunnelled stream is consumed.\<close>

theorem socks_conformance:
  assumes "socks_reach auth dest s snt rcv out" and "socks_pre auth dest"
  shows "socks_sent_ok auth dest snt \<and>
    (error_free out \<and> sc_state s = STATE_UP \<longrightarrow>
      (\<exists>snt0 rcv0 x atyp q. auth_done auth snt0 rcv0 \<and> snt = snt0 @ [request_msg dest] \<and>
         rcv = rcv0 @ [5, 0, x, atyp] @ q \<and> reply_addr_len atyp = Some (length q)))"
  using socks_reach_inv [OF assms] by (auto simp: socks_state_inv_def)

text \<open>C6. Releasing the SOCKS client. At any point of a run, after an error too, \<^const>\<open>BSocksClient_Free\<close>
  releases each resource at most once and exactly those the object holds: the interfaces that are
  initialised, the connection, the connector and the buffer.\<close>

theorem socks_free_exact:
  assumes "socks_reach auth dest s snt rcv out" and "socks_pre auth dest"
  shows "distinct (BSocksClient_Free s) \<and>
    (FREE_UP_IO \<in> set (BSocksClient_Free s) \<longleftrightarrow> sc_io s = IO_UP) \<and>
    (FREE_CONTROL_IO \<in> set (BSocksClient_Free s) \<longleftrightarrow> sc_io s = IO_CONTROL) \<and>
    (FREE_CONNECTION \<in> set (BSocksClient_Free s) \<longleftrightarrow> sc_con s) \<and>
    FREE_CONNECTOR \<in> set (BSocksClient_Free s) \<and>
    (FREE_BUFFER \<in> set (BSocksClient_Free s) \<longleftrightarrow> sc_buffer s \<noteq> None)"
  using socks_reach_inv [OF assms] by (auto simp: BSocksClient_Free_def socks_res_inv_def)

subsection \<open>Completion of the handshake\<close>

text \<open>A run: every callback is one the connection may make.\<close>

fun socks_run :: "sc_env \<Rightarrow> BSocksClient \<Rightarrow> socks_in list \<Rightarrow> socks_result" where
  "socks_run env s [] = Some (s, [])"
| "socks_run env s (i # is) = do {
     c_assert (socks_ready s i);
     (s1, out1) \<leftarrow> socks_handle env s i;
     (s2, out2) \<leftarrow> socks_run env s1 is;
     Some (s2, out1 @ out2) }"

definition good_env :: "sc_env \<Rightarrow> bool" where
  "good_env env \<longleftrightarrow> c_platform env \<and> con_init_ok env \<and> connector_init_ok env \<and> (\<forall>n. realloc_ok env n)"

lemma good_env_reserve: "good_env env \<Longrightarrow> reserve_buffer env s (bsize_fromsize n) \<noteq> None"
  by (simp add: good_env_def reserve_buffer_def BRealloc_def Let_def)

definition socks_yields ::
  "sc_env \<Rightarrow> BSocksClient \<Rightarrow> socks_in list \<Rightarrow> BSocksClient \<Rightarrow> byte list list \<Rightarrow> bool" where
  "socks_yields env s is s' snt \<longleftrightarrow>
     (\<exists>out. socks_run env s is = Some (s', out) \<and> sent_of out = snt \<and> error_free out)"

lemma sent_of_append [simp]: "sent_of (xs @ ys) = sent_of xs @ sent_of ys"
  by (induction xs rule: sent_of.induct) simp_all

lemma error_free_append [simp]: "error_free (xs @ ys) \<longleftrightarrow> error_free xs \<and> error_free ys"
  by (auto simp: error_free_def)

lemma socks_run_append:
  "socks_run env s (is @ js) = do {
     (s1, out1) \<leftarrow> socks_run env s is;
     (s2, out2) \<leftarrow> socks_run env s1 js;
     Some (s2, out1 @ out2) }"
  by (induction env s "is" rule: socks_run.induct) (auto simp: c_assert_bind split: Option.bind_splits)

lemma yields_append:
  "socks_yields env s is s1 a \<Longrightarrow> socks_yields env s1 js s2 b \<Longrightarrow> socks_yields env s (is @ js) s2 (a @ b)"
  by (fastforce simp: socks_yields_def socks_run_append)

lemma yields_one:
  "socks_handle env s i = Some (s', out) \<Longrightarrow> socks_ready s i \<Longrightarrow> error_free out \<Longrightarrow> socks_yields env s [i] s' (sent_of out)"
  by (simp add: socks_yields_def c_assert_bind)

text \<open>The state in which the client waits for the first byte of a message.\<close>

definition awaiting :: "BSocksClient \<Rightarrow> socks_state \<Rightarrow> nat \<Rightarrow> nat \<Rightarrow> bool" where
  "awaiting s st n tot \<longleftrightarrow>
     sc_state s = st \<and> (\<exists>b. sc_buffer s = Some b \<and> length b = n) \<and> sc_recv_len s = 0 \<and>
     sc_recv_total s = tot \<and> sc_recv_dest s + tot \<le> n"

lemma recv_split:
  assumes "sc_buffer s = Some b" and "sc_recv_dest s + sc_recv_total s \<le> length b"
    and "e \<noteq> []" and "sc_recv_len s + length d + length e = sc_recv_total s"
  shows "\<exists>s1 x y. recv_handler_done env s d = Some (s1, [StreamRecv x y]) \<and>
    (\<exists>b1. sc_buffer s1 = Some b1 \<and> length b1 = length b) \<and> sc_recv_dest s1 = sc_recv_dest s \<and>
    sc_recv_total s1 = sc_recv_total s \<and> sc_recv_len s1 = sc_recv_len s + length d \<and> sc_state s1 = sc_state s \<and>
    recv_handler_done env s1 e = recv_handler_done env s (d @ e)"
proof -
  have l: "sc_recv_len s + length d < sc_recv_total s"
    using assms(3,4) by (cases e) auto
  let ?k = "sc_recv_dest s + sc_recv_len s"
  let ?b1 = "take ?k b @ d @ drop (?k + length d) b"
  let ?s1 = "s\<lparr>sc_buffer := Some ?b1, sc_recv_len := sc_recv_len s + length d\<rparr>"
  have len: "length ?b1 = length b" using assms(2,4) by simp
  have k: "?k + length d \<le> length b" "?k \<le> length b" using assms(2,4) by simp_all
  have "take (?k + length d) ?b1 @ e @ drop (?k + length d + length e) ?b1 =
      take ?k b @ (d @ e) @ drop (?k + length (d @ e)) b"
    using k by (simp add: ac_simps)
  then have "recv_handler_done env ?s1 e = recv_handler_done env s (d @ e)"
    using recv_complete [of ?s1 ?b1 e env] recv_complete [OF assms(1,2), of "d @ e" env] len assms(2,4)
    by (simp add: add.assoc)
  then show ?thesis
    using recv_partial [OF assms(1,2) l] len by (intro exI [of _ ?s1]) simp
qed

lemma yields_chunks:
  assumes "\<exists>b. sc_buffer s = Some b \<and> length b = n" and "sc_recv_dest s + sc_recv_total s \<le> n"
    and "[] \<notin> set ds" and "ds \<noteq> []" and "sc_recv_len s + length (concat ds) = sc_recv_total s"
    and "recv_handler_done env s (concat ds) = Some (s', out)" and "error_free out" and "socks_receiving (sc_state s)"
  shows "socks_yields env s (map Received ds) s' (sent_of out)"
  using assms
proof (induction ds arbitrary: s)
  case Nil
  then show ?case by simp
next
  case (Cons d ds)
  show ?case
  proof (cases "ds = []")
    case True
    then show ?thesis
      using Cons.prems by (auto intro!: yields_one simp: socks_handle_def socks_ready_def)
  next
    case False
    then have "concat ds \<noteq> []" using Cons.prems(3) by (cases ds) auto
    then obtain s1 x y where s1: "recv_handler_done env s d = Some (s1, [StreamRecv x y])"
      "\<exists>b1. sc_buffer s1 = Some b1 \<and> length b1 = n" "sc_recv_dest s1 = sc_recv_dest s"
      "sc_recv_total s1 = sc_recv_total s" "sc_recv_len s1 = sc_recv_len s + length d" "sc_state s1 = sc_state s"
      "recv_handler_done env s1 (concat ds) = recv_handler_done env s (d @ concat ds)"
      using recv_split [of s _ "concat ds" d env] Cons.prems by fastforce
    have "socks_yields env s1 (map Received ds) s' (sent_of out)"
      using Cons.prems s1 False by (intro Cons.IH) auto
    moreover have "socks_yields env s [Received d] s1 []"
      using s1(1) yields_one [of env s "Received d" s1 "[StreamRecv x y]"] Cons.prems
      by (auto simp: socks_handle_def error_free_def socks_ready_def)
    ultimately show ?thesis using yields_append by fastforce
  qed
qed

lemma yields_message:
  assumes "awaiting s st n (length msg)" and "[] \<notin> set ds" and "concat ds = msg" and "msg \<noteq> []"
    and "recv_handler_done env s msg = Some (s', out)" and "error_free out" and "socks_receiving st"
  shows "socks_yields env s (map Received ds) s' (sent_of out)"
  by (rule yields_chunks [where n = n]) (use assms in \<open>auto simp: awaiting_def\<close>)

lemma yields_send_done:
  assumes "good_env env" and "send_handler_done env s = reserve_and_receive env s (bsize_fromsize n) k st"
    and "0 < n" and "k \<le> n" and "socks_sending (sc_state s)"
  shows "\<exists>s'. socks_yields env s [SendDone] s' [] \<and> awaiting s' st n k \<and> sc_recv_dest s' = 0 \<and>
    sc_auth_info s' = sc_auth_info s \<and> sc_dest_addr s' = sc_dest_addr s"
proof -
  obtain s1 where s1: "reserve_buffer env s (bsize_fromsize n) = Some s1"
    using good_env_reserve [OF assms(1)] by auto
  then obtain b where "s1 = s\<lparr>sc_buffer := Some b\<rparr>" "length b = max 1 n"
    by (rule reserve_buffer_SomeD) simp
  then show ?thesis
    using assms s1
    by (auto simp: socks_yields_def socks_handle_def reserve_and_receive_def start_receive_def
        do_receive_def awaiting_def error_free_def socks_ready_def c_assert_bind)
qed

lemma awaiting_message:
  assumes "awaiting s st n (length msg)" and "msg \<noteq> []" and "sc_recv_dest s = 0"
  obtains r where "recv_handler_done env s msg =
      recv_switch env (s\<lparr>sc_buffer := Some (msg @ r), sc_recv_len := length msg\<rparr>)"
    and "length r = n - length msg"
proof -
  obtain b where b: "sc_buffer s = Some b" "length b = n" "length msg \<le> n"
    using assms by (auto simp: awaiting_def)
  show ?thesis
  proof (rule that [of "drop (length msg) b"])
    show "recv_handler_done env s msg =
        recv_switch env (s\<lparr>sc_buffer := Some (msg @ drop (length msg) b), sc_recv_len := length msg\<rparr>)"
      using recv_complete [OF b(1), of msg env] assms b by (simp add: awaiting_def)
  qed (use b in simp)
qed

lemma yields_request:
  assumes env: "good_env env" and dest: "is_ip_addr (sc_dest_addr s)"
    and st: "sc_state s = STATE_SENDING_REQUEST"
    and rs: "concat rs = [5, 0, x, atyp]" "[] \<notin> set rs"
    and as: "concat as = q" "[] \<notin> set as" and q: "reply_addr_len atyp = Some (length q)"
  shows "\<exists>s'. socks_yields env s ([SendDone] @ map Received rs @ map Received as) s' [] \<and>
    sc_state s' = STATE_UP"
proof -
  have m: "bsize_add (env_size_max env) (bsize_fromsize 4)
      (bsize_max (bsize_fromsize 6) (bsize_fromsize 18)) = bsize_fromsize 22"
    using request_size [of env 18] env by (simp add: bsize_max_def bsize_fromsize_def good_env_def)
  obtain s1 where y1: "socks_yields env s [SendDone] s1 []"
    and a1: "awaiting s1 STATE_SENT_REQUEST 22 4" "sc_recv_dest s1 = 0"
    using yields_send_done [OF env, of s 22 4 STATE_SENT_REQUEST] st
    by (auto simp: send_handler_done_def m socks_sending_def)
  have s1: "awaiting s1 STATE_SENT_REQUEST 22 (length [5, 0, x, atyp])" "sc_recv_dest s1 = 0"
    using a1 by (simp_all add: awaiting_def)
  obtain r where r: "recv_handler_done env s1 [5, 0, x, atyp] =
      recv_switch env (s1\<lparr>sc_buffer := Some ([5, 0, x, atyp] @ r), sc_recv_len := length [5, 0, x, atyp]\<rparr>)"
    and lr: "length r = 22 - length [5, 0, x, atyp]"
    by (rule awaiting_message [OF s1(1) _ s1(2), of env]) simp
  have st1: "sc_state s1 = STATE_SENT_REQUEST" using s1(1) by (simp add: awaiting_def)
  let ?s2 = "s1\<lparr>sc_buffer := Some ([5, 0, x, atyp] @ r), sc_recv_dest := 4, sc_recv_len := 0,
    sc_recv_total := length q, sc_state := STATE_RECEIVED_REPLY_HEADER\<rparr>"
  have "recv_handler_done env s1 [5, 0, x, atyp] = Some (?s2, [StreamRecv 4 (length q)])"
    unfolding r using q st1 by (auto simp: recv_switch_def received_reply_header_def buf_read_def read_at_def ntoh8_def
        socks_consts start_receive_def do_receive_def reply_addr_len_def split: if_splits)
  from yields_message [OF s1(1) rs(2,1) _ this] have
    y2: "socks_yields env s1 (map Received rs) ?s2 []"
    by (simp add: error_free_def socks_receiving_def)
  have q18: "length q \<le> 18" "q \<noteq> []" using q by (auto simp: reply_addr_len_def split: if_splits)
  have a2: "awaiting ?s2 STATE_RECEIVED_REPLY_HEADER 22 (length q)"
    using lr q18 by (simp add: awaiting_def)
  obtain s3 where "recv_handler_done env ?s2 q = Some (s3, [CallHandler EVENT_UP])"
    and s3: "sc_state s3 = STATE_UP"
    using recv_complete [of ?s2 "[5, 0, x, atyp] @ r" q env] lr q18
    by (simp add: received_reply_rest_def recv_switch_def)
  from yields_message [OF a2 as(2,1) q18(2) this(1)]
  have "socks_yields env ?s2 (map Received as) s3 []"
    by (simp add: error_free_def socks_receiving_def)
  from yields_append [OF y1 yields_append [OF y2 this]] s3 show ?thesis by auto
qed

lemma find_auth_cases:
  assumes "find_auth auth m = Some a" and "auth_methods_ok auth"
  shows "m = 0 \<or> m = 2"
proof -
  have "int (unat m) = int 0 \<or> int (unat m) = int 2"
    using find_auth_mem [OF assms(1)] find_auth_type [OF assms(1)] assms(2)
    by (auto simp: auth_methods_ok_def)
  then show ?thesis by (simp only: word_unat_eq_iff of_nat_eq_iff) simp
qed

lemma yields_start:
  assumes env: "good_env env" and n: "0 < length auth" "length auth \<le> 255"
    and init: "BSocksClient_Init env auth dest = Some s"
  shows "\<exists>s'. socks_yields env s ([ConnectorDone False] @ [SendDone]) s' ([hello_msg auth] @ []) \<and>
    awaiting s' STATE_SENT_HELLO 2 2 \<and> sc_recv_dest s' = 0 \<and> sc_auth_info s' = auth \<and>
    sc_dest_addr s' = dest"
proof -
  have s: "sc_auth_info s = auth" "sc_dest_addr s = dest"
    using init by (auto simp: BSocksClient_Init_def split: if_splits)
  let ?s1 = "s\<lparr>sc_con := True, sc_io := IO_CONTROL, sc_buffer := Some (hello_msg auth),
            sc_state := STATE_SENDING_HELLO\<rparr>"
  have "socks_handle env s (ConnectorDone False) = Some (?s1, [SendPacket (hello_msg auth)])"
    using connector_handler_sends [OF s(1) _ _ n] env good_env_reserve [OF env]
    by (simp add: socks_handle_def good_env_def)
  moreover have "socks_ready s (ConnectorDone False)"
    using init by (auto simp: BSocksClient_Init_def socks_ready_def split: if_splits)
  ultimately have "socks_yields env s [ConnectorDone False] ?s1 [hello_msg auth]"
    using yields_one [of env s "ConnectorDone False" ?s1 "[SendPacket (hello_msg auth)]"] by (simp add: error_free_def)
  moreover obtain s2 where "socks_yields env ?s1 [SendDone] s2 []" "awaiting s2 STATE_SENT_HELLO 2 2"
      "sc_recv_dest s2 = 0" "sc_auth_info s2 = auth" "sc_dest_addr s2 = dest"
    using yields_send_done [OF env, of ?s1 2 2 STATE_SENT_HELLO] s by (auto simp: send_handler_done_def socks_sending_def)
  ultimately show ?thesis using yields_append by blast
qed

lemma yields_two_bytes:
  assumes s: "awaiting s st 2 2" "sc_recv_dest s = 0" and ds: "concat ds = [u, v]" "[] \<notin> set ds"
    and st: "socks_receiving st"
    and sw: "recv_switch env (s\<lparr>sc_buffer := Some [u, v], sc_recv_len := 2\<rparr>) = Some (s', [SendPacket p])"
  shows "socks_yields env s (map Received ds) s' [p]"
proof -
  have a: "awaiting s st 2 (length [u, v])" using s by (simp add: awaiting_def)
  obtain r where r: "recv_handler_done env s [u, v] =
      recv_switch env (s\<lparr>sc_buffer := Some ([u, v] @ r), sc_recv_len := length [u, v]\<rparr>)"
    and lr: "length r = 2 - length [u, v]"
    by (rule awaiting_message [OF a _ s(2), of env]) simp
  have "recv_handler_done env s [u, v] = Some (s', [SendPacket p])"
    using r lr sw by (simp add: numeral_2_eq_2)
  from yields_message [OF a ds(2,1) _ this] st show ?thesis
    by (simp add: error_free_def)
qed

lemma auth_finished_good:
  assumes "good_env env" and "is_ip_addr (sc_dest_addr s)"
  shows "auth_finished env s =
    Some (s\<lparr>sc_buffer := Some (request_msg (sc_dest_addr s)), sc_state := STATE_SENDING_REQUEST\<rparr>,
      [SendPacket (request_msg (sc_dest_addr s))])"
proof -
  have "c_platform env" using assms(1) by (simp add: good_env_def)
  then show ?thesis
    by (simp only: auth_finished_sends [OF refl assms(2)] good_env_reserve [OF assms(1)] if_False)
qed

lemma yields_no_auth:
  assumes env: "good_env env" and s: "awaiting s STATE_SENT_HELLO 2 2" "sc_recv_dest s = 0"
    and ip: "is_ip_addr (sc_dest_addr s)" and a: "find_auth (sc_auth_info s) 0 = Some a"
    and hs: "concat hs = [5, 0]" "[] \<notin> set hs"
  shows "\<exists>s'. socks_yields env s (map Received hs) s' [request_msg (sc_dest_addr s)] \<and>
    sc_state s' = STATE_SENDING_REQUEST \<and> sc_dest_addr s' = sc_dest_addr s"
proof -
  let ?s1 = "s\<lparr>sc_buffer := Some [5, 0], sc_recv_len := 2\<rparr>"
  have "auth_type a = 0" using find_auth_type [OF a] by simp
  then have "recv_switch env ?s1 = auth_finished env ?s1"
    using s a by (simp add: recv_switch_def received_hello_def awaiting_def buf_read_def read_at_def
        ntoh8_def socks_consts)
  then show ?thesis
    using yields_two_bytes [OF s hs] auth_finished_good [OF env, of ?s1] ip by (fastforce simp: socks_receiving_def)
qed

lemma yields_password:
  assumes env: "good_env env" and s: "awaiting s STATE_SENT_HELLO 2 2" "sc_recv_dest s = 0"
    and ip: "is_ip_addr (sc_dest_addr s)"
    and a: "find_auth (sc_auth_info s) 2 = Some a" "credentials_ok a"
    and hs: "concat hs = [5, 2]" "[] \<notin> set hs" and ps: "concat ps = [1, 0]" "[] \<notin> set ps"
  shows "\<exists>s'. socks_yields env s (map Received hs @ [SendDone] @ map Received ps) s'
      ([password_msg a] @ [] @ [request_msg (sc_dest_addr s)]) \<and>
    sc_state s' = STATE_SENDING_REQUEST \<and> sc_dest_addr s' = sc_dest_addr s"
proof -
  let ?s1 = "s\<lparr>sc_buffer := Some [5, 2], sc_recv_len := 2\<rparr>"
  let ?s2 = "?s1\<lparr>sc_buffer := Some (password_msg a), sc_state := STATE_SENDING_PASSWORD\<rparr>"
  have "recv_switch env ?s1 = Some (?s2, [SendPacket (password_msg a)])"
    using s a received_hello_password_sends [of ?s1 "sc_auth_info s" a env] good_env_reserve [OF env]
    by (simp add: recv_switch_def awaiting_def buf_read_def read_at_def)
  from yields_two_bytes [OF s hs _ this]
  have y1: "socks_yields env s (map Received hs) ?s2 [password_msg a]" by (simp add: socks_receiving_def)
  obtain s3 where y2: "socks_yields env ?s2 [SendDone] s3 []"
      and s3: "awaiting s3 STATE_SENT_PASSWORD 2 2" "sc_recv_dest s3 = 0" "sc_dest_addr s3 = sc_dest_addr s"
    using yields_send_done [OF env, of ?s2 2 2 STATE_SENT_PASSWORD] by (auto simp: send_handler_done_def socks_sending_def)
  let ?s4 = "s3\<lparr>sc_buffer := Some [1, 0], sc_recv_len := 2\<rparr>"
  have "recv_switch env ?s4 = auth_finished env ?s4"
    using s3 by (simp add: recv_switch_def received_password_reply_def awaiting_def buf_read_def read_at_def)
  then obtain s5 where "socks_yields env s3 (map Received ps) s5 [request_msg (sc_dest_addr s)]"
      and "sc_state s5 = STATE_SENDING_REQUEST" "sc_dest_addr s5 = sc_dest_addr s"
    using yields_two_bytes [OF s3(1,2) ps] auth_finished_good [OF env, of ?s4] ip s3(3) by (fastforce simp: socks_receiving_def)
  with yields_append [OF y1 yields_append [OF y2]] show ?thesis by blast
qed

lemma socks_run_completes:
  assumes env: "good_env env" and pre: "socks_pre auth dest" and n: "0 < length auth" "length auth \<le> 255"
    and init: "BSocksClient_Init env auth dest = Some s"
    and m: "find_auth auth m = Some a" "m = 2 \<longrightarrow> credentials_ok a"
    and hs: "concat hs = [5, m]" "[] \<notin> set hs" and ps: "concat ps = [1, 0]" "[] \<notin> set ps"
    and rs: "concat rs = [5, 0, x, atyp]" "[] \<notin> set rs"
    and as: "concat as = q" "[] \<notin> set as" and q: "reply_addr_len atyp = Some (length q)"
  shows "\<exists>s'. socks_yields env s
      ([ConnectorDone False, SendDone] @ map Received hs @
       (if m = 2 then [SendDone] @ map Received ps else []) @
       [SendDone] @ map Received rs @ map Received as) s'
      ([hello_msg auth] @ (if m = 2 then [password_msg a] else []) @ [request_msg dest]) \<and>
    sc_state s' = STATE_UP"
proof -
  have ip: "is_ip_addr dest" and ms: "auth_methods_ok auth" using pre by (simp_all add: socks_pre_def)
  obtain s1 where y1: "socks_yields env s ([ConnectorDone False] @ [SendDone]) s1 ([hello_msg auth] @ [])"
    and s1: "awaiting s1 STATE_SENT_HELLO 2 2" "sc_recv_dest s1 = 0" "sc_auth_info s1 = auth"
      "sc_dest_addr s1 = dest"
    using yields_start [OF env n init] by blast
  have "\<exists>s2. socks_yields env s1 (map Received hs @ (if m = 2 then [SendDone] @ map Received ps else [])) s2
      ((if m = 2 then [password_msg a] else []) @ [request_msg dest]) \<and>
      sc_state s2 = STATE_SENDING_REQUEST \<and> sc_dest_addr s2 = dest"
  proof (cases "m = 2")
    case True
    then show ?thesis
      using yields_password [OF env s1(1,2), of a hs ps] ip s1 m hs ps by simp
  next
    case False
    then have "m = 0" using find_auth_cases [OF m(1) ms] by simp
    then show ?thesis
      using yields_no_auth [OF env s1(1,2), of a hs] ip s1 m hs by simp
  qed
  then obtain s2 where y2: "socks_yields env s1
      (map Received hs @ (if m = 2 then [SendDone] @ map Received ps else [])) s2
      ((if m = 2 then [password_msg a] else []) @ [request_msg dest])"
      and s2: "sc_state s2 = STATE_SENDING_REQUEST" "is_ip_addr (sc_dest_addr s2)"
    using ip by auto
  obtain s3 where "socks_yields env s2 ([SendDone] @ map Received rs @ map Received as) s3 []"
      and "sc_state s3 = STATE_UP"
    using yields_request [OF env s2(2,1) rs as q] by blast
  then show ?thesis
    using yields_append [OF y1 yields_append [OF y2]] by fastforce
qed

text \<open>C7. Completion of the handshake. Allocations and \<^verbatim>\<open>BConnection_Init\<close> succeed and the server accepts a
  configured method, the credentials if it chose that method, and the request. Then the client
  brings the tunnel up, having sent exactly the hello, the credentials if asked for, and the
  request, however the server's messages are cut into nonempty pieces.\<close>

theorem socks_completes:
  assumes env: "good_env env" and pre: "socks_pre auth dest" and n: "0 < length auth" "length auth \<le> 255"
    and init: "BSocksClient_Init env auth dest = Some s"
    and m: "find_auth auth m = Some a" "m = 2 \<longrightarrow> credentials_ok a"
    and hs: "concat hs = [5, m]" "[] \<notin> set hs" and ps: "concat ps = [1, 0]" "[] \<notin> set ps"
    and rs: "concat rs = [5, 0, x, atyp]" "[] \<notin> set rs"
    and as: "concat as = q" "[] \<notin> set as" and q: "reply_addr_len atyp = Some (length q)"
  shows "\<exists>s'. socks_yields env s
      ([ConnectorDone False, SendDone] @ map Received hs @
       (if m = 2 then [SendDone] @ map Received ps else []) @
       [SendDone] @ map Received rs @ map Received as) s'
      ([hello_msg auth] @ (if m = 2 then [password_msg a] else []) @ [request_msg dest]) \<and>
    sc_state s' = STATE_UP"
  by (rule socks_run_completes [OF assms])

subsection \<open>A concrete run\<close>

fun socks_exec :: "sc_env \<Rightarrow> BSocksClient \<Rightarrow> byte list list \<Rightarrow> byte list \<Rightarrow> socks_out list \<Rightarrow> socks_in list \<Rightarrow>
    (BSocksClient \<times> byte list list \<times> byte list \<times> socks_out list) option" where
  "socks_exec env s snt rcv out [] = Some (s, snt, rcv, out)"
| "socks_exec env s snt rcv out (i # is) =
     (if error_free out \<and> socks_ready s i
      then (case socks_handle env s i of
              None \<Rightarrow> None
            | Some (s', out') \<Rightarrow>
                socks_exec env s' (snt @ sent_of out') (rcv @ received_of i) out' is)
      else None)"

lemma socks_exec_reach:
  assumes "socks_exec env s snt rcv out is = Some (s', snt', rcv', out')"
    and "socks_reach auth dest s snt rcv out" and "c_platform env"
  shows "socks_reach auth dest s' snt' rcv' out'"
  using assms
proof (induction env s snt rcv out "is" rule: socks_exec.induct)
  case (2 env s snt rcv out i "is")
  then obtain s1 out1 where h: "socks_handle env s i = Some (s1, out1)" "error_free out" "socks_ready s i"
    and e: "socks_exec env s1 (snt @ sent_of out1) (rcv @ received_of i) out1 is =
      Some (s', snt', rcv', out')"
    by (auto split: if_splits option.splits)
  have "socks_reach auth dest s1 (snt @ sent_of out1) (rcv @ received_of i) out1"
    using socks_reach.step [OF "2.prems"(2) h(2,3) "2.prems"(3) h(1)] .
  then show ?case
    using "2.IH" [OF _ h(1) refl e] h(2,3) "2.prems"(3) by simp
qed simp

definition ex_env :: sc_env where
  "ex_env = \<lparr>realloc_ok = (\<lambda>_. True), junk = (\<lambda>_. 0), con_init_ok = True, connector_init_ok = True,
     env_size_max = 65535\<rparr>"

definition ex_auth :: "auth_info list" where
  "ex_auth = [BSocksClient_auth_none, BSocksClient_auth_password [117] [112]]"

definition ex_dest :: BAddr where
  "ex_dest = BADDR_IPV4 0x0100007F 0x5000"

definition ex_client :: BSocksClient where
  "ex_client = the (BSocksClient_Init ex_env ex_auth ex_dest)"

definition ex_inputs :: "socks_in list" where
  "ex_inputs = [ConnectorDone False, SendDone, Received [5], Received [2], SendDone, Received [1, 0],
     SendDone, Received [5, 0, 0, 1], Received [10, 0], Received [0, 1, 0, 80]]"

lemma ex_platform: "c_platform ex_env" "good_env ex_env" "socks_pre ex_auth ex_dest"
  by (simp_all add: c_platform_def good_env_def ex_env_def socks_pre_def auth_methods_ok_def ex_auth_def
      ex_dest_def BSocksClient_auth_none_def BSocksClient_auth_password_def socks_consts)

lemma ex_reach_init: "socks_reach ex_auth ex_dest ex_client [] [] []"
  by (rule socks_reach.init [of ex_env]) (simp add: ex_client_def BSocksClient_Init_def ex_env_def)

definition ex_check :: "nat \<Rightarrow> (BSocksClient \<Rightarrow> socks_out list \<Rightarrow> bool) \<Rightarrow> bool" where
  "ex_check n P = (case socks_exec ex_env ex_client [] [] [] (take n ex_inputs) of
     None \<Rightarrow> False | Some (s, snt, rcv, out) \<Rightarrow> error_free out \<and> P s out)"

lemma ex_checkD:
  assumes "ex_check n P"
  shows "\<exists>s snt rcv out. socks_reach ex_auth ex_dest s snt rcv out \<and> error_free out \<and> P s out"
proof -
  obtain s snt rcv out where "socks_exec ex_env ex_client [] [] [] (take n ex_inputs) = Some (s, snt, rcv, out)"
    and "error_free out" "P s out"
    using assms by (auto simp: ex_check_def split: option.splits)
  then show ?thesis
    using socks_exec_reach [OF _ ex_reach_init ex_platform(1)] by blast
qed

lemma ex_check_up: "ex_check 10 (\<lambda>s out. sc_state s = STATE_UP)"
  by code_simp

lemma ex_check_mid: "ex_check 3 (\<lambda>s out. socks_ready s (Received [2]))"
  by code_simp

text \<open>Witnesses: the run \<^const>\<open>ex_inputs\<close>, with password authentication and fragmented replies.\<close>

theorem socks_no_fault_witness:
  "\<exists>s snt rcv out s' out'. socks_reach ex_auth ex_dest s snt rcv out \<and> error_free out \<and>
     socks_ready s (Received [2]) \<and> socks_handle ex_env s (Received [2]) = Some (s', out')"
  using ex_checkD [OF ex_check_mid] socks_no_fault [OF _ _ ex_platform(3) _ ex_platform(1)] by blast

theorem socks_conformance_witness:
  "\<exists>s snt rcv out. socks_reach ex_auth ex_dest s snt rcv out \<and> error_free out \<and> sc_state s = STATE_UP \<and>
     socks_sent_ok ex_auth ex_dest snt \<and>
     (\<exists>snt0 rcv0 x atyp q. auth_done ex_auth snt0 rcv0 \<and> snt = snt0 @ [request_msg ex_dest] \<and>
         rcv = rcv0 @ [5, 0, x, atyp] @ q \<and> reply_addr_len atyp = Some (length q))"
  using ex_checkD [OF ex_check_up] socks_conformance [OF _ ex_platform(3)] by meson

theorem socks_free_exact_witness:
  "\<exists>s snt rcv out. socks_reach ex_auth ex_dest s snt rcv out \<and> socks_ready s (Received [2]) \<and>
     distinct (BSocksClient_Free s) \<and> (FREE_BUFFER \<in> set (BSocksClient_Free s) \<longleftrightarrow> sc_buffer s \<noteq> None)"
  using ex_checkD [OF ex_check_mid] socks_free_exact [OF _ ex_platform(3)] by meson

theorem socks_completes_witness:
  "\<exists>s'. socks_yields ex_env ex_client
      ([ConnectorDone False, SendDone] @ map Received [[5], [2]] @
       ([SendDone] @ map Received [[1, 0]]) @
       [SendDone] @ map Received [[5, 0, 0, 1]] @ map Received [[10, 0], [0, 1, 0, 80]]) s'
      ([hello_msg ex_auth] @ [password_msg (ex_auth ! 1)] @ [request_msg ex_dest]) \<and>
    sc_state s' = STATE_UP"
proof -
  have "find_auth ex_auth 2 = Some (ex_auth ! 1)" "credentials_ok (ex_auth ! 1)"
    "BSocksClient_Init ex_env ex_auth ex_dest = Some ex_client"
    by (simp_all add: ex_auth_def BSocksClient_auth_none_def BSocksClient_auth_password_def socks_consts
        ntoh8_def credentials_ok_def ex_client_def BSocksClient_Init_def ex_env_def)
  then show ?thesis
    using socks_completes [OF ex_platform(2,3), of ex_client 2 "ex_auth ! 1" "[[5], [2]]" "[[1, 0]]"
        "[[5, 0, 0, 1]]" 0 1 "[[10, 0], [0, 1, 0, 80]]" "[10, 0, 0, 1, 0, 80]"]
    by (simp add: ex_auth_def reply_addr_len_def)
qed

end
