(* ===== verification/Chunk_Buffer.thy ===== *)
theory Chunk_Buffer
  imports Byteorder "HOL-Library.Monad_Syntax"
begin

text \<open>
  The circular packet buffer of \<^verbatim>\<open>structure/ChunkBuffer2.h\<close>. The storage is an array of 4-byte
  blocks, each either the length header of a packet or part of the data of one; here it is the list
  of its bytes, so that headers and data share the memory as they do in C. The \<^verbatim>\<open>int\<close> fields are
  integers. An operation is \<^const>\<open>None\<close> when it accesses memory outside of the array or is given a
  negative packet length.
\<close>

abbreviation (input) BLOCK :: int where "BLOCK \<equiv> 4"

record ChunkBuffer2 =
  cb_mem :: "byte list"
  cb_size :: int
  cb_wrap :: int
  cb_start :: int
  cb_used :: int
  cb_mtu :: int
  cb_input_dest :: "nat option"
  cb_input_avail :: int
  cb_output_dest :: "nat option"
  cb_output_avail :: int

text \<open>\<^verbatim>\<open>buffer[i].len\<close> as a value and as an assignment.\<close>

definition block_len :: "byte list \<Rightarrow> int \<Rightarrow> int option" where
  "block_len m i =
     (if i < 0 then None
      else map_option (\<lambda>bs. sint (le_word bs :: u32)) (read_at m (nat (BLOCK * i)) 4))"

definition set_block_len :: "byte list \<Rightarrow> int \<Rightarrow> int \<Rightarrow> byte list option" where
  "set_block_len m i len =
     (if i < 0 then None else write_at m (nat (BLOCK * i)) (le_bytes 4 (word_of_int len :: u32)))"

text \<open>\<^verbatim>\<open>bdivide_up(len, sizeof(struct ChunkBuffer2_block))\<close> for a nonnegative length.\<close>

definition len_blocks :: "int \<Rightarrow> int option" where
  "len_blocks len = (if len < 0 then None else Some (int (bdivide_up (nat len) (nat BLOCK))))"

definition ChunkBuffer2_end :: "ChunkBuffer2 \<Rightarrow> int" where
  "ChunkBuffer2_end buf =
     (if cb_used buf \<ge> cb_wrap buf - cb_start buf
      then cb_used buf - (cb_wrap buf - cb_start buf)
      else cb_start buf + cb_used buf)"

definition ChunkBuffer2_update_input :: "ChunkBuffer2 \<Rightarrow> ChunkBuffer2" where
  "ChunkBuffer2_update_input buf =
     (let e = ChunkBuffer2_end buf in
      if cb_size buf - e - 1 < cb_mtu buf then buf\<lparr>cb_input_dest := None, cb_input_avail := - 1\<rparr>
      else
        let free = (if cb_used buf \<ge> cb_wrap buf - cb_start buf then cb_start buf - e
                    else cb_size buf - e)
        in if free > 0
           then buf\<lparr>cb_input_dest := Some (nat (BLOCK * (e + 1))),
                    cb_input_avail := to_int ((free - 1) * BLOCK)\<rparr>
           else buf\<lparr>cb_input_dest := None, cb_input_avail := - 1\<rparr>)"

definition ChunkBuffer2_update_output :: "ChunkBuffer2 \<Rightarrow> ChunkBuffer2 option" where
  "ChunkBuffer2_update_output buf =
     (if cb_used buf > 0
      then do {
        datalen \<leftarrow> block_len (cb_mem buf) (cb_start buf);
        Some (buf\<lparr>cb_output_dest := Some (nat (BLOCK * (cb_start buf + 1))),
                  cb_output_avail := datalen\<rparr>) }
      else Some (buf\<lparr>cb_output_dest := None, cb_output_avail := - 1\<rparr>))"

text \<open>\<open>ChunkBuffer2_calc_blocks\<close> returns -1 where the number of blocks does not fit an \<^verbatim>\<open>int\<close>.\<close>

definition ChunkBuffer2_calc_blocks :: "nat \<Rightarrow> nat \<Rightarrow> int" where
  "ChunkBuffer2_calc_blocks chunk_len num =
     (let chunk_data_blocks = to_int (int (bdivide_up chunk_len (nat BLOCK))) in
      if chunk_data_blocks > INT_MAX - 1 then - 1
      else let chunk_blocks = 1 + chunk_data_blocks in
      if int num > INT_MAX - 1 then - 1
      else let num_chunks = int num + 1 in
      if chunk_blocks > INT_MAX div num_chunks then - 1
      else chunk_blocks * num_chunks)"

definition ChunkBuffer2_Init :: "byte list \<Rightarrow> int \<Rightarrow> nat \<Rightarrow> ChunkBuffer2 option" where
  "ChunkBuffer2_Init mem blocks mtu =
     (let buf = \<lparr>cb_mem = mem, cb_size = blocks, cb_wrap = blocks, cb_start = 0, cb_used = 0,
                 cb_mtu = to_int (int (bdivide_up mtu (nat BLOCK))),
                 cb_input_dest = None, cb_input_avail = 0, cb_output_dest = None, cb_output_avail = 0\<rparr>
      in ChunkBuffer2_update_output (ChunkBuffer2_update_input buf))"

definition ChunkBuffer2_SubmitPacket :: "ChunkBuffer2 \<Rightarrow> int \<Rightarrow> ChunkBuffer2 option" where
  "ChunkBuffer2_SubmitPacket buf len = do {
     let e = ChunkBuffer2_end buf;
     blocklen \<leftarrow> len_blocks len;
     m \<leftarrow> set_block_len (cb_mem buf) e len;
     let buf = buf\<lparr>cb_mem := m, cb_used := cb_used buf + (1 + blocklen)\<rparr>;
     let buf = (if cb_used buf \<le> cb_wrap buf - cb_start buf \<and>
                   cb_mtu buf > cb_size buf - (e + 1 + blocklen) - 1
                then buf\<lparr>cb_wrap := e + 1 + blocklen\<rparr> else buf);
     let buf = ChunkBuffer2_update_input buf;
     if cb_used buf = 1 + blocklen then ChunkBuffer2_update_output buf else Some buf }"

definition ChunkBuffer2_ConsumePacket :: "ChunkBuffer2 \<Rightarrow> ChunkBuffer2 option" where
  "ChunkBuffer2_ConsumePacket buf = do {
     datalen \<leftarrow> block_len (cb_mem buf) (cb_start buf);
     blocklen \<leftarrow> len_blocks datalen;
     let data_wrapped = (cb_used buf \<ge> cb_wrap buf - cb_start buf);
     let buf = buf\<lparr>cb_start := cb_start buf + (1 + blocklen), cb_used := cb_used buf - (1 + blocklen)\<rparr>;
     let buf = (if cb_start buf = cb_wrap buf
                then buf\<lparr>cb_start := 0, cb_wrap := cb_size buf\<rparr> else buf);
     let buf = (if data_wrapped then ChunkBuffer2_update_input buf else buf);
     ChunkBuffer2_update_output buf }"

end
