(* ===== verification/Packet_Buffer.thy ===== *)
theory Packet_Buffer
  imports Chunk_Buffer
begin

text \<open>
  The packet buffer of \<^verbatim>\<open>flow/PacketBuffer.c\<close>: it receives packets from a
  \<^verbatim>\<open>PacketRecvInterface\<close> into a circular buffer and passes them on to a \<^verbatim>\<open>PacketPassInterface\<close>. Both
  interfaces work on the buffer's own storage, so a receive is a pointer into it and a send a
  pointer and a length.
\<close>

datatype pb_out =
    PB_Recv "nat option"      \<comment> \<open>\<^verbatim>\<open>PacketRecvInterface_Receiver_Recv(input, input_dest)\<close>\<close>
  | PB_Send "nat option" int  \<comment> \<open>\<^verbatim>\<open>PacketPassInterface_Sender_Send(output, output_dest, output_avail)\<close>\<close>

record PacketBuffer =
  pb_input_mtu :: int
  pb_buf :: ChunkBuffer2

definition PacketBuffer_input_handler_done ::
  "PacketBuffer \<Rightarrow> int \<Rightarrow> (PacketBuffer \<times> pb_out list) option" where
  "PacketBuffer_input_handler_done pb in_len = do {
     let was_empty = (cb_output_avail (pb_buf pb) < 0);
     buf \<leftarrow> ChunkBuffer2_SubmitPacket (pb_buf pb) in_len;
     Some (pb\<lparr>pb_buf := buf\<rparr>,
       (if cb_input_avail buf \<ge> pb_input_mtu pb then [PB_Recv (cb_input_dest buf)] else []) @
       (if was_empty then [PB_Send (cb_output_dest buf) (cb_output_avail buf)] else [])) }"

definition PacketBuffer_output_handler_done ::
  "PacketBuffer \<Rightarrow> (PacketBuffer \<times> pb_out list) option" where
  "PacketBuffer_output_handler_done pb = do {
     let was_full = (cb_input_avail (pb_buf pb) < pb_input_mtu pb);
     buf \<leftarrow> ChunkBuffer2_ConsumePacket (pb_buf pb);
     Some (pb\<lparr>pb_buf := buf\<rparr>,
       (if was_full \<and> cb_input_avail buf \<ge> pb_input_mtu pb then [PB_Recv (cb_input_dest buf)] else []) @
       (if cb_output_avail buf \<ge> 0 then [PB_Send (cb_output_dest buf) (cb_output_avail buf)] else [])) }"

text \<open>\<^verbatim>\<open>BAllocArray\<close> over the platform's \<^verbatim>\<open>malloc\<close>, which returns memory of the size asked for or
  fails.\<close>

definition BAllocArray :: "nat \<Rightarrow> (nat \<Rightarrow> byte list option) \<Rightarrow> nat \<Rightarrow> nat \<Rightarrow> byte list option" where
  "BAllocArray size_max malloc count bytes =
     (if count = 0 \<or> bytes = 0 then malloc 1
      else if count > size_max div bytes then None
      else malloc (count * bytes))"

text \<open>\<open>PacketBuffer_Init\<close> for an input with the given MTU; \<^const>\<open>None\<close> where the source returns 0.\<close>

definition PacketBuffer_Init ::
  "nat \<Rightarrow> (nat \<Rightarrow> byte list option) \<Rightarrow> nat \<Rightarrow> nat \<Rightarrow> (PacketBuffer \<times> pb_out list) option" where
  "PacketBuffer_Init size_max malloc input_mtu num_packets =
     (let num_blocks = ChunkBuffer2_calc_blocks input_mtu num_packets in
      if num_blocks < 0 then None
      else do {
        mem \<leftarrow> BAllocArray size_max malloc (nat num_blocks) 4;
        buf \<leftarrow> ChunkBuffer2_Init mem num_blocks input_mtu;
        Some (\<lparr>pb_input_mtu = int input_mtu, pb_buf = buf\<rparr>, [PB_Recv (cb_input_dest buf)]) })"

end
