(* ===== verification/Chunk_Facts.thy ===== *)
theory Chunk_Facts
  imports Chunk_Buffer
begin

text \<open>
  The circular buffer refines a first-in first-out queue of packets. The relation
  \<open>cb_rep buf pkts\<close> says where the packets \<open>pkts\<close> lie in the storage; it implies the
  invariants the source asserts, and it shows that the branch "it will never be possible to write a
  MTU long packet here" is never taken, so that the buffer never gets stuck.
\<close>

subsection \<open>Packets in the storage\<close>

definition pkt_blocks :: "byte list \<Rightarrow> int" where
  "pkt_blocks p = int (bdivide_up (length p) 4)"

definition chunk_at :: "byte list \<Rightarrow> int \<Rightarrow> byte list \<Rightarrow> bool" where
  "chunk_at m i p \<longleftrightarrow>
     block_len m i = Some (int (length p)) \<and> read_at m (nat (4 * (i + 1))) (length p) = Some p"

text \<open>\<open>layout m lim i ps j\<close>: from block \<open>i\<close> up to block \<open>j\<close> the storage holds the packets \<open>ps\<close>, each
  starting at block \<open>lim\<close> at the latest.\<close>

fun layout :: "byte list \<Rightarrow> int \<Rightarrow> int \<Rightarrow> byte list list \<Rightarrow> int \<Rightarrow> bool" where
  "layout m lim i [] j \<longleftrightarrow> i = j"
| "layout m lim i (p # ps) j \<longleftrightarrow>
     i \<le> lim \<and> chunk_at m i p \<and> layout m lim (i + (1 + pkt_blocks p)) ps j"

definition agree :: "byte list \<Rightarrow> byte list \<Rightarrow> int \<Rightarrow> int \<Rightarrow> bool" where
  "agree m m' a b \<longleftrightarrow> length m = length m' \<and> (\<forall>k. 4 * a \<le> int k \<and> int k < 4 * b \<longrightarrow> m ! k = m' ! k)"

lemma pkt_blocks_nonneg [simp]: "0 \<le> pkt_blocks p"
  by (simp add: pkt_blocks_def)

lemma len_pkt_blocks: "int (length p) \<le> 4 * pkt_blocks p"
  using bdivide_up_mult [of 4 "length p"] by (simp add: pkt_blocks_def)

lemma pkt_blocks_le: "int (length p) \<le> 4 * k \<Longrightarrow> pkt_blocks p \<le> k"
  using bdivide_up_least [of 4 "length p" "nat k"] unfolding pkt_blocks_def by linarith

lemma len_blocks_length [simp]: "len_blocks (int (length p)) = Some (pkt_blocks p)"
  by (simp add: len_blocks_def pkt_blocks_def)

lemma layout_le: "layout m lim i ps j \<Longrightarrow> i \<le> j"
proof (induction ps arbitrary: i)
  case (Cons p ps)
  then have "i + (1 + pkt_blocks p) \<le> j" by simp
  then show ?case using pkt_blocks_nonneg [of p] by linarith
qed simp

lemma layout_append:
  "layout m lim i (ps @ qs) k \<longleftrightarrow> (\<exists>j. layout m lim i ps j \<and> layout m lim j qs k)"
  by (induction ps arbitrary: i) auto

lemma read_at_agree:
  assumes "length m = length m'" and "\<And>k. off \<le> k \<Longrightarrow> k < off + n \<Longrightarrow> m ! k = m' ! k"
  shows "read_at m off n = read_at m' off n"
proof (cases "off + n \<le> length m")
  case True
  have "take n (drop off m) = take n (drop off m')"
    by (rule nth_equalityI) (use assms True in auto)
  then show ?thesis using assms(1) by (simp add: read_at_def)
next
  case False
  then show ?thesis using assms(1) by (simp add: read_at_def)
qed

lemma chunk_at_agree:
  assumes "agree m m' a b" and "a \<le> i" and "0 \<le> i" and "i + (1 + pkt_blocks p) \<le> b" and "chunk_at m i p"
  shows "chunk_at m' i p"
proof -
  have l: "length m = length m'" and eq: "\<And>k. 4 * a \<le> int k \<Longrightarrow> int k < 4 * b \<Longrightarrow> m ! k = m' ! k"
    using assms(1) by (auto simp: agree_def)
  have i1: "int (nat (4 * (i + 1))) = 4 * i + 4" using assms(3) by simp
  have h: "read_at m (nat (4 * i)) 4 = read_at m' (nat (4 * i)) 4"
    by (rule read_at_agree [OF l eq]) (use assms pkt_blocks_nonneg [of p] in linarith)+
  have d: "read_at m (nat (4 * (i + 1))) (length p) = read_at m' (nat (4 * (i + 1))) (length p)"
    by (rule read_at_agree [OF l eq]) (use assms(2-4) len_pkt_blocks [of p] i1 in linarith)+
  show ?thesis
    using assms(3,5) h d by (simp add: chunk_at_def block_len_def)
qed

lemma layout_agree:
  assumes "agree m m' a j" and "a \<le> i" and "0 \<le> i" and "layout m lim i ps j"
  shows "layout m' lim i ps j"
  using assms
proof (induction ps arbitrary: i)
  case (Cons p ps)
  then have "i + (1 + pkt_blocks p) \<le> j" using layout_le [of m lim _ ps j] by simp
  then have "chunk_at m' i p" using Cons.prems chunk_at_agree by auto
  moreover have "layout m' lim (i + (1 + pkt_blocks p)) ps j"
  proof (rule Cons.IH)
    show "a \<le> i + (1 + pkt_blocks p)" "0 \<le> i + (1 + pkt_blocks p)"
      using Cons.prems(2,3) pkt_blocks_nonneg [of p] by linarith+
  qed (use Cons.prems in simp_all)
  ultimately show ?case using Cons.prems by simp
qed simp

subsection \<open>The representation relation\<close>

definition cb_lim :: "ChunkBuffer2 \<Rightarrow> int" where
  "cb_lim buf = cb_size buf - 1 - cb_mtu buf"

definition cb_wrapped :: "ChunkBuffer2 \<Rightarrow> bool" where
  "cb_wrapped buf \<longleftrightarrow> cb_used buf \<ge> cb_wrap buf - cb_start buf"

text \<open>The bound on the size keeps the byte count \<open>input_avail\<close> within an \<^verbatim>\<open>int\<close>.\<close>

definition cb_shape :: "ChunkBuffer2 \<Rightarrow> bool" where
  "cb_shape buf \<longleftrightarrow>
     cb_size buf \<le> 536870912 \<and> length (cb_mem buf) = nat (4 * cb_size buf) \<and>
     0 \<le> cb_mtu buf \<and> cb_mtu buf < cb_size buf \<and>
     0 \<le> cb_start buf \<and> cb_start buf < cb_wrap buf \<and> cb_wrap buf \<le> cb_size buf \<and>
     (cb_wrap buf = cb_size buf \<or> cb_size buf - cb_wrap buf \<le> cb_mtu buf)"

definition cb_data :: "ChunkBuffer2 \<Rightarrow> byte list list \<Rightarrow> bool" where
  "cb_data buf pkts \<longleftrightarrow>
     (if cb_wrapped buf
      then \<exists>ps qs. pkts = ps @ qs \<and> layout (cb_mem buf) (cb_lim buf) (cb_start buf) ps (cb_wrap buf) \<and>
             layout (cb_mem buf) (cb_lim buf) 0 qs (cb_used buf - (cb_wrap buf - cb_start buf)) \<and>
             cb_used buf - (cb_wrap buf - cb_start buf) \<le> cb_start buf
      else cb_wrap buf = cb_size buf \<and> cb_start buf + cb_used buf \<le> cb_lim buf \<and>
           layout (cb_mem buf) (cb_lim buf) (cb_start buf) pkts (cb_start buf + cb_used buf))"

definition cb_core :: "ChunkBuffer2 \<Rightarrow> byte list list \<Rightarrow> bool" where
  "cb_core buf pkts \<longleftrightarrow> cb_shape buf \<and> cb_data buf pkts"

definition cb_rep :: "ChunkBuffer2 \<Rightarrow> byte list list \<Rightarrow> bool" where
  "cb_rep buf pkts \<longleftrightarrow>
     cb_core buf pkts \<and> ChunkBuffer2_update_input buf = buf \<and> ChunkBuffer2_update_output buf = Some buf"

definition cb_free :: "ChunkBuffer2 \<Rightarrow> int" where
  "cb_free buf =
     (if cb_wrapped buf then cb_start buf - ChunkBuffer2_end buf else cb_size buf - ChunkBuffer2_end buf)"

lemma cb_wrapped_end:
  "cb_wrapped buf \<Longrightarrow> ChunkBuffer2_end buf = cb_used buf - (cb_wrap buf - cb_start buf)"
  "\<not> cb_wrapped buf \<Longrightarrow> ChunkBuffer2_end buf = cb_start buf + cb_used buf"
  by (simp_all add: cb_wrapped_def ChunkBuffer2_end_def)

lemma cb_core_end:
  assumes "cb_core buf pkts"
  shows "0 \<le> ChunkBuffer2_end buf" and "ChunkBuffer2_end buf \<le> cb_lim buf"
    and "0 \<le> cb_free buf" and "0 \<le> cb_used buf" and "cb_used buf = 0 \<longleftrightarrow> pkts = []"
proof -
  have sh: "cb_shape buf" and da: "cb_data buf pkts" using assms by (simp_all add: cb_core_def)
  have "0 \<le> ChunkBuffer2_end buf \<and> ChunkBuffer2_end buf \<le> cb_lim buf \<and> 0 \<le> cb_free buf \<and>
      0 \<le> cb_used buf \<and> (cb_used buf = 0 \<longleftrightarrow> pkts = [])"
  proof (cases "cb_wrapped buf")
    case True
    then obtain ps qs where p: "pkts = ps @ qs"
      and l: "layout (cb_mem buf) (cb_lim buf) (cb_start buf) ps (cb_wrap buf)"
        "layout (cb_mem buf) (cb_lim buf) 0 qs (ChunkBuffer2_end buf)"
        "ChunkBuffer2_end buf \<le> cb_start buf"
      using da by (auto simp: cb_data_def cb_wrapped_end)
    have "cb_start buf < cb_wrap buf" "0 \<le> cb_start buf" using sh by (simp_all add: cb_shape_def)
    then have "ps \<noteq> []" "cb_start buf \<le> cb_lim buf" using l(1) by (cases ps; simp)+
    then show ?thesis
      using True p l(3) layout_le [OF l(2)] \<open>cb_start buf < cb_wrap buf\<close>
      by (auto simp: cb_free_def cb_wrapped_end)
  next
    case False
    then have l: "layout (cb_mem buf) (cb_lim buf) (cb_start buf) pkts (cb_start buf + cb_used buf)"
      and e: "cb_start buf + cb_used buf \<le> cb_lim buf"
      using da by (auto simp: cb_data_def)
    have "pkts = []" if "cb_used buf = 0"
    proof (cases pkts)
      case (Cons p ps)
      then have "layout (cb_mem buf) (cb_lim buf) (cb_start buf + (1 + pkt_blocks p)) ps
          (cb_start buf + cb_used buf)"
        using l by simp
      from layout_le [OF this] show ?thesis using that pkt_blocks_nonneg [of p] by linarith
    qed
    moreover have "cb_used buf = 0" if "pkts = []" using l that by simp
    moreover have "cb_lim buf < cb_size buf" "0 \<le> cb_start buf"
      using sh by (auto simp: cb_shape_def cb_lim_def)
    ultimately show ?thesis
      using False layout_le [OF l] e by (auto simp: cb_free_def cb_wrapped_end)
  qed
  then show "0 \<le> ChunkBuffer2_end buf" "ChunkBuffer2_end buf \<le> cb_lim buf" "0 \<le> cb_free buf"
    "0 \<le> cb_used buf" "cb_used buf = 0 \<longleftrightarrow> pkts = []" by simp_all
qed

subsection \<open>The interface fields\<close>

lemma update_input_fields [simp]:
  "cb_mem (ChunkBuffer2_update_input buf) = cb_mem buf"
  "cb_size (ChunkBuffer2_update_input buf) = cb_size buf"
  "cb_wrap (ChunkBuffer2_update_input buf) = cb_wrap buf"
  "cb_start (ChunkBuffer2_update_input buf) = cb_start buf"
  "cb_used (ChunkBuffer2_update_input buf) = cb_used buf"
  "cb_mtu (ChunkBuffer2_update_input buf) = cb_mtu buf"
  "cb_output_dest (ChunkBuffer2_update_input buf) = cb_output_dest buf"
  "cb_output_avail (ChunkBuffer2_update_input buf) = cb_output_avail buf"
  by (simp_all add: ChunkBuffer2_update_input_def Let_def)

lemma update_output_fields:
  assumes "ChunkBuffer2_update_output buf = Some buf'"
  shows "cb_mem buf' = cb_mem buf" "cb_size buf' = cb_size buf" "cb_wrap buf' = cb_wrap buf"
    "cb_start buf' = cb_start buf" "cb_used buf' = cb_used buf" "cb_mtu buf' = cb_mtu buf"
    "cb_input_dest buf' = cb_input_dest buf" "cb_input_avail buf' = cb_input_avail buf"
  using assms by (auto simp: ChunkBuffer2_update_output_def split: if_splits Option.bind_splits)

lemma cb_core_fields:
  assumes "cb_mem buf' = cb_mem buf" "cb_size buf' = cb_size buf" "cb_wrap buf' = cb_wrap buf"
    "cb_start buf' = cb_start buf" "cb_used buf' = cb_used buf" "cb_mtu buf' = cb_mtu buf"
  shows "cb_core buf' pkts = cb_core buf pkts"
  using assms by (simp add: cb_core_def cb_shape_def cb_data_def cb_wrapped_def cb_lim_def)

lemma cb_core_update_input [simp]: "cb_core (ChunkBuffer2_update_input buf) pkts = cb_core buf pkts"
  by (rule cb_core_fields) simp_all

lemma update_input_cong:
  assumes "cb_size buf' = cb_size buf" "cb_wrap buf' = cb_wrap buf"
    "cb_start buf' = cb_start buf" "cb_used buf' = cb_used buf" "cb_mtu buf' = cb_mtu buf"
  shows "cb_input_dest (ChunkBuffer2_update_input buf') = cb_input_dest (ChunkBuffer2_update_input buf)"
    "cb_input_avail (ChunkBuffer2_update_input buf') = cb_input_avail (ChunkBuffer2_update_input buf)"
proof -
  have "ChunkBuffer2_end buf' = ChunkBuffer2_end buf"
    using assms by (simp add: ChunkBuffer2_end_def)
  then show "cb_input_dest (ChunkBuffer2_update_input buf') = cb_input_dest (ChunkBuffer2_update_input buf)"
    "cb_input_avail (ChunkBuffer2_update_input buf') = cb_input_avail (ChunkBuffer2_update_input buf)"
    using assms by (simp_all add: ChunkBuffer2_update_input_def Let_def)
qed

lemma update_input_idem [simp]:
  "ChunkBuffer2_update_input (ChunkBuffer2_update_input buf) = ChunkBuffer2_update_input buf"
  by (intro ChunkBuffer2.equality)
    (simp_all add: update_input_cong [of "ChunkBuffer2_update_input buf" buf])

lemma update_output_idem:
  assumes "ChunkBuffer2_update_output buf = Some buf'"
  shows "ChunkBuffer2_update_output buf' = Some buf'"
  using assms by (auto simp: ChunkBuffer2_update_output_def split: if_splits Option.bind_splits)

lemma update_input_output:
  assumes "ChunkBuffer2_update_output buf = Some buf'" and "ChunkBuffer2_update_input buf = buf"
  shows "ChunkBuffer2_update_input buf' = buf'"
proof -
  have "cb_input_dest (ChunkBuffer2_update_input buf') = cb_input_dest (ChunkBuffer2_update_input buf)"
    "cb_input_avail (ChunkBuffer2_update_input buf') = cb_input_avail (ChunkBuffer2_update_input buf)"
    using update_output_fields [OF assms(1)] by (intro update_input_cong; simp)+
  then show ?thesis
    using update_output_fields [OF assms(1)] assms(2) by (intro ChunkBuffer2.equality) simp_all
qed

text \<open>The space offered to the producer: never less than a block once the queue has room, and never
  withheld for good.\<close>

lemma update_input_core:
  assumes "cb_core buf pkts"
  shows "ChunkBuffer2_update_input buf =
    (if cb_free buf > 0
     then buf\<lparr>cb_input_dest := Some (nat (4 * (ChunkBuffer2_end buf + 1))),
              cb_input_avail := (cb_free buf - 1) * 4\<rparr>
     else buf\<lparr>cb_input_dest := None, cb_input_avail := - 1\<rparr>)"
proof -
  have "ChunkBuffer2_end buf \<le> cb_lim buf" "0 \<le> ChunkBuffer2_end buf"
    using cb_core_end [OF assms] by simp_all
  moreover have "cb_size buf \<le> 536870912" "0 \<le> cb_mtu buf" "cb_start buf < cb_size buf"
    using assms by (auto simp: cb_core_def cb_shape_def)
  moreover from calculation have "cb_free buf \<le> 536870912"
    by (auto simp: cb_free_def)
  then have "to_int ((cb_free buf - 1) * 4) = (cb_free buf - 1) * 4" if "cb_free buf > 0"
    using that by (simp add: INT_MAX_def)
  ultimately show ?thesis
    by (auto simp: ChunkBuffer2_update_input_def Let_def cb_free_def cb_wrapped_def cb_lim_def)
qed

lemma layout_hd:
  assumes "cb_core buf (p # ps)"
  shows "chunk_at (cb_mem buf) (cb_start buf) p"
proof (cases "cb_wrapped buf")
  case True
  then obtain qs rs where "p # ps = qs @ rs"
    and l: "layout (cb_mem buf) (cb_lim buf) (cb_start buf) qs (cb_wrap buf)"
    using assms by (auto simp: cb_core_def cb_data_def)
  moreover have "cb_start buf < cb_wrap buf" using assms by (simp add: cb_core_def cb_shape_def)
  ultimately show ?thesis by (cases qs) auto
next
  case False
  then show ?thesis using assms by (simp add: cb_core_def cb_data_def)
qed

lemma update_output_core:
  assumes "cb_core buf pkts"
  shows "ChunkBuffer2_update_output buf =
    Some (case pkts of
      [] \<Rightarrow> buf\<lparr>cb_output_dest := None, cb_output_avail := - 1\<rparr>
    | p # ps \<Rightarrow> buf\<lparr>cb_output_dest := Some (nat (4 * (cb_start buf + 1))),
                    cb_output_avail := int (length p)\<rparr>)"
proof (cases pkts)
  case Nil
  then show ?thesis
    using cb_core_end(5) [OF assms] by (simp add: ChunkBuffer2_update_output_def)
next
  case (Cons p ps)
  then have "cb_used buf \<noteq> 0" using cb_core_end(5) [OF assms] by simp
  then have "0 < cb_used buf" using cb_core_end(4) [OF assms] by simp
  then show ?thesis
    using layout_hd [of buf p ps] assms Cons
    by (simp add: ChunkBuffer2_update_output_def chunk_at_def)
qed

lemma cb_repI:
  assumes "cb_core buf pkts" and "ChunkBuffer2_update_input buf = buf"
    and "ChunkBuffer2_update_output buf = Some buf'"
  shows "cb_rep buf' pkts"
  using assms update_output_idem update_input_output update_output_fields [OF assms(3)]
    cb_core_fields [of buf' buf pkts] by (simp add: cb_rep_def)

lemma cb_rep_input:
  assumes "cb_rep buf pkts"
  shows "cb_input_dest buf = (if cb_free buf > 0 then Some (nat (4 * (ChunkBuffer2_end buf + 1))) else None)"
    and "cb_input_avail buf = (if cb_free buf > 0 then (cb_free buf - 1) * 4 else - 1)"
proof -
  have core: "cb_core buf pkts" and ui: "ChunkBuffer2_update_input buf = buf"
    using assms by (simp_all add: cb_rep_def)
  have "cb_input_dest (ChunkBuffer2_update_input buf) =
      (if cb_free buf > 0 then Some (nat (4 * (ChunkBuffer2_end buf + 1))) else None)"
    "cb_input_avail (ChunkBuffer2_update_input buf) = (if cb_free buf > 0 then (cb_free buf - 1) * 4 else - 1)"
    by (simp_all add: update_input_core [OF core])
  then show "cb_input_dest buf = (if cb_free buf > 0 then Some (nat (4 * (ChunkBuffer2_end buf + 1))) else None)"
    and "cb_input_avail buf = (if cb_free buf > 0 then (cb_free buf - 1) * 4 else - 1)"
    using ui by simp_all
qed

lemma cb_rep_output:
  assumes "cb_rep buf pkts"
  shows "cb_output_dest buf = (case pkts of [] \<Rightarrow> None | p # ps \<Rightarrow> Some (nat (4 * (cb_start buf + 1))))"
    and "cb_output_avail buf = (case pkts of [] \<Rightarrow> - 1 | p # ps \<Rightarrow> int (length p))"
proof -
  have core: "cb_core buf pkts" and uo: "ChunkBuffer2_update_output buf = Some buf"
    using assms by (simp_all add: cb_rep_def)
  have "cb_output_dest (the (ChunkBuffer2_update_output buf)) =
      (case pkts of [] \<Rightarrow> None | p # ps \<Rightarrow> Some (nat (4 * (cb_start buf + 1))))"
    "cb_output_avail (the (ChunkBuffer2_update_output buf)) =
      (case pkts of [] \<Rightarrow> - 1 | p # ps \<Rightarrow> int (length p))"
    by (simp_all add: update_output_core [OF core] split: list.split)
  then show "cb_output_dest buf = (case pkts of [] \<Rightarrow> None | p # ps \<Rightarrow> Some (nat (4 * (cb_start buf + 1))))"
    and "cb_output_avail buf = (case pkts of [] \<Rightarrow> - 1 | p # ps \<Rightarrow> int (length p))"
    using uo by simp_all
qed

subsection \<open>Submitting a packet\<close>

lemma sint_word_of_int_len: "0 \<le> n \<Longrightarrow> n \<le> INT_MAX \<Longrightarrow> sint (word_of_int n :: u32) = n"
  by (simp add: INT_MAX_def signed_of_int signed_take_bit_int_eq_self)

lemma store_chunk:
  assumes e: "0 \<le> e" and f: "0 < f" "4 * (e + f) \<le> int (length m)" and w: "int (length w) \<le> (f - 1) * 4"
    and len: "len \<le> length w" "int len \<le> INT_MAX"
  obtains m1 m2 where "write_at m (nat (4 * (e + 1))) w = Some m1"
    and "set_block_len m1 e (int len) = Some m2" and "length m2 = length m"
    and "chunk_at m2 e (take len w)"
    and "\<And>a b. b \<le> e \<or> e + f \<le> a \<Longrightarrow> agree m m2 a b"
proof -
  let ?d = "nat (4 * (e + 1))" and ?h = "le_bytes 4 (word_of_int (int len) :: u32)"
  have dn: "?d = nat (4 * e) + 4" using e by (simp add: nat_add_distrib distrib_left)
  have f': "4 * e + 4 * f \<le> int (length m)" "int (length w) \<le> 4 * f - 4" using f w by simp_all
  have d: "int ?d = 4 * e + 4" and h: "int (nat (4 * e)) = 4 * e" using e by simp_all
  have "int (?d + length w) \<le> int (length m)" unfolding of_nat_add d using f' by linarith
  then have "?d + length w \<le> length m" by (simp only: of_nat_le_iff)
  then obtain m1 where m1: "write_at m ?d w = Some m1" by (auto simp: write_at_def)
  then have l1: "length m1 = length m" by (rule write_at_length)
  have "nat (4 * e) + 4 \<le> length m1" using h f(1) f' l1 by linarith
  then obtain m2 where wr: "write_at m1 (nat (4 * e)) ?h = Some m2"
    by (auto simp: write_at_def length_le_bytes)
  have l2: "length m2 = length m" using l1 write_at_length [OF wr] by simp
  have s: "set_block_len m1 e (int len) = Some m2" using wr e by (simp add: set_block_len_def)
  have "read_at m2 (nat (4 * e)) 4 = Some ?h"
    using read_write_same [OF wr] by (simp add: length_le_bytes)
  then have hd: "block_len m2 e = Some (int len)"
    using e len sint_word_of_int_len [of "int len"] by (simp add: block_len_def le_word_le_bytes)
  have "read_at m2 ?d (length w) = read_at m1 ?d (length w)"
    using dn by (intro read_write_after [OF wr]) (simp add: length_le_bytes)
  then have "read_at m2 ?d (length w) = Some w" using read_write_same [OF m1] by simp
  then have "read_at m2 ?d len = Some (take len w)" by (rule read_at_take [OF _ len(1)])
  then have c: "chunk_at m2 e (take len w)" using hd len by (simp add: chunk_at_def min_def)
  have "agree m m2 a b" if ab: "b \<le> e \<or> e + f \<le> a" for a b
  proof -
    have "m2 ! k = m ! k" if k: "4 * a \<le> int k" "int k < 4 * b" for k
    proof -
      have "m2 ! k = m1 ! k"
        by (rule write_at_nth [OF wr]) (use ab k h f in \<open>simp add: length_le_bytes, linarith\<close>)
      also have "\<dots> = m ! k"
        by (rule write_at_nth [OF m1]) (use ab k d f' in linarith)
      finally show ?thesis .
    qed
    then show ?thesis using l2 by (simp add: agree_def)
  qed
  then show ?thesis using that [OF m1 s l2 c] by blast
qed

text \<open>The buffer after the header is written and before the interface fields are updated.\<close>

definition cb_append :: "ChunkBuffer2 \<Rightarrow> byte list \<Rightarrow> byte list \<Rightarrow> ChunkBuffer2" where
  "cb_append buf m p =
    (let e = ChunkBuffer2_end buf; buf' = buf\<lparr>cb_mem := m, cb_used := cb_used buf + (1 + pkt_blocks p)\<rparr> in
     if cb_used buf' \<le> cb_wrap buf' - cb_start buf' \<and>
        cb_mtu buf' > cb_size buf' - (e + 1 + pkt_blocks p) - 1
     then buf'\<lparr>cb_wrap := e + 1 + pkt_blocks p\<rparr> else buf')"

lemma cb_append_fields [simp]:
  "cb_size (cb_append buf m p) = cb_size buf" "cb_mtu (cb_append buf m p) = cb_mtu buf"
  "cb_start (cb_append buf m p) = cb_start buf" "cb_mem (cb_append buf m p) = m"
  "cb_used (cb_append buf m p) = cb_used buf + (1 + pkt_blocks p)"
  "cb_output_dest (cb_append buf m p) = cb_output_dest buf"
  "cb_output_avail (cb_append buf m p) = cb_output_avail buf"
  by (simp_all add: cb_append_def Let_def)

lemma end_mem [simp]: "ChunkBuffer2_end (buf\<lparr>cb_mem := m\<rparr>) = ChunkBuffer2_end buf"
  by (simp add: ChunkBuffer2_end_def)

lemma submit_append:
  assumes "set_block_len (cb_mem buf) (ChunkBuffer2_end buf) (int (length p)) = Some m"
  shows "ChunkBuffer2_SubmitPacket buf (int (length p)) =
    (if cb_used (cb_append buf m p) = 1 + pkt_blocks p
     then ChunkBuffer2_update_output (ChunkBuffer2_update_input (cb_append buf m p))
     else Some (ChunkBuffer2_update_input (cb_append buf m p)))"
  unfolding ChunkBuffer2_SubmitPacket_def assms len_blocks_length cb_append_def Let_def bind.bind_lunit
  by (simp only: update_input_fields)

lemma cb_append_mem: "cb_append (buf\<lparr>cb_mem := m1\<rparr>) m p = cb_append buf m p"
  by (simp add: cb_append_def Let_def)

lemma submit_core_linear:
  assumes core: "cb_core buf pkts" and nw: "\<not> cb_wrapped buf" and free: "0 < cb_free buf"
    and m: "length m = length (cb_mem buf)" "chunk_at m (ChunkBuffer2_end buf) p"
      "\<And>a b. b \<le> ChunkBuffer2_end buf \<Longrightarrow> agree (cb_mem buf) m a b"
    and p: "pkt_blocks p \<le> cb_free buf - 1"
  shows "cb_core (cb_append buf m p) (pkts @ [p])"
proof -
  let ?e = "ChunkBuffer2_end buf" and ?lim = "cb_lim buf"
  have e: "?e = cb_start buf + cb_used buf" "0 \<le> ?e" "?e \<le> ?lim"
    using nw cb_core_end [OF core] by (simp_all add: cb_wrapped_end)
  have sh: "cb_shape buf" and wrap: "cb_wrap buf = cb_size buf"
    and lay: "layout (cb_mem buf) ?lim (cb_start buf) pkts ?e"
    using core nw e by (auto simp: cb_core_def cb_data_def)
  have fr: "cb_free buf = cb_size buf - ?e" using nw by (simp add: cb_free_def)
  have st: "0 \<le> cb_start buf" "cb_start buf < cb_size buf" "0 \<le> cb_mtu buf"
    using sh wrap by (simp_all add: cb_shape_def)
  have lay': "layout m ?lim (cb_start buf) (pkts @ [p]) (?e + (1 + pkt_blocks p))"
    using layout_agree [OF m(3) _ st(1) lay] m(2) e(3) by (auto simp: layout_append)
  have u: "0 \<le> cb_used buf" using cb_core_end [OF core] by simp
  note nn = pkt_blocks_nonneg [of p]
  show ?thesis
  proof (cases "cb_mtu buf > cb_size buf - (?e + 1 + pkt_blocks p) - 1")
    case True
    then show ?thesis
      using sh wrap lay' fr p st e u nn m(1)
      by (simp add: cb_core_def cb_shape_def cb_data_def cb_wrapped_def cb_lim_def Let_def add.assoc
          cb_append_def)
        (intro exI [of _ "pkts @ [p]"] exI [of _ "[]"], simp add: algebra_simps)
  next
    case False
    have "cb_mtu buf < cb_size buf" using sh by (simp add: cb_shape_def)
    then show ?thesis
      using False sh wrap lay' fr p st e u m(1)
      by (simp add: cb_core_def cb_shape_def cb_data_def cb_wrapped_def cb_lim_def Let_def add.assoc
          cb_append_def)
  qed
qed

lemma submit_core_wrapped:
  assumes core: "cb_core buf pkts" and wr: "cb_wrapped buf"
    and m: "length m = length (cb_mem buf)" "chunk_at m (ChunkBuffer2_end buf) p"
      "\<And>a b. b \<le> ChunkBuffer2_end buf \<or> ChunkBuffer2_end buf + cb_free buf \<le> a \<Longrightarrow> agree (cb_mem buf) m a b"
    and p: "pkt_blocks p \<le> cb_free buf - 1"
  shows "cb_core (cb_append buf m p) (pkts @ [p])"
proof -
  let ?e = "ChunkBuffer2_end buf" and ?lim = "cb_lim buf"
  have e: "?e = cb_used buf - (cb_wrap buf - cb_start buf)" "0 \<le> ?e" "?e \<le> ?lim"
    using wr cb_core_end [OF core] by (simp_all add: cb_wrapped_end)
  have sh: "cb_shape buf" using core by (simp add: cb_core_def)
  obtain ps qs where pk: "pkts = ps @ qs"
    and lp: "layout (cb_mem buf) ?lim (cb_start buf) ps (cb_wrap buf)"
    and lq: "layout (cb_mem buf) ?lim 0 qs ?e" and es: "?e \<le> cb_start buf"
    using core wr e by (auto simp: cb_core_def cb_data_def)
  have fr: "cb_free buf = cb_start buf - ?e" using wr by (simp add: cb_free_def)
  have st: "0 \<le> cb_start buf" using sh by (simp add: cb_shape_def)
  have lp': "layout m ?lim (cb_start buf) ps (cb_wrap buf)"
    using layout_agree [OF m(3) _ st lp, of "cb_start buf"] fr by simp
  have "layout m ?lim 0 qs ?e"
    using layout_agree [OF m(3) _ _ lq, of 0] by simp
  then have lq': "layout m ?lim 0 (qs @ [p]) (?e + (1 + pkt_blocks p))"
    using m(2) e(3) by (auto simp: layout_append)
  have nn: "0 \<le> pkt_blocks p" by simp
  have used: "cb_used buf + (1 + pkt_blocks p) - (cb_wrap buf - cb_start buf) = ?e + (1 + pkt_blocks p)"
    "cb_wrap buf - cb_start buf \<le> cb_used buf + (1 + pkt_blocks p)"
    "?e + (1 + pkt_blocks p) \<le> cb_start buf"
    using e fr p nn by linarith+
  have lq'': "layout m ?lim 0 (qs @ [p]) (cb_used buf + (1 + pkt_blocks p) - (cb_wrap buf - cb_start buf))"
    unfolding used(1) by (rule lq')
  let ?b = "buf\<lparr>cb_mem := m, cb_used := cb_used buf + (1 + pkt_blocks p)\<rparr>"
  have "cb_data ?b (pkts @ [p])"
    using used lp' lq'' pk
    by (simp add: cb_data_def cb_wrapped_def cb_lim_def)
      (rule exI [of _ ps], rule exI [of _ "qs @ [p]"], simp)
  moreover have "cb_append buf m p = ?b"
  proof -
    have "\<not> cb_used buf + (1 + pkt_blocks p) \<le> cb_wrap buf - cb_start buf" using e(1,2) nn by linarith
    then show ?thesis by (simp add: cb_append_def Let_def)
  qed
  ultimately show ?thesis
    using sh m(1) by (simp add: cb_core_def cb_shape_def)
qed

text \<open>The producer writes \<open>w\<close> at \<open>input_dest\<close> and submits its first \<open>len\<close> bytes.\<close>

definition cb_produce :: "ChunkBuffer2 \<Rightarrow> byte list \<Rightarrow> nat \<Rightarrow> ChunkBuffer2 option" where
  "cb_produce buf w len =
     (case cb_input_dest buf of
        None \<Rightarrow> None
      | Some d \<Rightarrow> (case write_at (cb_mem buf) d w of
          None \<Rightarrow> None
        | Some m \<Rightarrow> ChunkBuffer2_SubmitPacket (buf\<lparr>cb_mem := m\<rparr>) (int len)))"

lemma cb_produce_ok:
  assumes rep: "cb_rep buf pkts" and dest: "cb_input_dest buf \<noteq> None"
    and w: "int (length w) \<le> cb_input_avail buf" and len: "len \<le> length w"
  shows "\<exists>buf'. cb_produce buf w len = Some buf' \<and> cb_rep buf' (pkts @ [take len w]) \<and>
    cb_size buf' = cb_size buf \<and> cb_mtu buf' = cb_mtu buf \<and> cb_start buf' = cb_start buf"
proof -
  let ?e = "ChunkBuffer2_end buf" and ?p = "take len w"
  have core: "cb_core buf pkts" using rep by (simp add: cb_rep_def)
  have free: "0 < cb_free buf" and d: "cb_input_dest buf = Some (nat (4 * (?e + 1)))"
    and av: "cb_input_avail buf = (cb_free buf - 1) * 4"
    using cb_rep_input [OF rep] dest by (simp_all split: if_splits)
  have ef: "?e + cb_free buf \<le> cb_size buf" "0 \<le> ?e" "cb_size buf \<le> 536870912"
      "length (cb_mem buf) = nat (4 * cb_size buf)"
    using core cb_core_end [OF core] by (auto simp: cb_core_def cb_shape_def cb_free_def)
  have lm: "4 * (?e + cb_free buf) \<le> int (length (cb_mem buf))"
    and w': "int (length w) \<le> (cb_free buf - 1) * 4" "int len \<le> INT_MAX"
    using ef w av len by (simp_all add: INT_MAX_def)
  obtain m1 m2 where m1: "write_at (cb_mem buf) (nat (4 * (?e + 1))) w = Some m1"
    and m2: "set_block_len m1 ?e (int len) = Some m2" and l2: "length m2 = length (cb_mem buf)"
    and ch: "chunk_at m2 ?e ?p"
    and ag: "\<And>a b. b \<le> ?e \<or> ?e + cb_free buf \<le> a \<Longrightarrow> agree (cb_mem buf) m2 a b"
    using store_chunk [OF ef(2) free lm w'(1) len w'(2)] by blast
  have pl: "length ?p = len" using len by simp
  have pb: "pkt_blocks ?p \<le> cb_free buf - 1"
    using w'(1) pl len by (intro pkt_blocks_le) simp
  have core': "cb_core (cb_append buf m2 ?p) (pkts @ [?p])"
    using submit_core_linear [OF core _ free l2 ch ag pb] submit_core_wrapped [OF core _ l2 ch ag pb]
    by blast
  let ?b = "ChunkBuffer2_update_input (cb_append buf m2 ?p)"
  have prod: "cb_produce buf w len =
      (if cb_used ?b = 1 + pkt_blocks ?p then ChunkBuffer2_update_output ?b else Some ?b)"
    using d m1 m2 pl submit_append [of "buf\<lparr>cb_mem := m1\<rparr>" ?p m2]
    by (simp add: cb_produce_def cb_append_mem)
  obtain buf' where b': "cb_produce buf w len = Some buf'" "ChunkBuffer2_update_output ?b = Some buf'"
  proof (cases "cb_used buf = 0")
    case True
    then show ?thesis
      using prod update_output_core [of ?b "pkts @ [?p]"] core' that by auto
  next
    case False
    then obtain q qs where q: "pkts = q # qs" using cb_core_end(5) [OF core] by (cases pkts) auto
    have "cb_output_dest buf = Some (nat (4 * (cb_start buf + 1)))" "cb_output_avail buf = int (length q)"
      using cb_rep_output [OF rep] q by simp_all
    then have "ChunkBuffer2_update_output ?b = Some ?b"
      using update_output_core [of ?b "pkts @ [?p]"] core' q by simp
    then show ?thesis using prod False that by simp
  qed
  have "cb_rep buf' (pkts @ [?p])"
    using b'(2) core' by (intro cb_repI [where buf = ?b]) simp_all
  then show ?thesis
    using b' update_output_fields [OF b'(2)] by simp
qed

subsection \<open>Consuming a packet\<close>

definition cb_drop :: "ChunkBuffer2 \<Rightarrow> byte list \<Rightarrow> ChunkBuffer2" where
  "cb_drop buf p =
    (let buf' = buf\<lparr>cb_start := cb_start buf + (1 + pkt_blocks p), cb_used := cb_used buf - (1 + pkt_blocks p)\<rparr>
     in if cb_start buf' = cb_wrap buf' then buf'\<lparr>cb_start := 0, cb_wrap := cb_size buf'\<rparr> else buf')"

lemma cb_drop_fields [simp]:
  "cb_size (cb_drop buf p) = cb_size buf" "cb_mtu (cb_drop buf p) = cb_mtu buf" "cb_mem (cb_drop buf p) = cb_mem buf"
  by (simp_all add: cb_drop_def Let_def)

lemma layout_empty: "layout m lim i ps i \<Longrightarrow> ps = []"
proof (cases ps)
  case (Cons p qs)
  assume "layout m lim i ps i"
  then have "layout m lim (i + (1 + pkt_blocks p)) qs i" using Cons by simp
  from layout_le [OF this] show ?thesis using pkt_blocks_nonneg [of p] by linarith
qed

lemma cb_drop_linear:
  assumes core: "cb_core buf (p # ps)" and nw: "\<not> cb_wrapped buf"
  shows "cb_core (cb_drop buf p) ps" and "\<not> cb_wrapped (cb_drop buf p)"
    and "ChunkBuffer2_end (cb_drop buf p) = ChunkBuffer2_end buf"
proof -
  let ?lim = "cb_lim buf" and ?k = "1 + pkt_blocks p"
  have sh: "cb_shape buf" using core by (simp add: cb_core_def)
  have st: "0 \<le> cb_start buf" "cb_start buf < cb_wrap buf" "0 \<le> cb_mtu buf" "cb_mtu buf < cb_size buf"
    using sh by (simp_all add: cb_shape_def)
  have k: "0 < ?k" using pkt_blocks_nonneg [of p] by linarith
  have lim: "?lim < cb_size buf" using st by (simp add: cb_lim_def)
  have w: "cb_wrap buf = cb_size buf" and e: "cb_start buf + cb_used buf \<le> ?lim"
    and lay: "layout (cb_mem buf) ?lim (cb_start buf + ?k) ps (cb_start buf + cb_used buf)"
    using core nw by (auto simp: cb_core_def cb_data_def)
  have "cb_start buf + ?k \<noteq> cb_wrap buf" using layout_le [OF lay] e lim w by linarith
  then have dr: "cb_drop buf p = buf\<lparr>cb_start := cb_start buf + ?k, cb_used := cb_used buf - ?k\<rparr>"
    by (simp add: cb_drop_def)
  show nw': "\<not> cb_wrapped (cb_drop buf p)" using nw by (simp add: dr cb_wrapped_def)
  show "cb_core (cb_drop buf p) ps"
    using nw' sh lay e w k lim layout_le [OF lay] st unfolding cb_core_def cb_data_def
    by (simp add: dr cb_shape_def cb_lim_def)
  show "ChunkBuffer2_end (cb_drop buf p) = ChunkBuffer2_end buf"
    using nw nw' by (simp add: cb_wrapped_end) (simp add: dr)
qed

lemma cb_drop_wrapped:
  assumes core: "cb_core buf (p # ps)" and wr: "cb_wrapped buf"
  shows "cb_core (cb_drop buf p) ps \<and> ChunkBuffer2_end (cb_drop buf p) = ChunkBuffer2_end buf \<and>
    cb_free buf \<le> cb_free (cb_drop buf p)"
proof -
  let ?lim = "cb_lim buf" and ?k = "1 + pkt_blocks p"
  have sh: "cb_shape buf" using core by (simp add: cb_core_def)
  have st: "0 \<le> cb_start buf" "cb_start buf < cb_wrap buf" "cb_wrap buf \<le> cb_size buf" "0 \<le> cb_mtu buf"
    "cb_mtu buf < cb_size buf"
    using sh by (simp_all add: cb_shape_def)
  have k: "0 < ?k" using pkt_blocks_nonneg [of p] by linarith
  have lim: "?lim < cb_size buf" using st by (simp add: cb_lim_def)
  obtain qs rs where pk: "p # ps = qs @ rs"
    and lq: "layout (cb_mem buf) ?lim (cb_start buf) qs (cb_wrap buf)"
    and lr: "layout (cb_mem buf) ?lim 0 rs (cb_used buf - (cb_wrap buf - cb_start buf))"
    and es: "cb_used buf - (cb_wrap buf - cb_start buf) \<le> cb_start buf"
    using core wr by (auto simp: cb_core_def cb_data_def)
  then obtain qs' where q: "qs = p # qs'" using st(2) by (cases qs) auto
  have lq': "layout (cb_mem buf) ?lim (cb_start buf + ?k) qs' (cb_wrap buf)" and sl: "cb_start buf \<le> ?lim"
    using lq q by simp_all
  show ?thesis
  proof (cases "cb_start buf + ?k = cb_wrap buf")
    case eq: True
    then have rs: "ps = rs" using lq' layout_empty [of _ _ "cb_wrap buf" qs'] pk q by simp
    have u: "cb_used buf - ?k = cb_used buf - (cb_wrap buf - cb_start buf)" using eq by simp
    have dr: "cb_drop buf p = buf\<lparr>cb_start := 0, cb_wrap := cb_size buf, cb_used := cb_used buf - ?k\<rparr>"
      using eq by (simp add: cb_drop_def)
    have "cb_core (cb_drop buf p) ps"
      using sh lr es sl lim rs st layout_le [OF lr] unfolding dr cb_core_def cb_data_def u
      by (simp add: cb_shape_def cb_wrapped_def cb_lim_def)
    moreover have nw: "\<not> cb_wrapped (cb_drop buf p)"
      using es sl lim unfolding dr cb_wrapped_def u by simp
    ultimately show ?thesis
      using wr st u by (simp add: cb_wrapped_end cb_free_def) (simp add: dr)
  next
    case ne: False
    then have lt: "cb_start buf + ?k < cb_wrap buf" using layout_le [OF lq'] by simp
    have u: "cb_used buf - ?k - (cb_wrap buf - (cb_start buf + ?k)) = cb_used buf - (cb_wrap buf - cb_start buf)"
      by simp
    have dr: "cb_drop buf p = buf\<lparr>cb_start := cb_start buf + ?k, cb_used := cb_used buf - ?k\<rparr>"
      using ne by (simp add: cb_drop_def)
    have wr': "cb_wrapped (cb_drop buf p)" using wr by (simp add: dr cb_wrapped_def)
    moreover have "cb_shape (cb_drop buf p)" using sh lt k by (simp add: dr cb_shape_def)
    moreover have "cb_lim (cb_drop buf p) = ?lim" by (simp add: cb_lim_def)
    ultimately have "cb_core (cb_drop buf p) ps"
      using lq' lr es pk q k unfolding cb_core_def cb_data_def
      by (simp add: dr u) (rule exI [of _ qs'], rule exI [of _ rs], simp)
    then show ?thesis
      using wr wr' k by (simp add: cb_wrapped_end cb_free_def) (simp add: dr)
  qed
qed

lemma cb_consume_ok:
  assumes rep: "cb_rep buf (p # ps)"
  shows "\<exists>buf'. ChunkBuffer2_ConsumePacket buf = Some buf' \<and> cb_rep buf' ps \<and>
    cb_size buf' = cb_size buf \<and> cb_mtu buf' = cb_mtu buf \<and>
    ChunkBuffer2_end buf' = ChunkBuffer2_end buf \<and> cb_free buf \<le> cb_free buf'"
proof -
  have core: "cb_core buf (p # ps)" and ui: "ChunkBuffer2_update_input buf = buf"
    using rep by (simp_all add: cb_rep_def)
  have core': "cb_core (cb_drop buf p) ps"
    using cb_drop_linear [OF core] cb_drop_wrapped [OF core] by blast
  define b where "b = (if cb_wrapped buf then ChunkBuffer2_update_input (cb_drop buf p) else cb_drop buf p)"
  have hd: "block_len (cb_mem buf) (cb_start buf) = Some (int (length p))"
    using layout_hd [OF core] by (simp add: chunk_at_def)
  have con: "ChunkBuffer2_ConsumePacket buf = ChunkBuffer2_update_output b"
    unfolding ChunkBuffer2_ConsumePacket_def hd len_blocks_length bind.bind_lunit b_def cb_drop_def
      cb_wrapped_def Let_def ..
  have cb: "cb_core b ps" and f: "cb_size b = cb_size buf" "cb_mtu b = cb_mtu buf"
    using core' by (simp_all add: b_def)
  have "ChunkBuffer2_update_input b = b"
  proof (cases "cb_wrapped buf")
    case True
    then show ?thesis by (simp add: b_def)
  next
    case False
    then have fr: "cb_free (cb_drop buf p) = cb_free buf"
      using cb_drop_linear [OF core] by (simp add: cb_free_def)
    have "cb_input_dest (cb_drop buf p) = cb_input_dest buf" "cb_input_avail (cb_drop buf p) = cb_input_avail buf"
      by (simp_all add: cb_drop_def Let_def)
    then have "ChunkBuffer2_update_input (cb_drop buf p) = cb_drop buf p"
      unfolding update_input_core [OF core'] fr
      using cb_rep_input [OF rep] cb_drop_linear(3) [OF core False]
      by (intro ChunkBuffer2.equality) simp_all
    then show ?thesis using False by (simp add: b_def)
  qed
  moreover obtain buf' where b': "ChunkBuffer2_update_output b = Some buf'"
    using update_output_core [OF cb] by simp
  ultimately have "cb_rep buf' ps" using cb by (intro cb_repI [of b])
  moreover have "ChunkBuffer2_end (cb_drop buf p) = ChunkBuffer2_end buf" "cb_free buf \<le> cb_free (cb_drop buf p)"
    using cb_drop_linear [OF core] cb_drop_wrapped [OF core] by (auto simp: cb_free_def)
  moreover have "ChunkBuffer2_end buf' = ChunkBuffer2_end (cb_drop buf p)" "cb_free buf' = cb_free (cb_drop buf p)"
    using update_output_fields [OF b']
    by (simp_all add: b_def cb_free_def cb_wrapped_def ChunkBuffer2_end_def)
  ultimately show ?thesis
    using con b' f update_output_fields [OF b'] by simp
qed

subsection \<open>Initialisation and capacity\<close>

lemma cb_init_ok:
  assumes m: "length mem = nat (4 * blocks)" and b: "blocks \<le> 536870912"
    and mtu: "int (bdivide_up mtu 4) < blocks"
  shows "\<exists>buf. ChunkBuffer2_Init mem blocks mtu = Some buf \<and> cb_rep buf [] \<and>
    cb_size buf = blocks \<and> cb_mtu buf = int (bdivide_up mtu 4)"
proof -
  let ?b = "\<lparr>cb_mem = mem, cb_size = blocks, cb_wrap = blocks, cb_start = 0, cb_used = 0,
                 cb_mtu = int (bdivide_up mtu 4),
                 cb_input_dest = None, cb_input_avail = 0, cb_output_dest = None, cb_output_avail = 0\<rparr>"
  have t: "to_int (int (bdivide_up mtu 4)) = int (bdivide_up mtu 4)"
    using b mtu by (simp add: INT_MAX_def)
  have "cb_core ?b []"
    using m b mtu by (simp add: cb_core_def cb_shape_def cb_data_def cb_wrapped_def cb_lim_def)
  then have core: "cb_core (ChunkBuffer2_update_input ?b) []" by simp
  obtain buf where bf: "ChunkBuffer2_update_output (ChunkBuffer2_update_input ?b) = Some buf"
    using update_output_core [OF core] by simp
  have "cb_rep buf []" using core bf by (intro cb_repI [of "ChunkBuffer2_update_input ?b"]) simp_all
  then show ?thesis
    using bf t update_output_fields [OF bf] by (simp add: ChunkBuffer2_Init_def)
qed

definition pkts_blocks :: "byte list list \<Rightarrow> int" where
  "pkts_blocks ps = (\<Sum>p\<leftarrow>ps. 1 + pkt_blocks p)"

lemma pkts_blocks_simps [simp]:
  "pkts_blocks [] = 0" "pkts_blocks (p # ps) = 1 + pkt_blocks p + pkts_blocks ps"
  "pkts_blocks (ps @ qs) = pkts_blocks ps + pkts_blocks qs"
  by (simp_all add: pkts_blocks_def)

lemma layout_blocks: "layout m lim i ps j \<Longrightarrow> j = i + pkts_blocks ps"
proof (induction ps arbitrary: i)
  case (Cons p ps)
  then have "layout m lim (i + (1 + pkt_blocks p)) ps j" by simp
  from Cons.IH [OF this] show ?case by simp
qed simp

lemma cb_used_blocks: "cb_core buf pkts \<Longrightarrow> cb_used buf = pkts_blocks pkts"
  by (auto simp: cb_core_def cb_data_def dest!: layout_blocks split: if_splits)

lemma pkts_blocks_bound: "\<forall>p\<in>set ps. pkt_blocks p \<le> k \<Longrightarrow> pkts_blocks ps \<le> (1 + k) * int (length ps)"
  by (induction ps) (auto simp: algebra_simps)

lemma cb_free_wrapped: "cb_wrapped buf \<Longrightarrow> cb_free buf = cb_wrap buf - cb_used buf"
  by (simp add: cb_free_def cb_wrapped_end)

text \<open>A buffer sized for \<open>num\<close> packets offers room for a packet of the maximal length while it holds
  fewer than \<open>num\<close>.\<close>

lemma cb_capacity:
  assumes rep: "cb_rep buf pkts" and size: "(1 + cb_mtu buf) * (int num + 1) \<le> cb_size buf"
    and pk: "\<forall>p\<in>set pkts. pkt_blocks p \<le> cb_mtu buf" and n: "length pkts < num"
  shows "cb_input_dest buf \<noteq> None" and "4 * cb_mtu buf \<le> cb_input_avail buf"
proof -
  let ?k = "1 + cb_mtu buf"
  have core: "cb_core buf pkts" using rep by (simp add: cb_rep_def)
  then have sh: "0 \<le> cb_mtu buf" "cb_wrap buf = cb_size buf \<or> cb_size buf - cb_wrap buf \<le> cb_mtu buf"
    by (auto simp: cb_core_def cb_shape_def)
  have "1 + cb_mtu buf \<le> cb_free buf"
  proof (cases "cb_wrapped buf")
    case True
    have "cb_used buf \<le> ?k * int (length pkts)"
      using pkts_blocks_bound [OF pk] cb_used_blocks [OF core] by simp
    also have "\<dots> \<le> ?k * (int num - 1)" using n sh(1) by (intro mult_left_mono) auto
    finally have "cb_used buf \<le> ?k * (int num + 1) - 2 * ?k" by (simp add: algebra_simps)
    then show ?thesis using size sh cb_free_wrapped [OF True] by auto
  next
    case False
    then show ?thesis
      using cb_core_end(2) [OF core] by (simp add: cb_free_def cb_lim_def)
  qed
  then show "cb_input_dest buf \<noteq> None" and "4 * cb_mtu buf \<le> cb_input_avail buf"
    using cb_rep_input [OF rep] sh(1) by auto
qed

lemma calc_blocks_value:
  assumes "int chunk_len \<le> INT_MAX" and "0 \<le> ChunkBuffer2_calc_blocks chunk_len num"
  shows "ChunkBuffer2_calc_blocks chunk_len num = (1 + int (bdivide_up chunk_len 4)) * (int num + 1)"
    and "ChunkBuffer2_calc_blocks chunk_len num \<le> INT_MAX"
proof -
  have "bdivide_up chunk_len 4 \<le> chunk_len" by (rule bdivide_up_least) simp_all
  then have t: "to_int (int (bdivide_up chunk_len 4)) = int (bdivide_up chunk_len 4)"
    using assms(1) by simp
  then show v: "ChunkBuffer2_calc_blocks chunk_len num = (1 + int (bdivide_up chunk_len 4)) * (int num + 1)"
    using assms(2) by (auto simp: ChunkBuffer2_calc_blocks_def Let_def split: if_splits)
  have "1 + int (bdivide_up chunk_len 4) \<le> INT_MAX div (int num + 1)"
    using assms(2) t by (auto simp: ChunkBuffer2_calc_blocks_def Let_def split: if_splits)
  then have "(1 + int (bdivide_up chunk_len 4)) * (int num + 1) \<le> INT_MAX div (int num + 1) * (int num + 1)"
    by (rule mult_right_mono) simp
  also have "\<dots> \<le> INT_MAX"
    using pos_mod_sign [of "int num + 1" INT_MAX] div_mult_mod_eq [of INT_MAX "int num + 1"] by linarith
  finally show "ChunkBuffer2_calc_blocks chunk_len num \<le> INT_MAX" using v by simp
qed

end
