(* ===== verification/Packet_Buffer_Facts.thy ===== *)
theory Packet_Buffer_Facts
  imports Packet_Buffer Chunk_Facts "HOL-Library.Code_Target_Nat"
begin

text \<open>
  The contract between a packet queue and its clients as a locale, its interpretation on
  \<open>ChunkBuffer2\<close>, and the packet buffer as a transition system: it delivers exactly the packets
  it received, in order, never faults, never has two sends or two receives in progress, and never
  stops receiving while it holds fewer packets than it was sized for.
\<close>

subsection \<open>The interface of a packet queue\<close>

datatype 'w fifo_op = Put 'w | Get

fun fifo_puts :: "'w fifo_op list \<Rightarrow> 'w list" where
  "fifo_puts [] = []"
| "fifo_puts (Put w # ops) = w # fifo_puts ops"
| "fifo_puts (Get # ops) = fifo_puts ops"

text \<open>A client run: \<open>Put\<close> only where there is room, \<open>Get\<close> reads the front and removes it.\<close>

fun fifo_exec :: "('b \<Rightarrow> 'w \<Rightarrow> bool) \<Rightarrow> ('b \<Rightarrow> 'w \<Rightarrow> 'b option) \<Rightarrow> ('b \<Rightarrow> 'a option) \<Rightarrow> ('b \<Rightarrow> 'b option) \<Rightarrow>
    'b \<Rightarrow> 'w fifo_op list \<Rightarrow> ('b \<times> 'a list) option" where
  "fifo_exec room put front get b [] = Some (b, [])"
| "fifo_exec room put front get b (Put w # ops) =
     (if room b w then put b w \<bind> (\<lambda>b'. fifo_exec room put front get b' ops) else None)"
| "fifo_exec room put front get b (Get # ops) = do {
     x \<leftarrow> front b;
     b' \<leftarrow> get b;
     (b'', xs) \<leftarrow> fifo_exec room put front get b' ops;
     Some (b'', x # xs) }"

locale packet_fifo =
  fixes rep :: "'b \<Rightarrow> 'a list \<Rightarrow> bool" and room :: "'b \<Rightarrow> 'w \<Rightarrow> bool" and val :: "'w \<Rightarrow> 'a"
    and put :: "'b \<Rightarrow> 'w \<Rightarrow> 'b option" and front :: "'b \<Rightarrow> 'a option" and get :: "'b \<Rightarrow> 'b option"
  assumes put_rep: "rep b xs \<Longrightarrow> room b w \<Longrightarrow> \<exists>b'. put b w = Some b' \<and> rep b' (xs @ [val w])"
    and front_nil: "rep b [] \<Longrightarrow> front b = None"
    and front_rep: "rep b (x # xs) \<Longrightarrow> front b = Some x"
    and get_rep: "rep b (x # xs) \<Longrightarrow> \<exists>b'. get b = Some b' \<and> rep b' xs"
begin

lemma exec_order:
  assumes "rep b xs" and "fifo_exec room put front get b ops = Some (b', outs)"
  shows "\<exists>xs'. rep b' xs' \<and> xs @ map val (fifo_puts ops) = outs @ xs'"
  using assms
proof (induction ops arbitrary: b xs outs)
  case (Cons op ops)
  show ?case
  proof (cases op)
    case (Put w)
    then have r: "room b w" using Cons.prems(2) by (auto split: if_splits)
    obtain b1 where b1: "put b w = Some b1" "rep b1 (xs @ [val w])" using put_rep [OF Cons.prems(1) r] by auto
    then show ?thesis using Cons.IH [OF b1(2)] Cons.prems(2) Put r by auto
  next
    case Get
    then obtain x b1 ys where x: "front b = Some x" "get b = Some b1"
      and e: "fifo_exec room put front get b1 ops = Some (b', ys)" "outs = x # ys"
      using Cons.prems(2) by (auto split: Option.bind_splits)
    then obtain xs1 where xs: "xs = x # xs1"
      using front_nil front_rep Cons.prems(1) by (cases xs) fastforce+
    then have "rep b1 xs1" using get_rep Cons.prems(1) x(2) by force
    from Cons.IH [OF this e(1)] show ?thesis using xs e(2) Get by auto
  qed
qed simp

lemma get_not_stuck:
  assumes "rep b xs" and "xs \<noteq> []"
  shows "fifo_exec room put front get b [Get] \<noteq> None"
  using assms front_rep get_rep by (cases xs) fastforce+

end

subsection \<open>ChunkBuffer2 is a packet queue\<close>

definition cb_room :: "ChunkBuffer2 \<Rightarrow> byte list \<times> nat \<Rightarrow> bool" where
  "cb_room buf wl \<longleftrightarrow>
     cb_input_dest buf \<noteq> None \<and> int (length (fst wl)) \<le> cb_input_avail buf \<and> snd wl \<le> length (fst wl)"

definition cb_put :: "ChunkBuffer2 \<Rightarrow> byte list \<times> nat \<Rightarrow> ChunkBuffer2 option" where
  "cb_put buf wl = cb_produce buf (fst wl) (snd wl)"

definition cb_front :: "ChunkBuffer2 \<Rightarrow> byte list option" where
  "cb_front buf =
     (case cb_output_dest buf of
        None \<Rightarrow> None
      | Some d \<Rightarrow> read_at (cb_mem buf) d (nat (cb_output_avail buf)))"

lemma cb_front_rep: "cb_rep buf (p # ps) \<Longrightarrow> cb_front buf = Some p"
  using cb_rep_output [of buf "p # ps"] layout_hd [of buf p ps]
  by (simp add: cb_front_def cb_rep_def chunk_at_def)

interpretation cb: packet_fifo cb_rep cb_room "\<lambda>wl. take (snd wl) (fst wl)" cb_put cb_front
  ChunkBuffer2_ConsumePacket
proof unfold_locales
  fix buf xs and wl :: "byte list \<times> nat"
  assume "cb_rep buf xs" "cb_room buf wl"
  then show "\<exists>b'. cb_put buf wl = Some b' \<and> cb_rep b' (xs @ [take (snd wl) (fst wl)])"
    using cb_produce_ok [of buf xs "fst wl" "snd wl"] by (auto simp: cb_room_def cb_put_def)
next
  fix buf
  assume "cb_rep buf []"
  then show "cb_front buf = None" using cb_rep_output [of buf "[]"] by (simp add: cb_front_def)
next
  fix buf x xs
  assume "cb_rep buf (x # xs)"
  then show "cb_front buf = Some x" by (rule cb_front_rep)
next
  fix buf x xs
  assume "cb_rep buf (x # xs)"
  then show "\<exists>b'. ChunkBuffer2_ConsumePacket buf = Some b' \<and> cb_rep b' xs"
    using cb_consume_ok by blast
qed

subsection \<open>The packet buffer as a transition system\<close>

fun pb_recvs :: "pb_out list \<Rightarrow> nat option list" where
  "pb_recvs [] = []"
| "pb_recvs (PB_Recv d # xs) = d # pb_recvs xs"
| "pb_recvs (_ # xs) = pb_recvs xs"

fun pb_sends :: "pb_out list \<Rightarrow> (nat option \<times> int) list" where
  "pb_sends [] = []"
| "pb_sends (PB_Send d n # xs) = (d, n) # pb_sends xs"
| "pb_sends (_ # xs) = pb_sends xs"

text \<open>\<open>pb_reach mtu num pb rs ss inn out\<close>: a buffer for \<open>num\<close> packets of up to \<open>mtu\<close> bytes is now \<open>pb\<close>, with
  the receives \<open>rs\<close> and the sends \<open>ss\<close> in progress; it was given the packets \<open>inn\<close> and has passed on
  \<open>out\<close>. A producer writes up to \<open>mtu\<close> bytes at the pointer it was given and reports how many of them
  are the packet. A consumer reads the bytes when it completes.\<close>

inductive pb_reach ::
  "nat \<Rightarrow> nat \<Rightarrow> PacketBuffer \<Rightarrow> nat option list \<Rightarrow> (nat option \<times> int) list \<Rightarrow> byte list list \<Rightarrow>
   byte list list \<Rightarrow> bool" for mtu num where
  init: "PacketBuffer_Init size_max malloc mtu num = Some (pb, outs) \<Longrightarrow> malloc_ok malloc \<Longrightarrow>
    pb_reach mtu num pb (pb_recvs outs) (pb_sends outs) [] []"
| recv: "pb_reach mtu num pb (Some d # rs) ss inn out \<Longrightarrow> length w \<le> mtu \<Longrightarrow> len \<le> length w \<Longrightarrow>
    write_at (cb_mem (pb_buf pb)) d w = Some m \<Longrightarrow>
    PacketBuffer_input_handler_done (pb\<lparr>pb_buf := (pb_buf pb)\<lparr>cb_mem := m\<rparr>\<rparr>) (int len) = Some (pb', outs) \<Longrightarrow>
    pb_reach mtu num pb' (rs @ pb_recvs outs) (ss @ pb_sends outs) (inn @ [take len w]) out"
| send: "pb_reach mtu num pb rs ((Some d, n) # ss) inn out \<Longrightarrow>
    read_at (cb_mem (pb_buf pb)) d (nat n) = Some bs \<Longrightarrow>
    PacketBuffer_output_handler_done pb = Some (pb', outs) \<Longrightarrow>
    pb_reach mtu num pb' (rs @ pb_recvs outs) (ss @ pb_sends outs) inn (out @ [bs])"

text \<open>The sizes for which byte counts fit an \<^verbatim>\<open>int\<close>.\<close>

definition pb_sizes_ok :: "nat \<Rightarrow> nat \<Rightarrow> bool" where
  "pb_sizes_ok mtu num \<longleftrightarrow> 0 < num \<and> (1 + int (bdivide_up mtu 4)) * (int num + 1) \<le> 536870912"

definition pb_inv ::
  "nat \<Rightarrow> nat \<Rightarrow> PacketBuffer \<Rightarrow> nat option list \<Rightarrow> (nat option \<times> int) list \<Rightarrow> byte list list \<Rightarrow>
   byte list list \<Rightarrow> byte list list \<Rightarrow> bool" where
  "pb_inv mtu num pb rs ss inn out pkts \<longleftrightarrow>
     cb_rep (pb_buf pb) pkts \<and> inn = out @ pkts \<and> pb_input_mtu pb = int mtu \<and>
     cb_mtu (pb_buf pb) = int (bdivide_up mtu 4) \<and>
     cb_size (pb_buf pb) = (1 + int (bdivide_up mtu 4)) * (int num + 1) \<and>
     (\<forall>p\<in>set pkts. length p \<le> mtu) \<and>
     rs = (if int mtu \<le> cb_input_avail (pb_buf pb) then [cb_input_dest (pb_buf pb)] else []) \<and>
     ss = (if pkts = [] then [] else [(cb_output_dest (pb_buf pb), cb_output_avail (pb_buf pb))])"

lemma pb_inv_input:
  assumes "pb_inv mtu num pb rs ss inn out pkts" and "rs \<noteq> []"
  shows "\<exists>d. cb_input_dest (pb_buf pb) = Some d \<and> rs = [Some d] \<and> int mtu \<le> cb_input_avail (pb_buf pb)"
  using assms cb_rep_input [of "pb_buf pb" pkts] by (auto simp: pb_inv_def split: if_splits)

lemma pb_init_inv:
  assumes init: "PacketBuffer_Init size_max malloc mtu num = Some (pb, outs)" and mal: "malloc_ok malloc"
    and sz: "pb_sizes_ok mtu num"
  shows "pb_inv mtu num pb (pb_recvs outs) (pb_sends outs) [] [] []"
proof -
  let ?n = "ChunkBuffer2_calc_blocks mtu num" and ?k = "int (bdivide_up mtu 4)"
  obtain mem buf where n: "0 \<le> ?n" and mem: "BAllocArray size_max malloc (nat ?n) 4 = Some mem"
    and buf: "ChunkBuffer2_Init mem ?n mtu = Some buf"
    and pb: "pb = \<lparr>pb_input_mtu = int mtu, pb_buf = buf\<rparr>" "outs = [PB_Recv (cb_input_dest buf)]"
    using init by (auto simp: PacketBuffer_Init_def Let_def split: if_splits Option.bind_splits)
  have k: "1 + ?k \<le> (1 + ?k) * (int num + 1)" "(1 + ?k) * (int num + 1) \<le> 536870912"
    using sz by (auto simp: pb_sizes_ok_def)
  have "int mtu \<le> INT_MAX"
    using bdivide_up_mult [of 4 mtu] k unfolding INT_MAX_def by linarith
  then have nv: "?n = (1 + ?k) * (int num + 1)" using calc_blocks_value(1) n by blast
  then have "0 < ?n" by simp
  then have "length mem = nat ?n * 4"
    using mem mal by (auto simp: BAllocArray_def malloc_ok_def split: if_splits)
  then have len: "length mem = nat (4 * ?n)" using n by simp
  have "?k < ?n" using nv k(1) by linarith
  then obtain buf' where "ChunkBuffer2_Init mem ?n mtu = Some buf'" "cb_rep buf' []"
      "cb_size buf' = ?n" "cb_mtu buf' = ?k"
    using cb_init_ok [OF len, of mtu] nv k by auto
  then have b: "cb_rep buf []" "cb_size buf = ?n" "cb_mtu buf = ?k" using buf by simp_all
  have "4 * ?k \<le> cb_input_avail buf"
    using cb_capacity [OF b(1), of num] b nv sz by (simp add: pb_sizes_ok_def)
  then have "int mtu \<le> cb_input_avail buf" using bdivide_up_mult [of 4 mtu] by simp
  then show ?thesis using b nv pb by (simp add: pb_inv_def)
qed

lemma pb_recv_step:
  assumes inv: "pb_inv mtu num pb (Some d # rs) ss inn out pkts" and w: "length w \<le> mtu" "len \<le> length w"
  shows "\<exists>m pb' outs. write_at (cb_mem (pb_buf pb)) d w = Some m \<and>
    PacketBuffer_input_handler_done (pb\<lparr>pb_buf := (pb_buf pb)\<lparr>cb_mem := m\<rparr>\<rparr>) (int len) = Some (pb', outs) \<and>
    pb_inv mtu num pb' (rs @ pb_recvs outs) (ss @ pb_sends outs) (inn @ [take len w]) out (pkts @ [take len w])"
proof -
  let ?b = "pb_buf pb"
  have rep: "cb_rep ?b pkts" using inv by (simp add: pb_inv_def)
  have d: "cb_input_dest ?b = Some d" and rs: "rs = []" and av: "int mtu \<le> cb_input_avail ?b"
    using pb_inv_input [OF inv] by auto
  obtain b' where b': "cb_produce ?b w len = Some b'" "cb_rep b' (pkts @ [take len w])"
    "cb_size b' = cb_size ?b" "cb_mtu b' = cb_mtu ?b" "cb_start b' = cb_start ?b"
    using cb_produce_ok [OF rep _ _ w(2)] d av w(1) by auto
  obtain m where m: "write_at (cb_mem ?b) d w = Some m"
    "ChunkBuffer2_SubmitPacket (?b\<lparr>cb_mem := m\<rparr>) (int len) = Some b'"
    using b'(1) d by (auto simp: cb_produce_def split: option.splits)
  let ?outs = "(if cb_input_avail b' \<ge> int mtu then [PB_Recv (cb_input_dest b')] else []) @
       (if cb_output_avail ?b < 0 then [PB_Send (cb_output_dest b') (cb_output_avail b')] else [])"
  have h: "PacketBuffer_input_handler_done (pb\<lparr>pb_buf := ?b\<lparr>cb_mem := m\<rparr>\<rparr>) (int len) =
      Some (pb\<lparr>pb_buf := b'\<rparr>, ?outs)"
    using m(2) inv by (simp add: PacketBuffer_input_handler_done_def pb_inv_def)
  have "pb_inv mtu num (pb\<lparr>pb_buf := b'\<rparr>) (rs @ pb_recvs ?outs) (ss @ pb_sends ?outs)
      (inn @ [take len w]) out (pkts @ [take len w])"
    using inv b' w cb_rep_output [OF rep] cb_rep_output [OF b'(2)] rs
    by (cases pkts) (auto simp: pb_inv_def)
  then show ?thesis using m(1) h by blast
qed

lemma pb_send_step:
  assumes inv: "pb_inv mtu num pb rs ((Some d, n) # ss) inn out pkts"
  shows "\<exists>p ps pb' outs. pkts = p # ps \<and> read_at (cb_mem (pb_buf pb)) d (nat n) = Some p \<and>
    PacketBuffer_output_handler_done pb = Some (pb', outs) \<and>
    pb_inv mtu num pb' (rs @ pb_recvs outs) (ss @ pb_sends outs) inn (out @ [p]) ps"
proof -
  let ?b = "pb_buf pb"
  have rep: "cb_rep ?b pkts" and pk: "pkts \<noteq> []" using inv by (auto simp: pb_inv_def)
  then obtain p ps where p: "pkts = p # ps" by (cases pkts) auto
  then have ss: "ss = []" "cb_output_dest ?b = Some d" "cb_output_avail ?b = n"
    using inv by (simp_all add: pb_inv_def)
  have front: "read_at (cb_mem ?b) d (nat n) = Some p"
    using cb_front_rep [of ?b p ps] rep p ss by (simp add: cb_front_def)
  obtain b' where b': "ChunkBuffer2_ConsumePacket ?b = Some b'" "cb_rep b' ps"
    "cb_size b' = cb_size ?b" "cb_mtu b' = cb_mtu ?b" and e: "ChunkBuffer2_end b' = ChunkBuffer2_end ?b"
    "cb_free ?b \<le> cb_free b'"
    using cb_consume_ok [of ?b p ps] rep p by blast
  have grow: "cb_input_avail ?b \<le> cb_input_avail b'"
    "0 \<le> cb_input_avail ?b \<Longrightarrow> cb_input_dest b' = cb_input_dest ?b"
    using cb_rep_input [OF rep] cb_rep_input [OF b'(2)] e by (auto split: if_splits)
  let ?outs = "(if cb_input_avail ?b < int mtu \<and> cb_input_avail b' \<ge> int mtu
         then [PB_Recv (cb_input_dest b')] else []) @
       (if cb_output_avail b' \<ge> 0 then [PB_Send (cb_output_dest b') (cb_output_avail b')] else [])"
  have h: "PacketBuffer_output_handler_done pb = Some (pb\<lparr>pb_buf := b'\<rparr>, ?outs)"
    using b'(1) inv by (simp add: PacketBuffer_output_handler_done_def pb_inv_def)
  have rs: "rs @ pb_recvs ?outs = (if int mtu \<le> cb_input_avail b' then [cb_input_dest b'] else [])"
    using inv grow by (auto simp: pb_inv_def)
  have "ss @ pb_sends ?outs = (if ps = [] then [] else [(cb_output_dest b', cb_output_avail b')])"
    using ss(1) cb_rep_output [OF b'(2)] by (cases ps) auto
  then have "pb_inv mtu num (pb\<lparr>pb_buf := b'\<rparr>) (rs @ pb_recvs ?outs) (ss @ pb_sends ?outs) inn (out @ [p]) ps"
    using inv b' p rs by (simp add: pb_inv_def)
  then show ?thesis using p front h by blast
qed

lemma pb_reach_inv:
  assumes "pb_reach mtu num pb rs ss inn out" and "pb_sizes_ok mtu num"
  shows "\<exists>pkts. pb_inv mtu num pb rs ss inn out pkts"
  using assms
proof (induction rule: pb_reach.induct)
  case (init size_max malloc pb outs)
  then show ?case using pb_init_inv by blast
next
  case (recv pb d rs ss inn out w len m pb' outs)
  then obtain pkts where inv: "pb_inv mtu num pb (Some d # rs) ss inn out pkts" by blast
  show ?case using pb_recv_step [OF inv recv.hyps(2,3)] recv.hyps(4,5) by auto
next
  case (send pb rs d n ss inn out bs pb' outs)
  then obtain pkts where inv: "pb_inv mtu num pb rs ((Some d, n) # ss) inn out pkts" by blast
  show ?case using pb_send_step [OF inv] send.hyps(2,3) by auto
qed

lemma pb_inv_blocks: "length p \<le> mtu \<Longrightarrow> pkt_blocks p \<le> int (bdivide_up mtu 4)"
  using bdivide_up_mono [of "length p" mtu 4] by (simp add: pkt_blocks_def)

text \<open>Below its number of packets the buffer has room for a full-sized packet, so it is receiving.\<close>

lemma pb_inv_room:
  assumes inv: "pb_inv mtu num pb rs ss inn out pkts" and few: "length pkts < num"
  shows "rs \<noteq> []"
proof -
  have rep: "cb_rep (pb_buf pb) pkts" and mt: "cb_mtu (pb_buf pb) = int (bdivide_up mtu 4)"
    and size: "(1 + cb_mtu (pb_buf pb)) * (int num + 1) \<le> cb_size (pb_buf pb)"
    and pk: "\<forall>p\<in>set pkts. pkt_blocks p \<le> cb_mtu (pb_buf pb)"
    using inv pb_inv_blocks by (auto simp: pb_inv_def)
  have "4 * cb_mtu (pb_buf pb) \<le> cb_input_avail (pb_buf pb)" by (rule cb_capacity [OF rep size pk few])
  then have "int mtu \<le> cb_input_avail (pb_buf pb)" using bdivide_up_mult [of 4 mtu] mt by simp
  then show ?thesis using inv by (simp add: pb_inv_def)
qed

text \<open>C8. The circular buffer is a first-in first-out queue. Start from an initialised \<open>ChunkBuffer2\<close> and perform
  any sequence of submits (where the advertised space is respected) and removals. The packets read
  from the front are exactly the packets submitted, byte for byte and in order; what is left
  is the remaining submitted packets. Headers, data and wrap-around share one block of memory.\<close>

theorem chunk_buffer_fifo:
  assumes "length mem = nat (4 * blocks)" and "blocks \<le> 536870912" and "int (bdivide_up mtu 4) < blocks"
    and "ChunkBuffer2_Init mem blocks mtu = Some buf"
    and "fifo_exec cb_room cb_put cb_front ChunkBuffer2_ConsumePacket buf ops = Some (buf', outs)"
  shows "\<exists>rest. map (\<lambda>wl. take (snd wl) (fst wl)) (fifo_puts ops) = outs @ rest \<and> cb_rep buf' rest"
proof -
  have "cb_rep buf []" using cb_init_ok [OF assms(1-3)] assms(4) by auto
  from cb.exec_order [OF this assms(5)] show ?thesis by auto
qed

text \<open>C9. The packet buffer neither loses, reorders, duplicates nor corrupts packets. In every reachable state the
  packets received are the packets passed on followed by the packets stored; at most
  one receive and one send are in progress; and the bytes a consumer finds at the pointer it was
  given are the first stored packet, although later packets may have arrived in the meantime.\<close>

theorem packet_buffer_fifo:
  assumes "pb_reach mtu num pb rs ss inn out" and "pb_sizes_ok mtu num"
  shows "\<exists>pkts. inn = out @ pkts \<and> cb_rep (pb_buf pb) pkts \<and> length rs \<le> 1 \<and>
    (case ss of
       [] \<Rightarrow> pkts = []
     | [(Some d, n)] \<Rightarrow> pkts \<noteq> [] \<and> read_at (cb_mem (pb_buf pb)) d (nat n) = Some (hd pkts)
     | _ \<Rightarrow> False)"
proof -
  obtain pkts where inv: "pb_inv mtu num pb rs ss inn out pkts" using pb_reach_inv [OF assms] by blast
  then have "case ss of [] \<Rightarrow> pkts = []
     | [(Some d, n)] \<Rightarrow> pkts \<noteq> [] \<and> read_at (cb_mem (pb_buf pb)) d (nat n) = Some (hd pkts) | _ \<Rightarrow> False"
    using cb_rep_output [of "pb_buf pb" pkts] cb_front_rep [of "pb_buf pb" "hd pkts" "tl pkts"]
    by (cases pkts) (auto simp: pb_inv_def cb_front_def)
  then show ?thesis using inv by (auto simp: pb_inv_def)
qed

text \<open>C10. The packet buffer makes progress. While it stores fewer than the \<open>num\<close> packets it was sized for, a
  receive of a full-sized packet is in progress; whenever it stores a packet, a send is in progress;
  and every completion of either is handled without a memory fault.\<close>

theorem packet_buffer_progress:
  assumes "pb_reach mtu num pb rs ss inn out" and "pb_sizes_ok mtu num"
  shows "(length inn < length out + num \<longrightarrow> rs \<noteq> []) \<and> (length out < length inn \<longrightarrow> ss \<noteq> []) \<and>
    (\<forall>d w len. rs = [Some d] \<longrightarrow> length w \<le> mtu \<longrightarrow> len \<le> length w \<longrightarrow>
       (\<exists>m pb' outs. write_at (cb_mem (pb_buf pb)) d w = Some m \<and>
          PacketBuffer_input_handler_done (pb\<lparr>pb_buf := (pb_buf pb)\<lparr>cb_mem := m\<rparr>\<rparr>) (int len) =
            Some (pb', outs))) \<and>
    (ss \<noteq> [] \<longrightarrow> (\<exists>pb' outs. PacketBuffer_output_handler_done pb = Some (pb', outs)))"
proof -
  obtain pkts where inv: "pb_inv mtu num pb rs ss inn out pkts" using pb_reach_inv [OF assms] by blast
  then have rep: "cb_rep (pb_buf pb) pkts" and io: "inn = out @ pkts" by (simp_all add: pb_inv_def)
  have "rs \<noteq> []" if "length inn < length out + num"
    using pb_inv_room [OF inv] that io by simp
  moreover have "ss \<noteq> []" if "length out < length inn" using inv that io by (auto simp: pb_inv_def)
  moreover have "\<exists>pb' outs. PacketBuffer_output_handler_done pb = Some (pb', outs)" if "ss \<noteq> []"
  proof -
    have "pkts \<noteq> []" using inv that by (auto simp: pb_inv_def)
    then obtain d n where "ss = [(Some d, n)]"
      using inv cb_rep_output [OF rep] by (cases pkts) (auto simp: pb_inv_def)
    then show ?thesis using pb_send_step [of mtu num pb rs d n "[]"] inv by blast
  qed
  ultimately show ?thesis
    using pb_recv_step [of mtu num pb _ "[]"] inv by blast
qed

subsection \<open>Witnesses\<close>

definition ex_ops :: "(byte list \<times> nat) fifo_op list" where
  "ex_ops = [Put ([1, 2, 3, 4], 4), Put ([5, 6, 7], 0), Get, Put ([8, 9], 2), Get, Get, Put ([10], 1)]"

definition ex_chunk_run :: "(ChunkBuffer2 \<times> byte list list) option" where
  "ex_chunk_run = ChunkBuffer2_Init (replicate 16 0) 4 4 \<bind>
     (\<lambda>buf. fifo_exec cb_room cb_put cb_front ChunkBuffer2_ConsumePacket buf ex_ops)"

lemma ex_chunk_run_eval: "map_option snd ex_chunk_run = Some [[1, 2, 3, 4], [], [8, 9]]"
  by code_simp

theorem chunk_buffer_fifo_witness:
  "\<exists>buf' rest. ex_chunk_run = Some (buf', [[1, 2, 3, 4], [], [8, 9]]) \<and> cb_rep buf' rest \<and>
     map (\<lambda>wl. take (snd wl) (fst wl)) (fifo_puts ex_ops) = [[1, 2, 3, 4], [], [8, 9]] @ rest"
proof -
  obtain buf buf' where b: "ChunkBuffer2_Init (replicate 16 0) 4 4 = Some buf"
    and e: "fifo_exec cb_room cb_put cb_front ChunkBuffer2_ConsumePacket buf ex_ops =
      Some (buf', [[1, 2, 3, 4], [], [8, 9]])"
    using ex_chunk_run_eval by (auto simp: ex_chunk_run_def split: Option.bind_splits)
  then have "ex_chunk_run = Some (buf', [[1, 2, 3, 4], [], [8, 9]])" by (simp add: ex_chunk_run_def)
  moreover have "int (bdivide_up 4 4) < 4" by (simp add: bdivide_up_def)
  ultimately show ?thesis
    using chunk_buffer_fifo [OF _ _ _ b e] by fastforce
qed

lemma ex_pb_init:
  "\<exists>pb outs. PacketBuffer_Init 65535 (\<lambda>n. Some (replicate n 0)) 4 1 = Some (pb, outs)"
proof -
  have "PacketBuffer_Init 65535 (\<lambda>n. Some (replicate n 0)) 4 1 \<noteq> None" by code_simp
  then show ?thesis by auto
qed

lemma ex_sizes: "pb_sizes_ok 4 1"
  by code_simp

lemma ex_pb_reach: "\<exists>pb rs ss. pb_reach 4 1 pb rs ss [[1, 2, 3]] []"
proof -
  obtain pb outs where i: "PacketBuffer_Init 65535 (\<lambda>n. Some (replicate n 0)) 4 1 = Some (pb, outs)"
    using ex_pb_init by blast
  have m: "malloc_ok (\<lambda>n. Some (replicate n 0))" by (simp add: malloc_ok_def)
  have r: "pb_reach 4 1 pb (pb_recvs outs) (pb_sends outs) [] []" by (rule pb_reach.init [OF i m])
  have "outs \<noteq> [] \<and> pb_recvs outs \<noteq> []"
    using i by (auto simp: PacketBuffer_Init_def Let_def split: if_splits Option.bind_splits)
  then obtain d where d: "pb_recvs outs = [Some d]"
    using pb_inv_input [OF pb_init_inv [OF i m ex_sizes]] by blast
  then have inv: "pb_inv 4 1 pb (Some d # []) (pb_sends outs) [] [] []"
    using pb_init_inv [OF i m ex_sizes] by simp
  show ?thesis
    using pb_recv_step [OF inv, of "[1, 2, 3]" 3] pb_reach.recv [OF r [unfolded d], of "[1, 2, 3]" 3] by fastforce
qed

theorem packet_buffer_fifo_witness:
  "\<exists>pb rs ss pkts. pb_reach 4 1 pb rs ss [[1, 2, 3]] [] \<and> [[1, 2, 3]] = [] @ pkts \<and>
     cb_rep (pb_buf pb) pkts \<and> length rs \<le> 1"
  using ex_pb_reach packet_buffer_fifo [OF _ ex_sizes] by meson

theorem packet_buffer_progress_witness:
  "\<exists>pb rs ss. pb_reach 4 1 pb rs ss [[1, 2, 3]] [] \<and> ss \<noteq> [] \<and>
     (\<exists>pb' outs. PacketBuffer_output_handler_done pb = Some (pb', outs))"
proof -
  obtain pb rs ss where r: "pb_reach 4 1 pb rs ss [[1, 2, 3]] []" using ex_pb_reach by blast
  have "length ([] :: byte list list) < length [[1, 2, 3 :: byte]]" by simp
  then show ?thesis
    using packet_buffer_progress [OF r ex_sizes] r by blast
qed

end
