(* ===== verification/Flow_Interface.thy ===== *)
theory Flow_Interface
  imports Sakura_Prelude
begin

text \<open>
  The job queue of \<^verbatim>\<open>base/BPending.c\<close> and the four asynchronous interfaces built on it:
  \<^verbatim>\<open>flow/PacketPassInterface\<close>, \<^verbatim>\<open>flow/PacketRecvInterface\<close>, \<^verbatim>\<open>flow/StreamPassInterface\<close> and
  \<^verbatim>\<open>flow/StreamRecvInterface\<close>. A job group is the list of its pending jobs, first to run
  first; jobs are identified by values of a type \<open>'j\<close>. An interface keeps the identities of its jobs.
\<close>

subsection \<open>BPending\<close>

definition BPendingGroup_Init :: "'j list" where
  "BPendingGroup_Init = []"

definition BPendingGroup_HasJobs :: "'j list \<Rightarrow> bool" where
  "BPendingGroup_HasJobs g \<longleftrightarrow> g \<noteq> []"

text \<open>The job to run and the group it leaves.\<close>

fun BPendingGroup_ExecuteJob :: "'j list \<Rightarrow> ('j \<times> 'j list) option" where
  "BPendingGroup_ExecuteJob [] = None"
| "BPendingGroup_ExecuteJob (p # g) = Some (p, g)"

fun BPendingGroup_PeekJob :: "'j list \<Rightarrow> 'j option" where
  "BPendingGroup_PeekJob [] = None"
| "BPendingGroup_PeekJob (p # g) = Some p"

definition BPending_IsSet :: "'j \<Rightarrow> 'j list \<Rightarrow> bool" where
  "BPending_IsSet p g \<longleftrightarrow> p \<in> set g"

definition BPending_Set :: "'j \<Rightarrow> 'j list \<Rightarrow> 'j list" where
  "BPending_Set p g = (let g = (if BPending_IsSet p g then remove1 p g else g) in p # g)"

definition BPending_Unset :: "'j \<Rightarrow> 'j list \<Rightarrow> 'j list" where
  "BPending_Unset p g = (if BPending_IsSet p g then remove1 p g else g)"

definition BPending_Free :: "'j \<Rightarrow> 'j list \<Rightarrow> 'j list" where
  "BPending_Free p g = (if BPending_IsSet p g then remove1 p g else g)"

subsection \<open>PacketPassInterface\<close>

datatype iface_state = STATE_NONE | STATE_OPERATION_PENDING | STATE_BUSY | STATE_DONE_PENDING

record 'j PacketPassInterface =
  ppi_mtu :: int
  ppi_has_cancel :: bool
  ppi_job_operation :: 'j
  ppi_job_requestcancel :: 'j
  ppi_job_done :: 'j
  ppi_job_operation_data :: nat
  ppi_job_operation_len :: int
  ppi_state :: iface_state
  ppi_cancel_requested :: bool

definition PacketPassInterface_Init :: "int \<Rightarrow> 'j \<Rightarrow> 'j \<Rightarrow> 'j \<Rightarrow> 'j PacketPassInterface" where
  "PacketPassInterface_Init mtu jop jcancel jdone =
     \<lparr>ppi_mtu = mtu, ppi_has_cancel = False, ppi_job_operation = jop, ppi_job_requestcancel = jcancel,
      ppi_job_done = jdone, ppi_job_operation_data = 0, ppi_job_operation_len = 0,
      ppi_state = STATE_NONE, ppi_cancel_requested = False\<rparr>"

definition PacketPassInterface_Free :: "'j PacketPassInterface \<Rightarrow> 'j list \<Rightarrow> 'j list" where
  "PacketPassInterface_Free i g =
     BPending_Free (ppi_job_operation i)
       (BPending_Free (ppi_job_requestcancel i) (BPending_Free (ppi_job_done i) g))"

definition PacketPassInterface_EnableCancel :: "'j PacketPassInterface \<Rightarrow> 'j PacketPassInterface" where
  "PacketPassInterface_EnableCancel i = i\<lparr>ppi_has_cancel := True\<rparr>"

definition PacketPassInterface_Done ::
  "'j PacketPassInterface \<Rightarrow> 'j list \<Rightarrow> 'j PacketPassInterface \<times> 'j list" where
  "PacketPassInterface_Done i g =
     (let g = BPending_Unset (ppi_job_requestcancel i) g;
          g = BPending_Set (ppi_job_done i) g
      in (i\<lparr>ppi_state := STATE_DONE_PENDING\<rparr>, g))"

definition PacketPassInterface_Sender_Send ::
  "'j PacketPassInterface \<Rightarrow> nat \<Rightarrow> int \<Rightarrow> 'j list \<Rightarrow> 'j PacketPassInterface \<times> 'j list" where
  "PacketPassInterface_Sender_Send i data data_len g =
     (let i = i\<lparr>ppi_job_operation_data := data, ppi_job_operation_len := data_len\<rparr>;
          g = BPending_Set (ppi_job_operation i) g
      in (i\<lparr>ppi_state := STATE_OPERATION_PENDING, ppi_cancel_requested := False\<rparr>, g))"

definition PacketPassInterface_Sender_RequestCancel ::
  "'j PacketPassInterface \<Rightarrow> 'j list \<Rightarrow> 'j PacketPassInterface \<times> 'j list" where
  "PacketPassInterface_Sender_RequestCancel i g =
     (if ppi_cancel_requested i then (i, g)
      else
        let i = i\<lparr>ppi_cancel_requested := True\<rparr> in
        if ppi_state i = STATE_OPERATION_PENDING
        then let g = BPending_Unset (ppi_job_operation i) g;
                 g = BPending_Set (ppi_job_done i) g
             in (i\<lparr>ppi_state := STATE_DONE_PENDING\<rparr>, g)
        else if ppi_state i = STATE_BUSY then (i, BPending_Set (ppi_job_requestcancel i) g)
        else (i, g))"

text \<open>The jobs: the new state and the call each of them makes.\<close>

datatype ppi_call = CallOperation nat int | CallRequestCancel | CallDone

definition ppi_run_operation :: "'j PacketPassInterface \<Rightarrow> 'j PacketPassInterface \<times> ppi_call" where
  "ppi_run_operation i =
     (i\<lparr>ppi_state := STATE_BUSY\<rparr>, CallOperation (ppi_job_operation_data i) (ppi_job_operation_len i))"

definition ppi_run_requestcancel :: "'j PacketPassInterface \<Rightarrow> 'j PacketPassInterface \<times> ppi_call" where
  "ppi_run_requestcancel i = (i, CallRequestCancel)"

definition ppi_run_done :: "'j PacketPassInterface \<Rightarrow> 'j PacketPassInterface \<times> ppi_call" where
  "ppi_run_done i = (i\<lparr>ppi_state := STATE_NONE\<rparr>, CallDone)"

subsection \<open>PacketRecvInterface\<close>

record 'j PacketRecvInterface =
  pri_mtu :: int
  pri_job_operation :: 'j
  pri_job_done :: 'j
  pri_job_operation_data :: nat
  pri_job_done_len :: int
  pri_state :: iface_state

definition PacketRecvInterface_Init :: "int \<Rightarrow> 'j \<Rightarrow> 'j \<Rightarrow> 'j PacketRecvInterface" where
  "PacketRecvInterface_Init mtu jop jdone =
     \<lparr>pri_mtu = mtu, pri_job_operation = jop, pri_job_done = jdone, pri_job_operation_data = 0,
      pri_job_done_len = 0, pri_state = STATE_NONE\<rparr>"

definition PacketRecvInterface_Free :: "'j PacketRecvInterface \<Rightarrow> 'j list \<Rightarrow> 'j list" where
  "PacketRecvInterface_Free i g =
     BPending_Free (pri_job_operation i) (BPending_Free (pri_job_done i) g)"

definition PacketRecvInterface_Done ::
  "'j PacketRecvInterface \<Rightarrow> int \<Rightarrow> 'j list \<Rightarrow> 'j PacketRecvInterface \<times> 'j list" where
  "PacketRecvInterface_Done i data_len g =
     (i\<lparr>pri_job_done_len := data_len, pri_state := STATE_DONE_PENDING\<rparr>, BPending_Set (pri_job_done i) g)"

definition PacketRecvInterface_Receiver_Recv ::
  "'j PacketRecvInterface \<Rightarrow> nat \<Rightarrow> 'j list \<Rightarrow> 'j PacketRecvInterface \<times> 'j list" where
  "PacketRecvInterface_Receiver_Recv i data g =
     (i\<lparr>pri_job_operation_data := data, pri_state := STATE_OPERATION_PENDING\<rparr>,
      BPending_Set (pri_job_operation i) g)"

definition pri_run_operation :: "'j PacketRecvInterface \<Rightarrow> 'j PacketRecvInterface \<times> nat" where
  "pri_run_operation i = (i\<lparr>pri_state := STATE_BUSY\<rparr>, pri_job_operation_data i)"

definition pri_run_done :: "'j PacketRecvInterface \<Rightarrow> 'j PacketRecvInterface \<times> int" where
  "pri_run_done i = (i\<lparr>pri_state := STATE_NONE\<rparr>, pri_job_done_len i)"

subsection \<open>StreamPassInterface\<close>

record 'j StreamPassInterface =
  spi_job_operation :: 'j
  spi_job_done :: 'j
  spi_job_operation_data :: nat
  spi_job_operation_len :: int
  spi_job_done_len :: int
  spi_state :: iface_state

definition StreamPassInterface_Init :: "'j \<Rightarrow> 'j \<Rightarrow> 'j StreamPassInterface" where
  "StreamPassInterface_Init jop jdone =
     \<lparr>spi_job_operation = jop, spi_job_done = jdone, spi_job_operation_data = 0,
      spi_job_operation_len = 0, spi_job_done_len = 0, spi_state = STATE_NONE\<rparr>"

definition StreamPassInterface_Free :: "'j StreamPassInterface \<Rightarrow> 'j list \<Rightarrow> 'j list" where
  "StreamPassInterface_Free i g =
     BPending_Free (spi_job_operation i) (BPending_Free (spi_job_done i) g)"

definition StreamPassInterface_Done ::
  "'j StreamPassInterface \<Rightarrow> int \<Rightarrow> 'j list \<Rightarrow> 'j StreamPassInterface \<times> 'j list" where
  "StreamPassInterface_Done i data_len g =
     (i\<lparr>spi_job_done_len := data_len, spi_state := STATE_DONE_PENDING\<rparr>, BPending_Set (spi_job_done i) g)"

definition StreamPassInterface_Sender_Send ::
  "'j StreamPassInterface \<Rightarrow> nat \<Rightarrow> int \<Rightarrow> 'j list \<Rightarrow> 'j StreamPassInterface \<times> 'j list" where
  "StreamPassInterface_Sender_Send i data data_len g =
     (i\<lparr>spi_job_operation_data := data, spi_job_operation_len := data_len,
        spi_state := STATE_OPERATION_PENDING\<rparr>,
      BPending_Set (spi_job_operation i) g)"

definition spi_run_operation :: "'j StreamPassInterface \<Rightarrow> 'j StreamPassInterface \<times> nat \<times> int" where
  "spi_run_operation i =
     (i\<lparr>spi_state := STATE_BUSY\<rparr>, spi_job_operation_data i, spi_job_operation_len i)"

definition spi_run_done :: "'j StreamPassInterface \<Rightarrow> 'j StreamPassInterface \<times> int" where
  "spi_run_done i = (i\<lparr>spi_state := STATE_NONE\<rparr>, spi_job_done_len i)"

subsection \<open>StreamRecvInterface\<close>

record 'j StreamRecvInterface =
  sri_job_operation :: 'j
  sri_job_done :: 'j
  sri_job_operation_data :: nat
  sri_job_operation_len :: int
  sri_job_done_len :: int
  sri_state :: iface_state

definition StreamRecvInterface_Init :: "'j \<Rightarrow> 'j \<Rightarrow> 'j StreamRecvInterface" where
  "StreamRecvInterface_Init jop jdone =
     \<lparr>sri_job_operation = jop, sri_job_done = jdone, sri_job_operation_data = 0,
      sri_job_operation_len = 0, sri_job_done_len = 0, sri_state = STATE_NONE\<rparr>"

definition StreamRecvInterface_Free :: "'j StreamRecvInterface \<Rightarrow> 'j list \<Rightarrow> 'j list" where
  "StreamRecvInterface_Free i g =
     BPending_Free (sri_job_operation i) (BPending_Free (sri_job_done i) g)"

definition StreamRecvInterface_Done ::
  "'j StreamRecvInterface \<Rightarrow> int \<Rightarrow> 'j list \<Rightarrow> 'j StreamRecvInterface \<times> 'j list" where
  "StreamRecvInterface_Done i data_len g =
     (i\<lparr>sri_job_done_len := data_len, sri_state := STATE_DONE_PENDING\<rparr>, BPending_Set (sri_job_done i) g)"

definition StreamRecvInterface_Receiver_Recv ::
  "'j StreamRecvInterface \<Rightarrow> nat \<Rightarrow> int \<Rightarrow> 'j list \<Rightarrow> 'j StreamRecvInterface \<times> 'j list" where
  "StreamRecvInterface_Receiver_Recv i data data_len g =
     (i\<lparr>sri_job_operation_data := data, sri_job_operation_len := data_len,
        sri_state := STATE_OPERATION_PENDING\<rparr>,
      BPending_Set (sri_job_operation i) g)"

definition sri_run_operation :: "'j StreamRecvInterface \<Rightarrow> 'j StreamRecvInterface \<times> nat \<times> int" where
  "sri_run_operation i =
     (i\<lparr>sri_state := STATE_BUSY\<rparr>, sri_job_operation_data i, sri_job_operation_len i)"

definition sri_run_done :: "'j StreamRecvInterface \<Rightarrow> 'j StreamRecvInterface \<times> int" where
  "sri_run_done i = (i\<lparr>sri_state := STATE_NONE\<rparr>, sri_job_done_len i)"

end
