(* ===== verification/Flow_Facts.thy ===== *)
theory Flow_Facts
  imports Flow_Interface "HOL-Library.Code_Target_Nat"
begin

text \<open>
  The asynchronous interfaces refine a small protocol automaton. A request is started at most once,
  finished only after it was started, and reported to the requester exactly once; the jobs in the
  queue always agree with the state of the interface, whatever other jobs are queued and run in
  between. The protocol is proved once over a locale and holds for the three interfaces without
  cancellation by interpretation; \<open>PacketPassInterface\<close> has its own automaton with cancellation.
\<close>

subsection \<open>The job queue\<close>

lemma set_BPending_Set [simp]: "distinct g \<Longrightarrow> set (BPending_Set p g) = insert p (set g)"
  by (auto simp: BPending_Set_def BPending_IsSet_def Let_def)

lemma set_BPending_Unset [simp]: "distinct g \<Longrightarrow> set (BPending_Unset p g) = set g - {p}"
  by (auto simp: BPending_Unset_def BPending_IsSet_def)

lemma set_BPending_Free [simp]: "distinct g \<Longrightarrow> set (BPending_Free p g) = set g - {p}"
  by (auto simp: BPending_Free_def BPending_IsSet_def)

lemma distinct_BPending [simp]:
  "distinct g \<Longrightarrow> distinct (BPending_Set p g)" "distinct g \<Longrightarrow> distinct (BPending_Unset p g)"
  "distinct g \<Longrightarrow> distinct (BPending_Free p g)"
  by (auto simp: BPending_Set_def BPending_Unset_def BPending_Free_def BPending_IsSet_def Let_def)

lemma hd_BPending_Set: "BPendingGroup_PeekJob (BPending_Set p g) = Some p"
  by (simp add: BPending_Set_def Let_def)

subsection \<open>Requests without cancellation\<close>

datatype ('r, 'd) iface_event = Requested 'r | Started 'r | Finished 'd | Reported 'd

text \<open>The protocol: a request is started, finished and reported, in this order and with the same
  arguments.\<close>

datatype ('r, 'd) iface_phase = Idle | Asked 'r | Working 'r | Finishing 'd

fun iface_next :: "('r, 'd) iface_phase \<Rightarrow> ('r, 'd) iface_event \<Rightarrow> ('r, 'd) iface_phase option" where
  "iface_next Idle (Requested r) = Some (Asked r)"
| "iface_next (Asked r) (Started r') = (if r' = r then Some (Working r) else None)"
| "iface_next (Working r) (Finished d) = Some (Finishing d)"
| "iface_next (Finishing d) (Reported d') = (if d' = d then Some Idle else None)"
| "iface_next _ _ = None"

fun iface_run :: "('r, 'd) iface_phase \<Rightarrow> ('r, 'd) iface_event list \<Rightarrow> ('r, 'd) iface_phase option" where
  "iface_run p [] = Some p"
| "iface_run p (e # es) = (case iface_next p e of None \<Rightarrow> None | Some p' \<Rightarrow> iface_run p' es)"

lemma iface_run_snoc:
  "iface_run p (es @ [e]) = (case iface_run p es of None \<Rightarrow> None | Some p' \<Rightarrow> iface_next p' e)"
  by (induction p es rule: iface_run.induct) (auto split: option.splits)

text \<open>An interface among other users of its job group. \<open>request\<close> and \<open>finish\<close> are called by its
  two sides; jobs run from the front of the queue; other jobs come and go.\<close>

inductive iface_reach ::
  "('i \<Rightarrow> iface_state) \<Rightarrow> ('i \<Rightarrow> 'j) \<Rightarrow> ('i \<Rightarrow> 'j) \<Rightarrow> ('i \<Rightarrow> 'r \<Rightarrow> 'j list \<Rightarrow> 'i \<times> 'j list) \<Rightarrow>
   ('i \<Rightarrow> 'd \<Rightarrow> 'j list \<Rightarrow> 'i \<times> 'j list) \<Rightarrow> ('i \<Rightarrow> 'i \<times> 'r) \<Rightarrow> ('i \<Rightarrow> 'i \<times> 'd) \<Rightarrow>
   'i \<Rightarrow> 'j list \<Rightarrow> ('r, 'd) iface_event list \<Rightarrow> bool"
  for st jop jdone request finish run_op run_done where
  init: "st i = STATE_NONE \<Longrightarrow> jop i \<noteq> jdone i \<Longrightarrow> distinct g \<Longrightarrow> jop i \<notin> set g \<Longrightarrow> jdone i \<notin> set g \<Longrightarrow>
    iface_reach st jop jdone request finish run_op run_done i g []"
| request: "iface_reach st jop jdone request finish run_op run_done i g log \<Longrightarrow> st i = STATE_NONE \<Longrightarrow>
    request i r g = (i', g') \<Longrightarrow>
    iface_reach st jop jdone request finish run_op run_done i' g' (log @ [Requested r])"
| finish: "iface_reach st jop jdone request finish run_op run_done i g log \<Longrightarrow> st i = STATE_BUSY \<Longrightarrow>
    finish i d g = (i', g') \<Longrightarrow>
    iface_reach st jop jdone request finish run_op run_done i' g' (log @ [Finished d])"
| run_op: "iface_reach st jop jdone request finish run_op run_done i g log \<Longrightarrow>
    BPendingGroup_ExecuteJob g = Some (jop i, g') \<Longrightarrow> run_op i = (i', r) \<Longrightarrow>
    iface_reach st jop jdone request finish run_op run_done i' g' (log @ [Started r])"
| run_done: "iface_reach st jop jdone request finish run_op run_done i g log \<Longrightarrow>
    BPendingGroup_ExecuteJob g = Some (jdone i, g') \<Longrightarrow> run_done i = (i', d) \<Longrightarrow>
    iface_reach st jop jdone request finish run_op run_done i' g' (log @ [Reported d])"
| other_set: "iface_reach st jop jdone request finish run_op run_done i g log \<Longrightarrow>
    j \<noteq> jop i \<Longrightarrow> j \<noteq> jdone i \<Longrightarrow>
    iface_reach st jop jdone request finish run_op run_done i (BPending_Set j g) log"
| other_unset: "iface_reach st jop jdone request finish run_op run_done i g log \<Longrightarrow>
    j \<noteq> jop i \<Longrightarrow> j \<noteq> jdone i \<Longrightarrow>
    iface_reach st jop jdone request finish run_op run_done i (BPending_Unset j g) log"
| other_run: "iface_reach st jop jdone request finish run_op run_done i g log \<Longrightarrow>
    BPendingGroup_ExecuteJob g = Some (j, g') \<Longrightarrow> j \<noteq> jop i \<Longrightarrow> j \<noteq> jdone i \<Longrightarrow>
    iface_reach st jop jdone request finish run_op run_done i g' log"

text \<open>What an implementation promises: each operation moves the state on, queues its job, and leaves
  the recorded arguments for that job.\<close>

locale request_interface =
  fixes st :: "'i \<Rightarrow> iface_state" and jop :: "'i \<Rightarrow> 'j" and jdone :: "'i \<Rightarrow> 'j"
    and request :: "'i \<Rightarrow> 'r \<Rightarrow> 'j list \<Rightarrow> 'i \<times> 'j list" and finish :: "'i \<Rightarrow> 'd \<Rightarrow> 'j list \<Rightarrow> 'i \<times> 'j list"
    and run_op :: "'i \<Rightarrow> 'i \<times> 'r" and run_done :: "'i \<Rightarrow> 'i \<times> 'd"
  assumes request_law: "request i r g = (i', g') \<Longrightarrow>
      g' = BPending_Set (jop i) g \<and> st i' = STATE_OPERATION_PENDING \<and> jop i' = jop i \<and> jdone i' = jdone i \<and>
      snd (run_op i') = r"
    and finish_law: "finish i d g = (i', g') \<Longrightarrow>
      g' = BPending_Set (jdone i) g \<and> st i' = STATE_DONE_PENDING \<and> jop i' = jop i \<and> jdone i' = jdone i \<and>
      snd (run_done i') = d"
    and run_op_law: "run_op i = (i', r) \<Longrightarrow> st i' = STATE_BUSY \<and> jop i' = jop i \<and> jdone i' = jdone i"
    and run_done_law: "run_done i = (i', d) \<Longrightarrow> st i' = STATE_NONE \<and> jop i' = jop i \<and> jdone i' = jdone i"
begin

text \<open>The phase of the protocol that the state, the queue and the recorded arguments stand for.\<close>

lemma reach_phase:
  assumes "iface_reach st jop jdone request finish run_op run_done i g log"
  shows "distinct g \<and> jop i \<noteq> jdone i \<and>
    (jop i \<in> set g \<longleftrightarrow> st i = STATE_OPERATION_PENDING) \<and> (jdone i \<in> set g \<longleftrightarrow> st i = STATE_DONE_PENDING) \<and>
    (case st i of
       STATE_NONE \<Rightarrow> iface_run Idle log = Some Idle
     | STATE_OPERATION_PENDING \<Rightarrow> iface_run Idle log = Some (Asked (snd (run_op i)))
     | STATE_BUSY \<Rightarrow> (\<exists>r. iface_run Idle log = Some (Working r))
     | STATE_DONE_PENDING \<Rightarrow> iface_run Idle log = Some (Finishing (snd (run_done i))))"
  using assms
proof (induction rule: iface_reach.induct)
  case (request i g log r i' g')
  then show ?case using request_law [OF request.hyps(3)] by (auto simp: iface_run_snoc)
next
  case (finish i g log d i' g')
  then show ?case using finish_law [OF finish.hyps(3)] by (auto simp: iface_run_snoc)
next
  case (run_op i g log g' i' r)
  then have "g = jop i # g'" by (cases g) auto
  then show ?case using run_op run_op_law [OF run_op.hyps(3)] by (auto simp: iface_run_snoc)
next
  case (run_done i g log g' i' d)
  then have "g = jdone i # g'" by (cases g) auto
  then show ?case using run_done run_done_law [OF run_done.hyps(3)] by (auto simp: iface_run_snoc)
next
  case (other_run i g log j g')
  then have "g = j # g'" by (cases g) auto
  then show ?case using other_run by auto
qed auto

end

interpretation pri: request_interface pri_state pri_job_operation pri_job_done
  PacketRecvInterface_Receiver_Recv PacketRecvInterface_Done pri_run_operation pri_run_done
  by unfold_locales (auto simp: PacketRecvInterface_Receiver_Recv_def PacketRecvInterface_Done_def
      pri_run_operation_def pri_run_done_def)

interpretation spi: request_interface spi_state spi_job_operation spi_job_done
  "\<lambda>i (d, n). StreamPassInterface_Sender_Send i d n" StreamPassInterface_Done spi_run_operation spi_run_done
  by unfold_locales (auto simp: StreamPassInterface_Sender_Send_def StreamPassInterface_Done_def
      spi_run_operation_def spi_run_done_def)

interpretation sri: request_interface sri_state sri_job_operation sri_job_done
  "\<lambda>i (d, n). StreamRecvInterface_Receiver_Recv i d n" StreamRecvInterface_Done sri_run_operation sri_run_done
  by unfold_locales (auto simp: StreamRecvInterface_Receiver_Recv_def StreamRecvInterface_Done_def
      sri_run_operation_def sri_run_done_def)

subsection \<open>PacketPassInterface: requests with cancellation\<close>

datatype ppi_event =
  PSend nat int | PCancel | PStarted nat int | PCancelCalled | PDone | PReported

text \<open>The protocol with cancellation. A request cancelled before it was started is never started; a
  running one has the cancellation passed on at most once.\<close>

datatype ppi_phase = PIdle | PAsked nat int | PWorking bool bool | PFinishing

fun ppi_next :: "ppi_phase \<Rightarrow> ppi_event \<Rightarrow> ppi_phase option" where
  "ppi_next PIdle (PSend d n) = Some (PAsked d n)"
| "ppi_next (PAsked d n) (PStarted d' n') = (if d' = d \<and> n' = n then Some (PWorking False False) else None)"
| "ppi_next (PAsked d n) PCancel = Some PFinishing"
| "ppi_next (PWorking c called) PCancel = Some (PWorking True called)"
| "ppi_next (PWorking c called) PCancelCalled = (if c \<and> \<not> called then Some (PWorking True True) else None)"
| "ppi_next (PWorking c called) PDone = Some PFinishing"
| "ppi_next PFinishing PCancel = Some PFinishing"
| "ppi_next PFinishing PReported = Some PIdle"
| "ppi_next _ _ = None"

fun ppi_run :: "ppi_phase \<Rightarrow> ppi_event list \<Rightarrow> ppi_phase option" where
  "ppi_run p [] = Some p"
| "ppi_run p (e # es) = (case ppi_next p e of None \<Rightarrow> None | Some p' \<Rightarrow> ppi_run p' es)"

lemma ppi_run_snoc:
  "ppi_run p (es @ [e]) = (case ppi_run p es of None \<Rightarrow> None | Some p' \<Rightarrow> ppi_next p' e)"
  by (induction p es rule: ppi_run.induct) (auto split: option.splits)

definition ppi_jobs :: "'j PacketPassInterface \<Rightarrow> 'j set" where
  "ppi_jobs i = {ppi_job_operation i, ppi_job_requestcancel i, ppi_job_done i}"

inductive ppi_reach :: "'j PacketPassInterface \<Rightarrow> 'j list \<Rightarrow> ppi_event list \<Rightarrow> bool" where
  init: "i = PacketPassInterface_EnableCancel (PacketPassInterface_Init mtu jo jc jd) \<Longrightarrow>
    distinct [jo, jc, jd] \<Longrightarrow> distinct g \<Longrightarrow> ppi_jobs i \<inter> set g = {} \<Longrightarrow> ppi_reach i g []"
| send: "ppi_reach i g log \<Longrightarrow> ppi_state i = STATE_NONE \<Longrightarrow>
    PacketPassInterface_Sender_Send i d n g = (i', g') \<Longrightarrow> ppi_reach i' g' (log @ [PSend d n])"
| cancel: "ppi_reach i g log \<Longrightarrow> ppi_state i \<noteq> STATE_NONE \<Longrightarrow>
    PacketPassInterface_Sender_RequestCancel i g = (i', g') \<Longrightarrow> ppi_reach i' g' (log @ [PCancel])"
| finish: "ppi_reach i g log \<Longrightarrow> ppi_state i = STATE_BUSY \<Longrightarrow>
    PacketPassInterface_Done i g = (i', g') \<Longrightarrow> ppi_reach i' g' (log @ [PDone])"
| run_op: "ppi_reach i g log \<Longrightarrow> BPendingGroup_ExecuteJob g = Some (ppi_job_operation i, g') \<Longrightarrow>
    ppi_run_operation i = (i', CallOperation d n) \<Longrightarrow> ppi_reach i' g' (log @ [PStarted d n])"
| run_cancel: "ppi_reach i g log \<Longrightarrow> BPendingGroup_ExecuteJob g = Some (ppi_job_requestcancel i, g') \<Longrightarrow>
    ppi_run_requestcancel i = (i', CallRequestCancel) \<Longrightarrow> ppi_reach i' g' (log @ [PCancelCalled])"
| run_done: "ppi_reach i g log \<Longrightarrow> BPendingGroup_ExecuteJob g = Some (ppi_job_done i, g') \<Longrightarrow>
    ppi_run_done i = (i', CallDone) \<Longrightarrow> ppi_reach i' g' (log @ [PReported])"
| other_set: "ppi_reach i g log \<Longrightarrow> j \<notin> ppi_jobs i \<Longrightarrow> ppi_reach i (BPending_Set j g) log"
| other_unset: "ppi_reach i g log \<Longrightarrow> j \<notin> ppi_jobs i \<Longrightarrow> ppi_reach i (BPending_Unset j g) log"
| other_run: "ppi_reach i g log \<Longrightarrow> BPendingGroup_ExecuteJob g = Some (j, g') \<Longrightarrow> j \<notin> ppi_jobs i \<Longrightarrow>
    ppi_reach i g' log"

definition ppi_jobs_ok :: "'j PacketPassInterface \<Rightarrow> 'j list \<Rightarrow> bool \<Rightarrow> bool" where
  "ppi_jobs_ok i g called \<longleftrightarrow>
     distinct g \<and> distinct [ppi_job_operation i, ppi_job_requestcancel i, ppi_job_done i] \<and>
     (ppi_job_operation i \<in> set g \<longleftrightarrow> ppi_state i = STATE_OPERATION_PENDING) \<and>
     (ppi_job_done i \<in> set g \<longleftrightarrow> ppi_state i = STATE_DONE_PENDING) \<and>
     (ppi_job_requestcancel i \<in> set g \<longleftrightarrow> ppi_state i = STATE_BUSY \<and> ppi_cancel_requested i \<and> \<not> called)"

definition ppi_phase_of :: "'j PacketPassInterface \<Rightarrow> bool \<Rightarrow> ppi_phase" where
  "ppi_phase_of i called =
     (case ppi_state i of
        STATE_NONE \<Rightarrow> PIdle
      | STATE_OPERATION_PENDING \<Rightarrow> PAsked (ppi_job_operation_data i) (ppi_job_operation_len i)
      | STATE_BUSY \<Rightarrow> PWorking (ppi_cancel_requested i) called
      | STATE_DONE_PENDING \<Rightarrow> PFinishing)"

definition ppi_inv :: "'j PacketPassInterface \<Rightarrow> 'j list \<Rightarrow> ppi_event list \<Rightarrow> bool \<Rightarrow> bool" where
  "ppi_inv i g log called \<longleftrightarrow>
     ppi_jobs_ok i g called \<and> ppi_run PIdle log = Some (ppi_phase_of i called) \<and>
     (ppi_state i = STATE_OPERATION_PENDING \<longrightarrow> \<not> ppi_cancel_requested i) \<and>
     (called \<longrightarrow> ppi_cancel_requested i)"

lemmas ppi_inv_simps = ppi_inv_def ppi_jobs_ok_def ppi_phase_of_def ppi_run_snoc

lemma ppi_cancel_inv:
  assumes "ppi_inv i g log called" and "ppi_state i \<noteq> STATE_NONE"
    and "PacketPassInterface_Sender_RequestCancel i g = (i', g')"
  shows "ppi_inv i' g' (log @ [PCancel]) called"
  using assms
  by (cases "ppi_state i")
    (auto simp: ppi_inv_simps PacketPassInterface_Sender_RequestCancel_def Let_def split: if_splits)

text \<open>Only the interface's own jobs in the queue matter to it.\<close>

lemma ppi_inv_queue:
  assumes "ppi_inv i g log c" and "distinct g \<Longrightarrow> distinct g'"
    and "\<And>x. distinct g \<Longrightarrow> x \<in> ppi_jobs i \<Longrightarrow> x \<in> set g' \<longleftrightarrow> x \<in> set g"
  shows "ppi_inv i g' log c"
  using assms by (simp add: ppi_inv_def ppi_jobs_ok_def ppi_jobs_def)

lemma ppi_reach_inv:
  assumes "ppi_reach i g log"
  shows "\<exists>called. ppi_inv i g log called"
  using assms
proof (induction rule: ppi_reach.induct)
  case (init i mtu jo jc jd g)
  then have "ppi_inv i g [] False"
    by (auto simp: ppi_inv_simps PacketPassInterface_EnableCancel_def PacketPassInterface_Init_def ppi_jobs_def)
  then show ?case by blast
next
  case (send i g log d n i' g')
  then have "ppi_inv i' g' (log @ [PSend d n]) False"
    by (auto simp: ppi_inv_simps PacketPassInterface_Sender_Send_def Let_def)
  then show ?case by blast
next
  case (cancel i g log i' g')
  then show ?case using ppi_cancel_inv by blast
next
  case (finish i g log i' g')
  then obtain c where "ppi_inv i g log c" by blast
  then have "ppi_inv i' g' (log @ [PDone]) c"
    using finish by (auto simp: ppi_inv_simps PacketPassInterface_Done_def Let_def)
  then show ?case by blast
next
  case (run_op i g log g' i' d n)
  then have g: "g = ppi_job_operation i # g'" by (cases g) auto
  obtain c where "ppi_inv i g log c" using run_op by blast
  then have "ppi_inv i' g' (log @ [PStarted d n]) False"
    using run_op.hyps(3) g by (auto simp: ppi_inv_simps ppi_run_operation_def)
  then show ?case by blast
next
  case (run_cancel i g log g' i')
  then have g: "g = ppi_job_requestcancel i # g'" by (cases g) auto
  obtain c where "ppi_inv i g log c" using run_cancel by blast
  then have "ppi_inv i' g' (log @ [PCancelCalled]) True"
    using run_cancel.hyps(3) g by (auto simp: ppi_inv_simps ppi_run_requestcancel_def)
  then show ?case by blast
next
  case (run_done i g log g' i')
  then have g: "g = ppi_job_done i # g'" by (cases g) auto
  obtain c where "ppi_inv i g log c" using run_done by blast
  then have "ppi_inv i' g' (log @ [PReported]) c"
    using run_done.hyps(3) g by (auto simp: ppi_inv_simps ppi_run_done_def)
  then show ?case by blast
next
  case (other_set i g log j)
  then obtain c where "ppi_inv i g log c" by blast
  then have "ppi_inv i (BPending_Set j g) log c"
    by (rule ppi_inv_queue) (use other_set.hyps(2) in \<open>auto simp: ppi_inv_simps\<close>)
  then show ?case by blast
next
  case (other_unset i g log j)
  then obtain c where "ppi_inv i g log c" by blast
  then have "ppi_inv i (BPending_Unset j g) log c"
    by (rule ppi_inv_queue) (use other_unset.hyps(2) in \<open>auto simp: ppi_inv_simps\<close>)
  then show ?case by blast
next
  case (other_run i g log j g')
  then have g: "g = j # g'" by (cases g) auto
  from other_run obtain c where "ppi_inv i g log c" by blast
  then have "ppi_inv i g' log c"
    by (rule ppi_inv_queue) (use other_run.hyps(3) in \<open>auto simp: ppi_inv_simps g\<close>)
  then show ?case by blast
qed

text \<open>C14. The packet interface keeps its protocol. Whatever its two sides do within their contract, and however other jobs
  are queued and run in between: a request is started at most once and with the pointer and length
  it was made with, never after it was cancelled; a cancellation is passed on at most once and only
  while the request runs; and every request is reported done exactly once. The jobs in the queue
  determine the state, so a pending request or report cannot be lost.\<close>

theorem packet_interface_protocol:
  assumes "ppi_reach i g log"
  shows "\<exists>called. ppi_run PIdle log = Some (ppi_phase_of i called) \<and> ppi_jobs_ok i g called"
  using ppi_reach_inv [OF assms] by (auto simp: ppi_inv_def)

theorem packet_interface_protocol_witness:
  "\<exists>(i :: nat PacketPassInterface) g called. ppi_reach i g [PSend 7 3, PCancel] \<and>
     ppi_run PIdle [PSend 7 3, PCancel] = Some (ppi_phase_of i called) \<and> ppi_jobs_ok i g called"
proof -
  let ?i0 = "PacketPassInterface_EnableCancel (PacketPassInterface_Init 10 (0 :: nat) 1 2)"
  obtain i1 g1 where s: "PacketPassInterface_Sender_Send ?i0 7 3 [] = (i1, g1)" by (metis surj_pair)
  obtain i2 g2 where c: "PacketPassInterface_Sender_RequestCancel i1 g1 = (i2, g2)" by (metis surj_pair)
  have "ppi_reach ?i0 [] []"
    by (rule ppi_reach.init [OF refl]) (simp_all add: ppi_jobs_def)
  then have "ppi_reach i1 g1 ([] @ [PSend 7 3])"
    by (rule ppi_reach.send [OF _ _ s])
      (simp add: PacketPassInterface_EnableCancel_def PacketPassInterface_Init_def)
  then have "ppi_reach i2 g2 (([] @ [PSend 7 3]) @ [PCancel])"
    using s by (intro ppi_reach.cancel [OF _ _ c]) (auto simp: PacketPassInterface_Sender_Send_def Let_def)
  then have r: "ppi_reach i2 g2 [PSend 7 3, PCancel]" by simp
  from packet_interface_protocol [OF r] r show ?thesis by blast
qed

text \<open>C15. The stream interfaces keep their protocol. For a stream receive interface whose sides respect their
  contract, every receive is started once with its own pointer and length, finished, and reported
  exactly once with the length it was finished with.\<close>

theorem stream_recv_protocol:
  assumes "iface_reach sri_state sri_job_operation sri_job_done
    (\<lambda>i (d, n). StreamRecvInterface_Receiver_Recv i d n) StreamRecvInterface_Done sri_run_operation sri_run_done
    i g log"
  shows "\<exists>p. iface_run Idle log = Some p \<and>
    (sri_job_operation i \<in> set g \<longleftrightarrow> sri_state i = STATE_OPERATION_PENDING) \<and>
    (sri_job_done i \<in> set g \<longleftrightarrow> sri_state i = STATE_DONE_PENDING) \<and>
    (sri_state i = STATE_NONE \<longleftrightarrow> p = Idle)"
  using sri.reach_phase [OF assms] by (cases "sri_state i") auto

theorem stream_recv_protocol_witness:
  "\<exists>(i :: nat StreamRecvInterface) g. iface_reach sri_state sri_job_operation sri_job_done
     (\<lambda>i (d, n). StreamRecvInterface_Receiver_Recv i d n) StreamRecvInterface_Done sri_run_operation sri_run_done
     i g [Requested (5, 8)] \<and>
   (\<exists>p. iface_run Idle [Requested (5 :: nat, 8 :: int)] = Some p \<and> (sri_state i = STATE_NONE \<longleftrightarrow> p = (Idle :: (nat \<times> int, int) iface_phase)))"
proof -
  let ?R = "iface_reach sri_state sri_job_operation sri_job_done
     (\<lambda>i (d, n). StreamRecvInterface_Receiver_Recv i d n) StreamRecvInterface_Done sri_run_operation sri_run_done"
  let ?i0 = "StreamRecvInterface_Init (0 :: nat) 1"
  obtain i1 g1 where s: "(\<lambda>i (d, n). StreamRecvInterface_Receiver_Recv i d n) ?i0 (5, 8) [] = (i1, g1)"
    by (metis surj_pair)
  have "?R ?i0 [] []" by (rule iface_reach.init) (simp_all add: StreamRecvInterface_Init_def)
  then have "?R i1 g1 ([] @ [Requested (5, 8)])"
    by (rule iface_reach.request [where i = ?i0 and g = "[]"])
      (use s in \<open>simp_all add: StreamRecvInterface_Init_def\<close>)
  then have r: "?R i1 g1 [Requested (5, 8)]" by simp
  from stream_recv_protocol [OF r] r show ?thesis by blast
qed

end
