(* ===== verification/Packet_Proto.thy ===== *)
theory Packet_Proto
  imports Byteorder "HOL-Library.Monad_Syntax"
begin

text \<open>
  Packets over a byte stream: the framing of \<^verbatim>\<open>protocol/packetproto.h\<close>, its encoder
  (\<^verbatim>\<open>flow/PacketProtoEncoder.c\<close>), the sender that writes packets to a stream
  (\<^verbatim>\<open>flow/PacketStreamSender.c\<close>) and the decoder (\<^verbatim>\<open>flow/PacketProtoDecoder.c\<close>).
\<close>

abbreviation (input) PP_HEADER :: nat where "PP_HEADER \<equiv> 2"

definition PACKETPROTO_ENCLEN :: "nat \<Rightarrow> nat" where
  "PACKETPROTO_ENCLEN len = PP_HEADER + len"

definition PACKETPROTO_MAXPAYLOAD :: int where
  "PACKETPROTO_MAXPAYLOAD = UINT16_MAX"

subsection \<open>PacketProtoEncoder\<close>

text \<open>The encoder works in the memory of the packet its consumer asked for; \<open>output_packet\<close> is the
  offset of that packet.\<close>

record PacketProtoEncoder =
  ppe_output_packet :: "nat option"

datatype ppe_out = PPE_Recv nat | PPE_Done nat

definition ppe_output_handler_recv :: "PacketProtoEncoder \<Rightarrow> nat \<Rightarrow> PacketProtoEncoder \<times> ppe_out list" where
  "ppe_output_handler_recv enc data =
     (enc\<lparr>ppe_output_packet := Some data\<rparr>, [PPE_Recv (data + PP_HEADER)])"

definition ppe_input_handler_done ::
  "PacketProtoEncoder \<Rightarrow> byte list \<Rightarrow> nat \<Rightarrow> (PacketProtoEncoder \<times> byte list \<times> ppe_out list) option" where
  "ppe_input_handler_done enc mem in_len = do {
     d \<leftarrow> ppe_output_packet enc;
     m \<leftarrow> write_at mem d (le_bytes 2 (htol16 (of_nat in_len)));
     Some (enc\<lparr>ppe_output_packet := None\<rparr>, m, [PPE_Done (PACKETPROTO_ENCLEN in_len)]) }"

definition PacketProtoEncoder_Init :: PacketProtoEncoder where
  "PacketProtoEncoder_Init = \<lparr>ppe_output_packet = None\<rparr>"

subsection \<open>PacketStreamSender\<close>

text \<open>\<open>pss_in\<close> is the packet the user passed, which it leaves unchanged until the sender is done with
  it.\<close>

record PacketStreamSender =
  pss_in :: "byte list"
  pss_in_used :: int
  pss_in_len :: int

datatype pss_out = PSS_Send "byte list" | PSS_Done

definition pss_send_data :: "PacketStreamSender \<Rightarrow> PacketStreamSender \<times> pss_out list" where
  "pss_send_data s =
     (if pss_in_used s < pss_in_len s
      then (s, [PSS_Send (take (nat (pss_in_len s - pss_in_used s)) (drop (nat (pss_in_used s)) (pss_in s)))])
      else (s\<lparr>pss_in_len := - 1\<rparr>, [PSS_Done]))"

definition pss_input_handler_send ::
  "PacketStreamSender \<Rightarrow> byte list \<Rightarrow> int \<Rightarrow> PacketStreamSender \<times> pss_out list" where
  "pss_input_handler_send s data data_len =
     pss_send_data (s\<lparr>pss_in_len := data_len, pss_in := data, pss_in_used := 0\<rparr>)"

definition pss_output_handler_done :: "PacketStreamSender \<Rightarrow> int \<Rightarrow> PacketStreamSender \<times> pss_out list" where
  "pss_output_handler_done s data_len = pss_send_data (s\<lparr>pss_in_used := pss_in_used s + data_len\<rparr>)"

definition PacketStreamSender_Init :: PacketStreamSender where
  "PacketStreamSender_Init = \<lparr>pss_in = [], pss_in_used = 0, pss_in_len = - 1\<rparr>"

subsection \<open>PacketProtoDecoder\<close>

record PacketProtoDecoder =
  ppd_output_mtu :: nat
  ppd_buf :: "byte list"
  ppd_buf_size :: nat
  ppd_buf_start :: nat
  ppd_buf_used :: nat

text \<open>A packet passed on (offset and length in the buffer), a receive request (offset and available
  bytes), and the error handler.\<close>

datatype ppd_out = PPD_Send nat nat | PPD_Recv nat nat | PPD_Error

definition ppd_receive :: "PacketProtoDecoder \<Rightarrow> ppd_out" where
  "ppd_receive d =
     PPD_Recv (ppd_buf_start d + ppd_buf_used d) (ppd_buf_size d - (ppd_buf_start d + ppd_buf_used d))"

text \<open>Nothing to pass on: move the data to the front if it reaches the end, and ask for more.\<close>

definition ppd_more :: "PacketProtoDecoder \<Rightarrow> (PacketProtoDecoder \<times> ppd_out list) option" where
  "ppd_more d = do {
     d \<leftarrow> (if ppd_buf_start d + ppd_buf_used d = ppd_buf_size d
          then do {
            bs \<leftarrow> read_at (ppd_buf d) (ppd_buf_start d) (ppd_buf_used d);
            m \<leftarrow> write_at (ppd_buf d) 0 bs;
            Some (d\<lparr>ppd_buf := m, ppd_buf_start := 0\<rparr>) }
          else Some d);
     Some (d, [ppd_receive d]) }"

definition process_data :: "PacketProtoDecoder \<Rightarrow> (PacketProtoDecoder \<times> ppd_out list) option" where
  "process_data d =
     (let left = ppd_buf_used d in
      if left < PP_HEADER then ppd_more d
      else do {
        header \<leftarrow> read_at (ppd_buf d) (ppd_buf_start d) PP_HEADER;
        let data = ppd_buf_start d + PP_HEADER;
        let left = left - PP_HEADER;
        let data_len = unat (ltoh16 (le_word header :: u16));
        if data_len > ppd_output_mtu d
        then do {
          let d = d\<lparr>ppd_buf_start := 0, ppd_buf_used := 0\<rparr>;
          Some (d, [ppd_receive d, PPD_Error]) }
        else if left < data_len then ppd_more d
        else Some (d\<lparr>ppd_buf_start := ppd_buf_start d + (PP_HEADER + data_len),
                     ppd_buf_used := ppd_buf_used d - (PP_HEADER + data_len)\<rparr>,
                   [PPD_Send data data_len]) })"

definition ppd_input_handler_done :: "PacketProtoDecoder \<Rightarrow> nat \<Rightarrow> (PacketProtoDecoder \<times> ppd_out list) option" where
  "ppd_input_handler_done d data_len = process_data (d\<lparr>ppd_buf_used := ppd_buf_used d + data_len\<rparr>)"

definition ppd_output_handler_done :: "PacketProtoDecoder \<Rightarrow> (PacketProtoDecoder \<times> ppd_out list) option" where
  "ppd_output_handler_done d = process_data d"

text \<open>\<open>PacketProtoDecoder_Init\<close> for an output with the given MTU; \<^const>\<open>None\<close> where the source returns 0.\<close>

definition PacketProtoDecoder_Init ::
  "(nat \<Rightarrow> byte list option) \<Rightarrow> nat \<Rightarrow> (PacketProtoDecoder \<times> ppd_out list) option" where
  "PacketProtoDecoder_Init malloc mtu =
     (let output_mtu = nat (bmin_int (int mtu) PACKETPROTO_MAXPAYLOAD);
          buf_size = PACKETPROTO_ENCLEN output_mtu
      in do {
        buf \<leftarrow> malloc buf_size;
        Some (\<lparr>ppd_output_mtu = output_mtu, ppd_buf = buf, ppd_buf_size = buf_size,
               ppd_buf_start = 0, ppd_buf_used = 0\<rparr>, [PPD_Recv 0 buf_size]) })"

definition PacketProtoDecoder_Reset :: "PacketProtoDecoder \<Rightarrow> PacketProtoDecoder" where
  "PacketProtoDecoder_Reset d =
     d\<lparr>ppd_buf_start := ppd_buf_start d + ppd_buf_used d, ppd_buf_used := 0\<rparr>"

end
