(* ===== verification/Flow_Nodes.thy ===== *)
theory Flow_Nodes
  imports Packet_Buffer Packet_Proto Flow_Interface
begin

text \<open>
  The small nodes of the packet flow: \<^verbatim>\<open>flow/PacketPassConnector.c\<close>, \<^verbatim>\<open>flow/SinglePacketBuffer.c\<close>,
  \<^verbatim>\<open>flow/BufferWriter.c\<close>, \<^verbatim>\<open>flow/PacketProtoFlow.c\<close> and \<^verbatim>\<open>flowextra/PacketPassInactivityMonitor.c\<close>.
  A node's handlers return its new state and the calls it makes on its neighbours, in order. Packets
  are passed as pointers (offsets) and lengths, as in the source.
\<close>

subsection \<open>PacketPassConnector\<close>

text \<open>An output is identified by a value of type \<open>'o\<close>; \<open>None\<close> is the null pointer.\<close>

record 'o PacketPassConnector =
  ppc_input_mtu :: int
  ppc_in_len :: int
  ppc_in :: nat
  ppc_output :: "'o option"

datatype 'o ppc_out =
    PPC_Send 'o nat int  \<comment> \<open>\<^verbatim>\<open>PacketPassInterface_Sender_Send(o->output, o->in, o->in_len)\<close>\<close>
  | PPC_Done             \<comment> \<open>\<^verbatim>\<open>PacketPassInterface_Done(&o->input)\<close>\<close>

definition ppc_input_handler_send ::
  "'o PacketPassConnector \<Rightarrow> nat \<Rightarrow> int \<Rightarrow> 'o PacketPassConnector \<times> 'o ppc_out list" where
  "ppc_input_handler_send c data data_len =
     (let c = c\<lparr>ppc_in_len := data_len, ppc_in := data\<rparr> in
      (c, case ppc_output c of
            Some out \<Rightarrow> [PPC_Send out (ppc_in c) (ppc_in_len c)]
          | None \<Rightarrow> []))"

definition ppc_output_handler_done :: "'o PacketPassConnector \<Rightarrow> 'o PacketPassConnector \<times> 'o ppc_out list" where
  "ppc_output_handler_done c = (c\<lparr>ppc_in_len := - 1\<rparr>, [PPC_Done])"

definition PacketPassConnector_Init :: "int \<Rightarrow> 'o PacketPassConnector" where
  "PacketPassConnector_Init mtu =
     \<lparr>ppc_input_mtu = mtu, ppc_in_len = - 1, ppc_in = 0, ppc_output = None\<rparr>"

definition PacketPassConnector_ConnectOutput ::
  "'o PacketPassConnector \<Rightarrow> 'o \<Rightarrow> 'o PacketPassConnector \<times> 'o ppc_out list" where
  "PacketPassConnector_ConnectOutput c out =
     (let c = c\<lparr>ppc_output := Some out\<rparr> in
      (c, if ppc_in_len c \<ge> 0 then [PPC_Send out (ppc_in c) (ppc_in_len c)] else []))"

definition PacketPassConnector_DisconnectOutput :: "'o PacketPassConnector \<Rightarrow> 'o PacketPassConnector" where
  "PacketPassConnector_DisconnectOutput c = c\<lparr>ppc_output := None\<rparr>"

subsection \<open>SinglePacketBuffer\<close>

text \<open>The buffer is the block the allocator returned; receives and sends are on its start.\<close>

record SinglePacketBuffer =
  spb_buf :: "byte list"

datatype spb_out = SPB_Recv | SPB_Send int

definition spb_input_handler_done :: "SinglePacketBuffer \<Rightarrow> int \<Rightarrow> spb_out list" where
  "spb_input_handler_done b in_len = [SPB_Send in_len]"

definition spb_output_handler_done :: "SinglePacketBuffer \<Rightarrow> spb_out list" where
  "spb_output_handler_done b = [SPB_Recv]"

definition SinglePacketBuffer_Init ::
  "(nat \<Rightarrow> byte list option) \<Rightarrow> nat \<Rightarrow> (SinglePacketBuffer \<times> spb_out list) option" where
  "SinglePacketBuffer_Init malloc input_mtu =
     (case malloc input_mtu of
        None \<Rightarrow> None
      | Some buf \<Rightarrow> Some (\<lparr>spb_buf = buf\<rparr>, [SPB_Recv]))"

subsection \<open>BufferWriter\<close>

record BufferWriter =
  bw_out_have :: bool
  bw_out :: nat

definition bw_output_handler_recv :: "BufferWriter \<Rightarrow> nat \<Rightarrow> BufferWriter" where
  "bw_output_handler_recv w data = w\<lparr>bw_out_have := True, bw_out := data\<rparr>"

definition BufferWriter_Init :: BufferWriter where
  "BufferWriter_Init = \<lparr>bw_out_have = False, bw_out = 0\<rparr>"

text \<open>\<open>None\<close> is the result 0: no packet can be written now.\<close>

definition BufferWriter_StartPacket :: "BufferWriter \<Rightarrow> nat option" where
  "BufferWriter_StartPacket w = (if \<not> bw_out_have w then None else Some (bw_out w))"

text \<open>The new state and the length passed to \<^verbatim>\<open>PacketRecvInterface_Done\<close>.\<close>

definition BufferWriter_EndPacket :: "BufferWriter \<Rightarrow> nat \<Rightarrow> BufferWriter \<times> nat" where
  "BufferWriter_EndPacket w len = (w\<lparr>bw_out_have := False\<rparr>, len)"

subsection \<open>PacketProtoFlow\<close>

record PacketProtoFlow =
  ppf_ainput :: BufferWriter
  ppf_encoder :: PacketProtoEncoder
  ppf_buffer :: PacketBuffer

definition PacketProtoFlow_Init ::
  "nat \<Rightarrow> (nat \<Rightarrow> byte list option) \<Rightarrow> nat \<Rightarrow> nat \<Rightarrow> (PacketProtoFlow \<times> pb_out list) option" where
  "PacketProtoFlow_Init size_max malloc input_mtu num_packets =
     (let ainput = BufferWriter_Init;
          encoder = PacketProtoEncoder_Init
      in case PacketBuffer_Init size_max malloc (PACKETPROTO_ENCLEN input_mtu) num_packets of
           None \<Rightarrow> None
         | Some (buffer, outs) \<Rightarrow>
             Some (\<lparr>ppf_ainput = ainput, ppf_encoder = encoder, ppf_buffer = buffer\<rparr>, outs))"

subsection \<open>PacketPassInactivityMonitor\<close>

text \<open>The timer is in the reactor's list or not; setting it (again) starts the interval from now, and
  \<open>Force\<close> sets it to expire at once.\<close>

datatype timer_state = TimerOff | TimerInterval | TimerNow

record PacketPassInactivityMonitor =
  pim_has_handler :: bool
  pim_has_cancel :: bool
  pim_timer :: timer_state

datatype pim_out = PIM_Send nat int | PIM_RequestCancel | PIM_Done | PIM_Handler

definition pim_input_handler_send ::
  "PacketPassInactivityMonitor \<Rightarrow> nat \<Rightarrow> int \<Rightarrow> PacketPassInactivityMonitor \<times> pim_out list" where
  "pim_input_handler_send m data data_len = (m\<lparr>pim_timer := TimerOff\<rparr>, [PIM_Send data data_len])"

definition pim_input_handler_requestcancel ::
  "PacketPassInactivityMonitor \<Rightarrow> PacketPassInactivityMonitor \<times> pim_out list" where
  "pim_input_handler_requestcancel m = (m, [PIM_RequestCancel])"

definition pim_output_handler_done ::
  "PacketPassInactivityMonitor \<Rightarrow> PacketPassInactivityMonitor \<times> pim_out list" where
  "pim_output_handler_done m = (m\<lparr>pim_timer := TimerInterval\<rparr>, [PIM_Done])"

definition pim_timer_handler ::
  "PacketPassInactivityMonitor \<Rightarrow> PacketPassInactivityMonitor \<times> pim_out list" where
  "pim_timer_handler m =
     (let m = m\<lparr>pim_timer := TimerInterval\<rparr> in (m, if pim_has_handler m then [PIM_Handler] else []))"

definition PacketPassInactivityMonitor_Init :: "bool \<Rightarrow> bool \<Rightarrow> PacketPassInactivityMonitor" where
  "PacketPassInactivityMonitor_Init output_has_cancel has_handler =
     \<lparr>pim_has_handler = has_handler, pim_has_cancel = output_has_cancel, pim_timer = TimerInterval\<rparr>"

definition PacketPassInactivityMonitor_Free :: "PacketPassInactivityMonitor \<Rightarrow> PacketPassInactivityMonitor" where
  "PacketPassInactivityMonitor_Free m = m\<lparr>pim_timer := TimerOff\<rparr>"

definition PacketPassInactivityMonitor_SetHandler ::
  "PacketPassInactivityMonitor \<Rightarrow> bool \<Rightarrow> PacketPassInactivityMonitor" where
  "PacketPassInactivityMonitor_SetHandler m has_handler = m\<lparr>pim_has_handler := has_handler\<rparr>"

definition PacketPassInactivityMonitor_Force :: "PacketPassInactivityMonitor \<Rightarrow> PacketPassInactivityMonitor" where
  "PacketPassInactivityMonitor_Force m = m\<lparr>pim_timer := TimerNow\<rparr>"

end
