(* ===== verification/Packet_Proto_Facts.thy ===== *)
theory Packet_Proto_Facts
  imports Packet_Proto "HOL-Library.Code_Target_Nat"
begin

text \<open>
  The framing as a codec, stated over a locale of stream codecs; the stream sender writes every
  packet completely whatever the stream accepts at a time; the decoder, driven by arbitrary
  fragments, passes on exactly the packets of the stream and reports an error exactly when the
  stream announces a packet that is too large.
\<close>

subsection \<open>The framing as a codec\<close>

definition pp_encode :: "byte list \<Rightarrow> byte list" where
  "pp_encode p = le_bytes 2 (of_nat (length p) :: u16) @ p"

definition pp_len :: "byte list \<Rightarrow> nat" where
  "pp_len bs = unat (le_word (take 2 bs) :: u16)"

text \<open>One step of parsing: nothing complete yet, an oversized packet, or a packet and the rest.\<close>

datatype 'p framed = Incomplete | Oversized | Frame 'p "byte list"

definition pp_next :: "nat \<Rightarrow> byte list \<Rightarrow> byte list framed" where
  "pp_next mtu bs =
     (if length bs < 2 then Incomplete
      else if pp_len bs > mtu then Oversized
      else if length bs - 2 < pp_len bs then Incomplete
      else Frame (take (pp_len bs) (drop 2 bs)) (drop (2 + pp_len bs) bs))"

lemma length_pp_encode: "length (pp_encode p) = 2 + length p"
  by (simp add: pp_encode_def length_le_bytes)

lemma pp_len_encode: "length p \<le> 65535 \<Longrightarrow> pp_len (pp_encode p @ bs) = length p"
proof -
  assume "length p \<le> 65535"
  moreover have "take 2 (pp_encode p @ bs) = le_bytes 2 (of_nat (length p) :: u16)"
    by (simp add: pp_encode_def length_le_bytes)
  ultimately show ?thesis
    by (simp add: pp_len_def le_word_le_bytes unsigned_of_nat take_bit_nat_eq_self)
qed

lemma pp_next_encode:
  "length p \<le> mtu \<Longrightarrow> mtu \<le> 65535 \<Longrightarrow> pp_next mtu (pp_encode p @ bs) = Frame p bs"
  using length_pp_encode [of p]
  by (simp add: pp_next_def pp_len_encode) (simp add: pp_encode_def length_le_bytes)

lemma pp_next_FrameD:
  assumes "pp_next mtu bs = Frame p rest"
  shows "bs = pp_encode p @ rest" and "length p = pp_len bs" and "length p \<le> mtu"
proof -
  have l: "2 \<le> length bs" "pp_len bs \<le> mtu" "pp_len bs \<le> length bs - 2"
    and p: "p = take (pp_len bs) (drop 2 bs)" and r: "rest = drop (2 + pp_len bs) bs"
    using assms by (auto simp: pp_next_def split: if_splits)
  show len: "length p = pp_len bs" using l p by simp
  show "length p \<le> mtu" using l len by simp
  have "le_bytes 2 (of_nat (length p) :: u16) = take 2 bs"
    using l len by (simp add: pp_len_def le_bytes_le_word)
  moreover have "take (pp_len bs) (drop 2 bs) @ drop (2 + pp_len bs) bs = drop 2 bs"
    using append_take_drop_id [of "pp_len bs" "drop 2 bs"] by (simp add: add.commute)
  ultimately show "bs = pp_encode p @ rest"
    by (simp add: pp_encode_def p r)
qed

text \<open>A codec of packets over a byte stream: what a client of any such framing can rely on.\<close>

locale stream_codec =
  fixes encode :: "'p \<Rightarrow> byte list" and decode1 :: "byte list \<Rightarrow> 'p framed" and ok :: "'p \<Rightarrow> bool"
  assumes decode_encode: "ok p \<Longrightarrow> decode1 (encode p @ bs) = Frame p bs"
    and decode_nil: "decode1 [] = Incomplete"
begin

lemma stream_unique:
  assumes "\<forall>p\<in>set ps. ok p" and "\<forall>q\<in>set qs. ok q"
    and "decode1 u = Incomplete" and "decode1 v = Incomplete"
    and "concat (map encode ps) @ u = concat (map encode qs) @ v"
  shows "ps = qs \<and> u = v"
  using assms
proof (induction ps arbitrary: qs)
  case Nil
  show ?case
  proof (cases qs)
    case (Cons q qs')
    then have "decode1 u = Frame q (concat (map encode qs') @ v)"
      using Nil.prems decode_encode [of q "concat (map encode qs') @ v"] by simp
    then show ?thesis using Nil.prems(3) by simp
  qed (use Nil.prems in simp)
next
  case (Cons p ps)
  have p: "decode1 (concat (map encode (p # ps)) @ u) = Frame p (concat (map encode ps) @ u)"
    using Cons.prems(1) decode_encode [of p "concat (map encode ps) @ u"] by simp
  show ?case
  proof (cases qs)
    case Nil
    then show ?thesis using p Cons.prems(4,5) by simp
  next
    case qs: (Cons q qs')
    then have "decode1 (concat (map encode qs) @ v) = Frame q (concat (map encode qs') @ v)"
      using Cons.prems(2) decode_encode [of q "concat (map encode qs') @ v"] by simp
    then have "p = q \<and> concat (map encode ps) @ u = concat (map encode qs') @ v"
      using p Cons.prems(5) by simp
    then show ?thesis using Cons.IH [of qs'] Cons.prems qs by simp
  qed
qed

end

interpretation pp: stream_codec pp_encode "pp_next (min mtu 65535)" "\<lambda>p. length p \<le> min mtu 65535" for mtu
  by unfold_locales (simp_all add: pp_next_encode, simp add: pp_next_def)

subsection \<open>The decoder\<close>

definition ppd_window :: "PacketProtoDecoder \<Rightarrow> byte list" where
  "ppd_window d = take (ppd_buf_used d) (drop (ppd_buf_start d) (ppd_buf d))"

definition ppd_wf :: "PacketProtoDecoder \<Rightarrow> bool" where
  "ppd_wf d \<longleftrightarrow>
     length (ppd_buf d) = ppd_buf_size d \<and> ppd_buf_size d = 2 + ppd_output_mtu d \<and>
     ppd_output_mtu d \<le> 65535 \<and> ppd_buf_start d + ppd_buf_used d \<le> ppd_buf_size d"

lemma length_ppd_window: "ppd_wf d \<Longrightarrow> length (ppd_window d) = ppd_buf_used d"
  by (auto simp: ppd_wf_def ppd_window_def min_def)

text \<open>What a decoder has done on return from a handler, for the data \<open>w\<close> it holds: it waits for more, with
  space for at least a byte; or passes on a packet that lies in its buffer; or reports an error.\<close>

definition ppd_outcome :: "PacketProtoDecoder \<Rightarrow> ppd_out list \<Rightarrow> byte list \<Rightarrow> bool" where
  "ppd_outcome d outs w \<longleftrightarrow> ppd_wf d \<and>
     (case pp_next (ppd_output_mtu d) w of
        Incomplete \<Rightarrow> outs = [ppd_receive d] \<and> ppd_window d = w \<and>
          ppd_buf_start d + ppd_buf_used d < ppd_buf_size d
      | Oversized \<Rightarrow> outs = [ppd_receive d, PPD_Error]
      | Frame p r \<Rightarrow> (\<exists>off. outs = [PPD_Send off (length p)] \<and> read_at (ppd_buf d) off (length p) = Some p \<and>
          ppd_window d = r))"

lemma pp_next_Incomplete_less:
  "pp_next mtu w = Incomplete \<Longrightarrow> length w < 2 + mtu"
  by (auto simp: pp_next_def split: if_splits)

lemma ppd_more_ok:
  assumes wf: "ppd_wf d" and inc: "pp_next (ppd_output_mtu d) (ppd_window d) = Incomplete"
  shows "\<exists>d'. ppd_more d = Some (d', [ppd_receive d']) \<and> ppd_wf d' \<and> ppd_window d' = ppd_window d \<and>
    ppd_output_mtu d' = ppd_output_mtu d \<and> ppd_buf_start d' + ppd_buf_used d' < ppd_buf_size d'"
proof (cases "ppd_buf_start d + ppd_buf_used d = ppd_buf_size d")
  case True
  let ?w = "ppd_window d"
  let ?d = "d\<lparr>ppd_buf := ?w @ drop (length ?w) (ppd_buf d), ppd_buf_start := 0\<rparr>"
  have l: "length ?w = ppd_buf_used d" by (rule length_ppd_window [OF wf])
  have u: "ppd_buf_used d < ppd_buf_size d"
    using pp_next_Incomplete_less [OF inc] l wf by (simp add: ppd_wf_def)
  have "read_at (ppd_buf d) (ppd_buf_start d) (ppd_buf_used d) = Some ?w"
    using wf by (simp add: read_at_def ppd_window_def ppd_wf_def)
  moreover have "write_at (ppd_buf d) 0 ?w = Some (?w @ drop (length ?w) (ppd_buf d))"
    using wf l by (simp add: write_at_def ppd_wf_def)
  ultimately have "ppd_more d = Some (?d, [ppd_receive ?d])"
    using True by (simp add: ppd_more_def)
  moreover have "ppd_wf ?d \<and> ppd_window ?d = ?w"
    using wf l by (simp add: ppd_wf_def) (simp add: ppd_window_def)
  ultimately show ?thesis using u by auto
next
  case False
  then show ?thesis using wf by (auto simp: ppd_more_def ppd_wf_def)
qed

lemma process_data_ok:
  assumes wf: "ppd_wf d"
  shows "\<exists>d' outs. process_data d = Some (d', outs) \<and> ppd_outcome d' outs (ppd_window d) \<and>
    ppd_output_mtu d' = ppd_output_mtu d"
proof -
  let ?w = "ppd_window d" and ?mtu = "ppd_output_mtu d"
  have l: "length ?w = ppd_buf_used d" by (rule length_ppd_window [OF wf])
  have inb: "ppd_buf_start d + ppd_buf_used d \<le> length (ppd_buf d)" using wf by (simp add: ppd_wf_def)
  have hd: "read_at (ppd_buf d) (ppd_buf_start d) 2 = Some (take 2 ?w)" if "2 \<le> ppd_buf_used d"
    using that inb by (simp add: read_at_def ppd_window_def min_def)
  have len: "unat (ltoh16 (le_word (take 2 ?w) :: u16)) = pp_len ?w"
    by (simp add: pp_len_def ltoh16_def htol16_def)
  show ?thesis
  proof (cases "pp_next ?mtu ?w")
    case Incomplete
    have "process_data d = ppd_more d"
      using Incomplete hd len l by (auto simp: process_data_def pp_next_def Let_def split: if_splits)
    then show ?thesis using ppd_more_ok [OF wf Incomplete] Incomplete by (auto simp: ppd_outcome_def)
  next
    case Oversized
    let ?d = "d\<lparr>ppd_buf_start := 0, ppd_buf_used := 0\<rparr>"
    have "process_data d = Some (?d, [ppd_receive ?d, PPD_Error])"
      using Oversized hd len l by (auto simp: process_data_def pp_next_def Let_def split: if_splits)
    then show ?thesis using Oversized wf by (simp add: ppd_outcome_def ppd_wf_def)
  next
    case (Frame p r)
    let ?d = "d\<lparr>ppd_buf_start := ppd_buf_start d + (2 + length p),
        ppd_buf_used := ppd_buf_used d - (2 + length p)\<rparr>"
    have wl: "2 \<le> length ?w" "length p \<le> length ?w - 2" and p: "length p = pp_len ?w"
      and pr: "p = take (pp_len ?w) (drop 2 ?w)" "r = drop (2 + pp_len ?w) ?w" and m: "pp_len ?w \<le> ?mtu"
      using Frame pp_next_FrameD(2) [OF Frame] by (auto simp: pp_next_def split: if_splits)
    have "process_data d = Some (?d, [PPD_Send (ppd_buf_start d + 2) (length p)])"
      using wl p m hd len l by (simp add: process_data_def Let_def)
    moreover have "read_at (ppd_buf d) (ppd_buf_start d + 2) (length p) = Some p"
    proof -
      have "2 + length p \<le> ppd_buf_used d" using wl l by simp
      from read_at_sub [OF inb this] show ?thesis
        using p pr(1) by (simp flip: ppd_window_def)
    qed
    moreover have "ppd_window ?d = r"
      using p pr(2) l by (simp add: ppd_window_def drop_take add.commute add.left_commute)
    ultimately show ?thesis
      using Frame wf wl l by (auto simp: ppd_outcome_def ppd_wf_def)
  qed
qed

text \<open>\<open>ppd_reach mtu d pend rcvd out\<close>: a decoder for packets of up to \<open>mtu\<close> bytes is now \<open>d\<close>; its last handler
  made the calls \<open>pend\<close>; it was given the stream bytes \<open>rcvd\<close> and the output has taken the packets
  \<open>out\<close>. The user tears the connection down when an error is reported, so no step follows one.\<close>

inductive ppd_reach ::
  "nat \<Rightarrow> PacketProtoDecoder \<Rightarrow> ppd_out list \<Rightarrow> byte list \<Rightarrow> byte list list \<Rightarrow> bool" for mtu where
  init: "PacketProtoDecoder_Init malloc mtu = Some (d, outs) \<Longrightarrow> malloc_ok malloc \<Longrightarrow>
    ppd_reach mtu d outs [] []"
| recv: "ppd_reach mtu d [PPD_Recv off av] rcvd out \<Longrightarrow> bs \<noteq> [] \<Longrightarrow> length bs \<le> av \<Longrightarrow>
    write_at (ppd_buf d) off bs = Some m \<Longrightarrow>
    ppd_input_handler_done (d\<lparr>ppd_buf := m\<rparr>) (length bs) = Some (d', outs) \<Longrightarrow>
    ppd_reach mtu d' outs (rcvd @ bs) out"
| sent: "ppd_reach mtu d [PPD_Send off n] rcvd out \<Longrightarrow> read_at (ppd_buf d) off n = Some p \<Longrightarrow>
    ppd_output_handler_done d = Some (d', outs) \<Longrightarrow>
    ppd_reach mtu d' outs rcvd (out @ [p])"

definition ppd_inv :: "nat \<Rightarrow> PacketProtoDecoder \<Rightarrow> ppd_out list \<Rightarrow> byte list \<Rightarrow> byte list list \<Rightarrow> bool" where
  "ppd_inv mtu d pend rcvd out \<longleftrightarrow>
     ppd_output_mtu d = min mtu 65535 \<and> (\<forall>p\<in>set out. length p \<le> min mtu 65535) \<and>
     (\<exists>w. rcvd = concat (map pp_encode out) @ w \<and> ppd_outcome d pend w)"

lemma ppd_init_inv:
  assumes "PacketProtoDecoder_Init malloc mtu = Some (d, outs)" and "malloc_ok malloc"
  shows "ppd_inv mtu d outs [] []"
proof -
  have m: "nat (bmin_int (int mtu) PACKETPROTO_MAXPAYLOAD) = min mtu 65535"
    by (simp add: PACKETPROTO_MAXPAYLOAD_def UINT16_MAX_def min_def)
  then obtain buf where "malloc (2 + min mtu 65535) = Some buf"
    and "d = \<lparr>ppd_output_mtu = min mtu 65535, ppd_buf = buf, ppd_buf_size = 2 + min mtu 65535,
      ppd_buf_start = 0, ppd_buf_used = 0\<rparr>" and "outs = [PPD_Recv 0 (2 + min mtu 65535)]"
    using assms(1) unfolding PacketProtoDecoder_Init_def Let_def m
    by (auto simp: PACKETPROTO_ENCLEN_def split: Option.bind_splits)
  then show ?thesis
    using assms(2) by (auto simp: ppd_inv_def ppd_outcome_def ppd_wf_def pp_next_def ppd_receive_def
        ppd_window_def malloc_ok_def)
qed

lemma ppd_recv_step:
  assumes inv: "ppd_inv mtu d [PPD_Recv off av] rcvd out" and bs: "length bs \<le> av"
  shows "\<exists>m d' outs. write_at (ppd_buf d) off bs = Some m \<and>
    ppd_input_handler_done (d\<lparr>ppd_buf := m\<rparr>) (length bs) = Some (d', outs) \<and>
    ppd_inv mtu d' outs (rcvd @ bs) out"
proof -
  obtain w where r: "rcvd = concat (map pp_encode out) @ w" and o: "ppd_outcome d [PPD_Recv off av] w"
    and m: "ppd_output_mtu d = min mtu 65535" "\<forall>p\<in>set out. length p \<le> min mtu 65535"
    using inv by (auto simp: ppd_inv_def)
  have wf: "ppd_wf d" and win: "ppd_window d = w" and rc: "ppd_receive d = PPD_Recv off av"
    using o by (auto simp: ppd_outcome_def split: framed.splits)
  have off: "off = ppd_buf_start d + ppd_buf_used d" "av = ppd_buf_size d - off"
    using rc by (auto simp: ppd_receive_def)
  have fit: "off + length bs \<le> length (ppd_buf d)" using off bs wf by (auto simp: ppd_wf_def)
  let ?m = "take off (ppd_buf d) @ bs @ drop (off + length bs) (ppd_buf d)"
  let ?d = "d\<lparr>ppd_buf := ?m, ppd_buf_used := ppd_buf_used d + length bs\<rparr>"
  have wr: "write_at (ppd_buf d) off bs = Some ?m" using fit by (simp add: write_at_def)
  have wf': "ppd_wf ?d" using wf fit off by (simp add: ppd_wf_def)
  have win': "ppd_window ?d = w @ bs"
  proof -
    have "length w = ppd_buf_used d" using length_ppd_window [OF wf] win by simp
    moreover have "drop (ppd_buf_start d) (take off (ppd_buf d)) = w"
      using off win by (simp add: ppd_window_def take_drop add.commute)
    ultimately show ?thesis using fit off by (simp add: ppd_window_def)
  qed
  obtain d' outs where "process_data ?d = Some (d', outs)" "ppd_outcome d' outs (w @ bs)"
    "ppd_output_mtu d' = ppd_output_mtu d"
    using process_data_ok [OF wf'] win' by auto
  then show ?thesis
    using wr r m by (auto simp: ppd_input_handler_done_def ppd_inv_def)
qed

lemma ppd_sent_step:
  assumes inv: "ppd_inv mtu d [PPD_Send off n] rcvd out"
  shows "\<exists>p d' outs. read_at (ppd_buf d) off n = Some p \<and> ppd_output_handler_done d = Some (d', outs) \<and>
    ppd_inv mtu d' outs rcvd (out @ [p])"
proof -
  obtain w where r: "rcvd = concat (map pp_encode out) @ w" and o: "ppd_outcome d [PPD_Send off n] w"
    and m: "ppd_output_mtu d = min mtu 65535" "\<forall>p\<in>set out. length p \<le> min mtu 65535"
    using inv by (auto simp: ppd_inv_def)
  obtain p rest where fr: "pp_next (min mtu 65535) w = Frame p rest" and rd: "read_at (ppd_buf d) off n = Some p"
    and wf: "ppd_wf d" and win: "ppd_window d = rest"
    using o m by (auto simp: ppd_outcome_def ppd_receive_def split: framed.splits)
  obtain d' outs where "process_data d = Some (d', outs)" "ppd_outcome d' outs rest"
    "ppd_output_mtu d' = ppd_output_mtu d"
    using process_data_ok [OF wf] win by auto
  then show ?thesis
    using rd r m pp_next_FrameD(1,3) [OF fr] by (auto simp: ppd_output_handler_done_def ppd_inv_def)
qed

lemma ppd_reach_inv: "ppd_reach mtu d pend rcvd out \<Longrightarrow> ppd_inv mtu d pend rcvd out"
proof (induction rule: ppd_reach.induct)
  case (init malloc d outs)
  then show ?case by (rule ppd_init_inv)
next
  case (recv d off av rcvd out bs m d' outs)
  then show ?case using ppd_recv_step [OF recv.IH recv.hyps(3)] by auto
next
  case (sent d off n rcvd out p d' outs)
  then show ?case using ppd_sent_step [OF sent.IH] by auto
qed

lemma ppd_decodes:
  assumes "ppd_reach mtu d [PPD_Recv off av] (concat (map pp_encode ps)) out"
    and "\<forall>p\<in>set ps. length p \<le> mtu \<and> length p \<le> 65535"
  shows "out = ps"
proof -
  obtain w where r: "concat (map pp_encode ps) = concat (map pp_encode out) @ w"
    and o: "ppd_outcome d [PPD_Recv off av] w" and m: "ppd_output_mtu d = min mtu 65535"
      "\<forall>p\<in>set out. length p \<le> min mtu 65535"
    using ppd_reach_inv [OF assms(1)] by (auto simp: ppd_inv_def)
  have "pp_next (min mtu 65535) w = Incomplete"
    using o m by (auto simp: ppd_outcome_def split: framed.splits)
  moreover have "pp_next (min mtu 65535) [] = Incomplete" by (simp add: pp_next_def)
  ultimately show ?thesis
    using pp.stream_unique [of ps mtu out "[]" w] assms(2) r m(2) by simp
qed

text \<open>C11. The decoder inverts the framing under any fragmentation. When the decoder waits for more data and the bytes
  delivered so far are the encodings of packets that fit its MTU, the packets it has passed on are
  exactly those, in order and byte for byte.\<close>

theorem decoder_roundtrip:
  assumes "ppd_reach mtu d [PPD_Recv off av] (concat (map pp_encode ps)) out"
    and "\<forall>p\<in>set ps. length p \<le> mtu \<and> length p \<le> 65535"
  shows "out = ps"
  using assms by (rule ppd_decodes)

text \<open>C12. The decoder is safe on every stream. In every reachable state, what it passed on is the parse of a
  prefix of the stream. It then either waits for at least one byte, or holds a complete packet
  of at most its MTU at the place it passed on, or has reported an error, which happens only when the
  stream announces a packet longer than the MTU. Both completions run without a memory fault.\<close>

theorem decoder_safe:
  assumes "ppd_reach mtu d pend rcvd out"
  shows "\<exists>w. rcvd = concat (map pp_encode out) @ w \<and>
    (case pend of
       [PPD_Recv off av] \<Rightarrow> 0 < av \<and> pp_next (min mtu 65535) w = Incomplete \<and>
         (\<forall>bs. length bs \<le> av \<longrightarrow> (\<exists>m d' outs. write_at (ppd_buf d) off bs = Some m \<and>
            ppd_input_handler_done (d\<lparr>ppd_buf := m\<rparr>) (length bs) = Some (d', outs)))
     | [PPD_Send off n] \<Rightarrow> n \<le> mtu \<and> (\<exists>p r d' outs. pp_next (min mtu 65535) w = Frame p r \<and>
         read_at (ppd_buf d) off n = Some p \<and> ppd_output_handler_done d = Some (d', outs))
     | [PPD_Recv off av, PPD_Error] \<Rightarrow> pp_next (min mtu 65535) w = Oversized
     | _ \<Rightarrow> False)"
proof -
  have inv: "ppd_inv mtu d pend rcvd out" by (rule ppd_reach_inv [OF assms])
  then obtain w where r: "rcvd = concat (map pp_encode out) @ w" and o: "ppd_outcome d pend w"
    and m: "ppd_output_mtu d = min mtu 65535"
    by (auto simp: ppd_inv_def)
  show ?thesis
  proof (cases "pp_next (min mtu 65535) w")
    case Incomplete
    then have "pend = [ppd_receive d]" "ppd_buf_start d + ppd_buf_used d < ppd_buf_size d"
      using o m by (simp_all add: ppd_outcome_def)
    then show ?thesis
      using r Incomplete ppd_recv_step [of mtu d _ _ rcvd out] inv
      by (intro exI [of _ w]) (fastforce simp: ppd_receive_def)
  next
    case Oversized
    then show ?thesis using o m r by (intro exI [of _ w]) (simp add: ppd_outcome_def ppd_receive_def)
  next
    case (Frame p rest)
    then obtain off where p: "pend = [PPD_Send off (length p)]" "read_at (ppd_buf d) off (length p) = Some p"
      using o m by (auto simp: ppd_outcome_def)
    then show ?thesis
      using r Frame pp_next_FrameD(3) [OF Frame] ppd_sent_step [of mtu d off "length p" rcvd out] inv
      by (intro exI [of _ w]) auto
  qed
qed

subsection \<open>The encoder and the stream sender\<close>

text \<open>The consumer's packet starts at \<open>d\<close>; the producer stores the payload where the encoder asked for it.\<close>

definition ppe_run :: "byte list \<Rightarrow> nat \<Rightarrow> byte list \<Rightarrow> (byte list \<times> nat) option" where
  "ppe_run mem d payload =
     (case ppe_output_handler_recv PacketProtoEncoder_Init d of
        (enc, [PPE_Recv off]) \<Rightarrow> (case write_at mem off payload of
          None \<Rightarrow> None
        | Some m \<Rightarrow> (case ppe_input_handler_done enc m (length payload) of
            Some (enc', m', [PPE_Done n]) \<Rightarrow> map_option (\<lambda>bs. (bs, n)) (read_at m' d n)
          | _ \<Rightarrow> None))
      | _ \<Rightarrow> None)"

lemma ppe_run_ok:
  assumes "d + 2 + length payload \<le> length mem" and "length payload \<le> 65535"
  shows "ppe_run mem d payload = Some (pp_encode payload, 2 + length payload)"
proof -
  let ?h = "le_bytes 2 (of_nat (length payload) :: u16)"
  let ?m = "take (d + 2) mem @ payload @ drop (d + 2 + length payload) mem"
  let ?m' = "take d mem @ ?h @ payload @ drop (d + 2 + length payload) mem"
  have w: "write_at mem (d + 2) payload = Some ?m" using assms(1) by (simp add: write_at_def)
  have "take d ?m = take d mem" "drop (d + 2) ?m = payload @ drop (d + 2 + length payload) mem"
    using assms(1) by (simp_all add: min_def)
  then have "write_at ?m d ?h = Some ?m'"
    using assms(1) by (simp add: write_at_def length_le_bytes)
  moreover have "read_at ?m' d (2 + length payload) = Some (?h @ payload)"
    using assms(1) by (simp add: read_at_def length_le_bytes)
  ultimately show ?thesis
    using w by (simp add: ppe_run_def ppe_output_handler_recv_def ppe_input_handler_done_def
        PacketProtoEncoder_Init_def PACKETPROTO_ENCLEN_def pp_encode_def htol16_def)
qed

text \<open>The stream accepts the given numbers of bytes one after the other. The result is the bytes it took and
  the last calls of the sender.\<close>

fun pss_drive :: "PacketStreamSender \<Rightarrow> pss_out list \<Rightarrow> nat list \<Rightarrow> (byte list \<times> PacketStreamSender \<times> pss_out list) option" where
  "pss_drive s outs [] = Some ([], s, outs)"
| "pss_drive s [PSS_Send bs] (n # ns) =
     (if 0 < n \<and> n \<le> length bs
      then (case pss_output_handler_done s (int n) of
              (s', outs') \<Rightarrow> map_option (\<lambda>(acc, r). (take n bs @ acc, r)) (pss_drive s' outs' ns))
      else None)"
| "pss_drive s outs (n # ns) = None"

definition pss_sending :: "PacketStreamSender \<Rightarrow> byte list \<Rightarrow> nat \<Rightarrow> pss_out list \<Rightarrow> bool" where
  "pss_sending s p k outs \<longleftrightarrow>
     pss_in s = p \<and> pss_in_used s = int k \<and> k \<le> length p \<and>
     (if k < length p then pss_in_len s = int (length p) \<and> outs = [PSS_Send (drop k p)]
      else pss_in_len s = - 1 \<and> outs = [PSS_Done])"

lemma pss_send_data_sending:
  assumes "pss_in s = p" "pss_in_used s = int k" "pss_in_len s = int (length p)" "k \<le> length p"
    and "pss_send_data s = (s', outs)"
  shows "pss_sending s' p k outs"
  using assms by (auto simp: pss_send_data_def pss_sending_def split: if_splits)

lemma pss_drive_sending:
  assumes "pss_sending s p k outs" and "pss_drive s outs ns = Some (acc, s', outs')"
  shows "\<exists>j. acc = take j (drop k p) \<and> pss_sending s' p (k + j) outs'"
  using assms
proof (induction s outs ns arbitrary: k acc rule: pss_drive.induct)
  case (1 s outs)
  then show ?case by (auto intro: exI [of _ 0])
next
  case (2 s bs n ns)
  then have k: "k < length p" "bs = drop k p" and s: "pss_in s = p" "pss_in_used s = int k"
    "pss_in_len s = int (length p)"
    by (auto simp: pss_sending_def split: if_splits)
  obtain s1 outs1 where s1: "pss_output_handler_done s (int n) = (s1, outs1)" by (metis surj_pair)
  have n: "0 < n" "n \<le> length p - k" using 2(3) k by (auto split: if_splits)
  obtain a where a: "pss_drive s1 outs1 ns = Some (a, s', outs')" "acc = take n bs @ a"
    using 2(3) n s1 k by auto
  have "pss_sending s1 p (k + n) outs1"
    using s1 s n k by (intro pss_send_data_sending [of "s\<lparr>pss_in_used := pss_in_used s + int n\<rparr>"])
      (auto simp: pss_output_handler_done_def)
  from 2(1) [OF _ s1 [symmetric] this a(1)] n k
  obtain j where j: "a = take j (drop (k + n) p)" "pss_sending s' p (k + n + j) outs'" by auto
  have "acc = take (n + j) (drop k p)"
    using a(2) j(1) k(2) by (simp add: take_add add.commute [of k n])
  then show ?case using j(2) by (intro exI [of _ "n + j"]) (simp add: add.assoc)
qed (auto simp: pss_sending_def split: if_splits)

lemma pss_completes:
  assumes "pss_input_handler_send s p (int (length p)) = (s1, outs1)"
    and "pss_drive s1 outs1 ns = Some (acc, s2, outs2)"
  shows "acc = take (length acc) p \<and>
    outs2 = (if length acc < length p then [PSS_Send (drop (length acc) p)] else [PSS_Done])"
proof -
  have "pss_sending s1 p 0 outs1"
    using assms(1) by (intro pss_send_data_sending [of "s\<lparr>pss_in_len := int (length p), pss_in := p, pss_in_used := 0\<rparr>"])
      (auto simp: pss_input_handler_send_def)
  from pss_drive_sending [OF this assms(2)]
  obtain j where "acc = take j p" "pss_sending s2 p j outs2" by auto
  then show ?thesis by (auto simp: pss_sending_def min_def split: if_splits)
qed

text \<open>C13. The stream sender writes packets completely. Whatever numbers of bytes the stream accepts at a time, the
  bytes it has taken are a prefix of the packet; the sender then offers exactly the remaining bytes, and
  reports the packet as done exactly when none remain.\<close>

theorem stream_sender_complete:
  assumes "pss_input_handler_send s p (int (length p)) = (s1, outs1)"
    and "pss_drive s1 outs1 ns = Some (acc, s2, outs2)"
  shows "acc = take (length acc) p \<and>
    outs2 = (if length acc < length p then [PSS_Send (drop (length acc) p)] else [PSS_Done])"
  using assms by (rule pss_completes)

subsection \<open>Witnesses\<close>

lemma ex_ppd_reach:
  "\<exists>d off av. ppd_reach 3 d [PPD_Recv off av] (concat (map pp_encode [[7, 8]])) [[7, 8]]"
proof -
  let ?malloc = "\<lambda>n. Some (replicate n (0 :: byte))" and ?bs = "[2, 0, 7, 8] :: byte list"
  obtain d0 where i: "PacketProtoDecoder_Init ?malloc 3 = Some (d0, [PPD_Recv 0 5])"
    and d0: "d0 = \<lparr>ppd_output_mtu = 3, ppd_buf = [0, 0, 0, 0, 0], ppd_buf_size = 5, ppd_buf_start = 0, ppd_buf_used = 0\<rparr>"
    by (simp add: PacketProtoDecoder_Init_def PACKETPROTO_ENCLEN_def PACKETPROTO_MAXPAYLOAD_def
        UINT16_MAX_def Let_def numeral_eq_Suc)
  have "ppd_reach 3 d0 [PPD_Recv 0 5] [] []" by (rule ppd_reach.init [OF i]) (simp add: malloc_ok_def)
  moreover have "write_at (ppd_buf d0) 0 ?bs = Some [2, 0, 7, 8, 0]"
    by (simp add: d0 write_at_def)
  moreover obtain d1 where h: "ppd_input_handler_done (d0\<lparr>ppd_buf := [2, 0, 7, 8, 0]\<rparr>) (length ?bs) =
      Some (d1, [PPD_Send 2 2])" and d1: "d1 =
      \<lparr>ppd_output_mtu = 3, ppd_buf = [2, 0, 7, 8, 0], ppd_buf_size = 5, ppd_buf_start = 4, ppd_buf_used = 0\<rparr>"
    by (simp add: d0 ppd_input_handler_done_def process_data_def read_at_def ltoh16_def htol16_def Let_def)
  ultimately have "ppd_reach 3 d1 [PPD_Send 2 2] ([] @ ?bs) []"
    by (intro ppd_reach.recv [of 3 d0 0 5 "[]" "[]" ?bs]) simp_all
  moreover have "read_at (ppd_buf d1) 2 2 = Some [7, 8]" by (simp add: d1 read_at_def)
  moreover obtain d2 where "ppd_output_handler_done d1 = Some (d2, [PPD_Recv 4 1])"
    by (simp add: d1 ppd_output_handler_done_def process_data_def ppd_more_def ppd_receive_def)
  ultimately have "ppd_reach 3 d2 [PPD_Recv 4 1] ([] @ ?bs) ([] @ [[7, 8]])"
    by (rule ppd_reach.sent)
  then show ?thesis by (auto simp: pp_encode_def le_bytes_2)
qed

theorem decoder_roundtrip_witness:
  "\<exists>d off av out. ppd_reach 3 d [PPD_Recv off av] (concat (map pp_encode [[7, 8]])) out \<and> out = [[7, 8]]"
proof -
  obtain d off av where r: "ppd_reach 3 d [PPD_Recv off av] (concat (map pp_encode [[7, 8]])) [[7, 8]]"
    using ex_ppd_reach by blast
  have "\<forall>p\<in>set [[7, 8 :: byte]]. length p \<le> 3 \<and> length p \<le> 65535" by simp
  from decoder_roundtrip [OF r this] r show ?thesis by blast
qed

theorem decoder_safe_witness:
  "\<exists>d off av w. ppd_reach 3 d [PPD_Recv off av] (concat (map pp_encode [[7, 8]])) [[7, 8]] \<and> 0 < av \<and>
     concat (map pp_encode [[7, 8]]) = concat (map pp_encode [[7, 8]]) @ w \<and> pp_next 3 w = Incomplete"
proof -
  obtain d off av where r: "ppd_reach 3 d [PPD_Recv off av] (concat (map pp_encode [[7, 8]])) [[7, 8]]"
    using ex_ppd_reach by blast
  show ?thesis using decoder_safe [OF r] r by auto
qed

theorem stream_sender_complete_witness:
  "\<exists>s1 outs1 s2 outs2. pss_input_handler_send PacketStreamSender_Init [1, 2, 3] (int (length [1, 2, 3 :: byte])) = (s1, outs1) \<and>
     pss_drive s1 outs1 [2] = Some ([1, 2], s2, outs2) \<and> outs2 = [PSS_Send [3]]"
proof -
  obtain s1 outs1 where s1: "pss_input_handler_send PacketStreamSender_Init [1, 2, 3] (int (length [1, 2, 3 :: byte])) = (s1, outs1)"
    by (metis surj_pair)
  moreover obtain s2 outs2 where d: "pss_drive s1 outs1 [2] = Some ([1, 2], s2, outs2)"
    using s1 by (auto simp: pss_input_handler_send_def pss_send_data_def pss_output_handler_done_def
        PacketStreamSender_Init_def)
  ultimately show ?thesis using stream_sender_complete [OF s1 d] by auto
qed

end
