(* ===== verification/Proto_Flow_Facts.thy ===== *)
theory Proto_Flow_Facts
  imports Flow_Node_Facts
begin

text \<open>
  The flow of \<^verbatim>\<open>PacketProtoFlow.c\<close> as a whole. The writer, the encoder and the packet buffer hand each other
  pointers into the buffer's storage: the buffer offers a place, the encoder keeps two bytes of it
  for the header and offers the rest to the writer. The calls between them are jobs, so packets may
  leave the buffer while a new one is being written.
\<close>

subsection \<open>Writing into the space offered by the buffer\<close>

lemma cb_core_write:
  assumes core: "cb_core buf pkts" and len: "length m = length (cb_mem buf)"
    and ag: "\<And>a b. b \<le> ChunkBuffer2_end buf \<or> ChunkBuffer2_end buf + cb_free buf \<le> a \<Longrightarrow> agree (cb_mem buf) m a b"
  shows "cb_core (buf\<lparr>cb_mem := m\<rparr>) pkts"
proof -
  let ?lim = "cb_lim buf" and ?e = "ChunkBuffer2_end buf"
  have sh: "cb_shape (buf\<lparr>cb_mem := m\<rparr>)" using core len by (simp add: cb_core_def cb_shape_def)
  have st: "0 \<le> cb_start buf" using core by (simp add: cb_core_def cb_shape_def)
  have w: "cb_wrapped (buf\<lparr>cb_mem := m\<rparr>) = cb_wrapped buf" "cb_lim (buf\<lparr>cb_mem := m\<rparr>) = ?lim"
    by (simp_all add: cb_wrapped_def cb_lim_def)
  have "cb_data (buf\<lparr>cb_mem := m\<rparr>) pkts"
  proof (cases "cb_wrapped buf")
    case True
    then obtain ps qs where p: "pkts = ps @ qs"
      and l: "layout (cb_mem buf) ?lim (cb_start buf) ps (cb_wrap buf)"
        "layout (cb_mem buf) ?lim 0 qs ?e" and e: "?e \<le> cb_start buf"
      using core by (auto simp: cb_core_def cb_data_def cb_wrapped_end)
    have "layout m ?lim (cb_start buf) ps (cb_wrap buf)"
      by (rule layout_agree [OF ag [of _ "cb_start buf"] _ st l(1)]) (simp_all add: cb_free_def True)
    moreover have "layout m ?lim 0 qs ?e"
      by (rule layout_agree [OF ag [of _ 0] _ _ l(2)]) simp_all
    ultimately show ?thesis using True p e w by (auto simp: cb_data_def cb_wrapped_end)
  next
    case False
    then have l: "layout (cb_mem buf) ?lim (cb_start buf) pkts ?e"
      and b: "cb_wrap buf = cb_size buf" "cb_start buf + cb_used buf \<le> ?lim"
      using core by (simp_all add: cb_core_def cb_data_def cb_wrapped_end)
    have "layout m ?lim (cb_start buf) pkts ?e"
      by (rule layout_agree [OF ag [of _ "cb_start buf"] _ st l]) simp_all
    then show ?thesis using False b w by (simp add: cb_data_def cb_wrapped_end)
  qed
  then show ?thesis using sh by (simp add: cb_core_def)
qed

lemma update_input_mem:
  "ChunkBuffer2_update_input (buf\<lparr>cb_mem := m\<rparr>) = ChunkBuffer2_update_input buf\<lparr>cb_mem := m\<rparr>"
  by (simp add: ChunkBuffer2_update_input_def Let_def)

lemma cb_rep_write:
  assumes rep: "cb_rep buf pkts" and d: "cb_input_dest buf = Some d"
    and off: "d \<le> off" "int (off + length w) \<le> int d + cb_input_avail buf"
  shows "\<exists>m. write_at (cb_mem buf) off w = Some m \<and> cb_rep (buf\<lparr>cb_mem := m\<rparr>) pkts"
proof -
  let ?e = "ChunkBuffer2_end buf"
  have core: "cb_core buf pkts" using rep by (simp add: cb_rep_def)
  have free: "0 < cb_free buf" and dv: "d = nat (4 * (?e + 1))" and av: "cb_input_avail buf = (cb_free buf - 1) * 4"
    using cb_rep_input [OF rep] d by (simp_all split: if_splits)
  have e0: "0 \<le> ?e" using cb_core_end [OF core] by simp
  then have di: "int d = 4 * ?e + 4" using dv by simp
  have "?e + cb_free buf \<le> cb_size buf" "length (cb_mem buf) = nat (4 * cb_size buf)"
    using core by (auto simp: cb_core_def cb_shape_def cb_free_def)
  then have lm: "4 * ?e + 4 * cb_free buf \<le> int (length (cb_mem buf))" using free e0 by simp
  have top: "int (off + length w) \<le> 4 * ?e + 4 * cb_free buf" using off(2) av di by simp
  then have "off + length w \<le> length (cb_mem buf)" using lm by linarith
  then obtain m where m: "write_at (cb_mem buf) off w = Some m" by (auto simp: write_at_def)
  have len: "length m = length (cb_mem buf)" by (rule write_at_length [OF m])
  have "agree (cb_mem buf) m a b" if ab: "b \<le> ?e \<or> ?e + cb_free buf \<le> a" for a b
  proof -
    have "m ! k = cb_mem buf ! k" if k: "4 * a \<le> int k" "int k < 4 * b" for k
      by (rule write_at_nth [OF m]) (use ab k off(1) di top in linarith)
    then show ?thesis using len by (simp add: agree_def)
  qed
  then have core': "cb_core (buf\<lparr>cb_mem := m\<rparr>) pkts" by (rule cb_core_write [OF core len])
  have "ChunkBuffer2_update_output (buf\<lparr>cb_mem := m\<rparr>) = Some (buf\<lparr>cb_mem := m\<rparr>)"
    using cb_rep_output [OF rep] unfolding update_output_core [OF core']
    by (cases pkts) (auto intro: ChunkBuffer2.equality)
  then show ?thesis
    using m core' rep by (auto simp: cb_rep_def update_input_mem)
qed

lemma consume_mem:
  assumes "ChunkBuffer2_ConsumePacket buf = Some buf'"
  shows "cb_mem buf' = cb_mem buf"
  using assms update_output_fields(1)
  by (fastforce simp: ChunkBuffer2_ConsumePacket_def Let_def split: Option.bind_splits if_splits)

abbreviation pb_mem :: "PacketBuffer \<Rightarrow> byte list" where
  "pb_mem pb \<equiv> cb_mem (pb_buf pb)"

definition pb_set_mem :: "PacketBuffer \<Rightarrow> byte list \<Rightarrow> PacketBuffer" where
  "pb_set_mem pb m = pb\<lparr>pb_buf := (pb_buf pb)\<lparr>cb_mem := m\<rparr>\<rparr>"

lemma pb_set_mem_simps [simp]:
  "pb_mem (pb_set_mem pb m) = m" "pb_set_mem (pb_set_mem pb m) m' = pb_set_mem pb m'"
  "pb_set_mem pb (pb_mem pb) = pb"
  by (simp_all add: pb_set_mem_def)

lemma pb_inv_write:
  assumes inv: "pb_inv mtu num pb [Some d] ss inn out pkts" and off: "d \<le> off" "off + length w \<le> d + mtu"
  shows "\<exists>m. write_at (pb_mem pb) off w = Some m \<and> pb_inv mtu num (pb_set_mem pb m) [Some d] ss inn out pkts"
proof -
  have d: "cb_input_dest (pb_buf pb) = Some d" "int mtu \<le> cb_input_avail (pb_buf pb)"
    using pb_inv_input [OF inv] by auto
  have rep: "cb_rep (pb_buf pb) pkts" using inv by (simp add: pb_inv_def)
  have "int (off + length w) \<le> int d + cb_input_avail (pb_buf pb)" using off(2) d(2) by linarith
  from cb_rep_write [OF rep d(1) off(1) this]
  obtain m where "write_at (pb_mem pb) off w = Some m" "cb_rep ((pb_buf pb)\<lparr>cb_mem := m\<rparr>) pkts" by blast
  then show ?thesis using inv by (auto simp: pb_inv_def pb_set_mem_def)
qed

lemma write_at_same: "read_at m off n = Some w \<Longrightarrow> write_at m off w = Some m"
proof -
  assume r: "read_at m off n = Some w"
  then have l: "off + n \<le> length m" "length w = n" and w: "w = take n (drop off m)"
    by (auto simp: read_at_def split: if_splits)
  have "w @ drop (off + n) m = drop off m"
    using append_take_drop_id [of n "drop off m"] w by (simp add: add.commute)
  then have "take off m @ w @ drop (off + n) m = m" by simp
  then show ?thesis using l by (simp add: write_at_def)
qed

text \<open>The data is in place already when the buffer is told of it.\<close>

lemma pb_submit_step:
  assumes inv: "pb_inv mtu num pb [Some d] ss inn out pkts" and r: "read_at (pb_mem pb) d (length p) = Some p"
    and len: "length p \<le> mtu"
  shows "\<exists>pb' outs. PacketBuffer_input_handler_done pb (int (length p)) = Some (pb', outs) \<and>
    pb_inv mtu num pb' (pb_recvs outs) (ss @ pb_sends outs) (inn @ [p]) out (pkts @ [p])"
proof -
  have inv': "pb_inv mtu num pb (Some d # []) ss inn out pkts" using inv by simp
  from pb_recv_step [OF inv' len order_refl] write_at_same [OF r]
  show ?thesis by (auto simp: pb_set_mem_def [symmetric])
qed

subsection \<open>The flow as a transition system\<close>

text \<open>The calls in progress between the parts.\<close>

datatype ppf_call =
    EncRecv "nat option"  \<comment> \<open>the buffer asks the encoder for a packet at a place\<close>
  | WrRecv nat            \<comment> \<open>the encoder asks the writer for a packet at a place\<close>
  | EncDone nat           \<comment> \<open>the writer has finished a packet of this length\<close>
  | BufDone nat           \<comment> \<open>the encoder has finished a packet of this length\<close>

text \<open>\<open>ppf_reach mtu num f pend ss inn out\<close>: the flow is \<open>f\<close>, the calls \<open>pend\<close> and the sends \<open>ss\<close> are in progress, the
  user has written the packets \<open>inn\<close>, the output has taken \<open>out\<close>.\<close>

inductive ppf_reach ::
  "nat \<Rightarrow> nat \<Rightarrow> PacketProtoFlow \<Rightarrow> ppf_call list \<Rightarrow> (nat option \<times> int) list \<Rightarrow> byte list list \<Rightarrow>
   byte list list \<Rightarrow> bool" for mtu num where
  init: "PacketProtoFlow_Init size_max malloc mtu num = Some (f, outs) \<Longrightarrow> malloc_ok malloc \<Longrightarrow>
    ppf_reach mtu num f (map EncRecv (pb_recvs outs)) (pb_sends outs) [] []"
| enc_recv: "ppf_reach mtu num f (EncRecv (Some d) # pend) ss inn out \<Longrightarrow>
    ppe_output_handler_recv (ppf_encoder f) d = (enc, [PPE_Recv off]) \<Longrightarrow>
    ppf_reach mtu num (f\<lparr>ppf_encoder := enc\<rparr>) (pend @ [WrRecv off]) ss inn out"
| wr_recv: "ppf_reach mtu num f (WrRecv d # pend) ss inn out \<Longrightarrow>
    ppf_reach mtu num (f\<lparr>ppf_ainput := bw_output_handler_recv (ppf_ainput f) d\<rparr>) pend ss inn out"
| put: "ppf_reach mtu num f pend ss inn out \<Longrightarrow> BufferWriter_StartPacket (ppf_ainput f) = Some off \<Longrightarrow>
    length p \<le> mtu \<Longrightarrow> write_at (pb_mem (ppf_buffer f)) off p = Some m \<Longrightarrow>
    BufferWriter_EndPacket (ppf_ainput f) (length p) = (w, n) \<Longrightarrow>
    ppf_reach mtu num (f\<lparr>ppf_ainput := w, ppf_buffer := pb_set_mem (ppf_buffer f) m\<rparr>) (pend @ [EncDone n]) ss
      (inn @ [p]) out"
| enc_done: "ppf_reach mtu num f (EncDone n # pend) ss inn out \<Longrightarrow>
    ppe_input_handler_done (ppf_encoder f) (pb_mem (ppf_buffer f)) n = Some (enc, m, [PPE_Done k]) \<Longrightarrow>
    ppf_reach mtu num (f\<lparr>ppf_encoder := enc, ppf_buffer := pb_set_mem (ppf_buffer f) m\<rparr>) (pend @ [BufDone k]) ss inn out"
| buf_done: "ppf_reach mtu num f (BufDone k # pend) ss inn out \<Longrightarrow>
    PacketBuffer_input_handler_done (ppf_buffer f) (int k) = Some (pb, outs) \<Longrightarrow>
    ppf_reach mtu num (f\<lparr>ppf_buffer := pb\<rparr>) (pend @ map EncRecv (pb_recvs outs)) (ss @ pb_sends outs) inn out"
| sent: "ppf_reach mtu num f pend ((Some d, n) # ss) inn out \<Longrightarrow>
    read_at (pb_mem (ppf_buffer f)) d (nat n) = Some bs \<Longrightarrow>
    PacketBuffer_output_handler_done (ppf_buffer f) = Some (pb, outs) \<Longrightarrow>
    ppf_reach mtu num (f\<lparr>ppf_buffer := pb\<rparr>) (pend @ map EncRecv (pb_recvs outs)) (ss @ pb_sends outs) inn (out @ [bs])"

text \<open>Who holds the place \<open>d\<close> that the buffer offers, and the packet \<open>cur\<close> on its way into the buffer.\<close>

datatype ppf_stage = Offered | Reserved | Waiting | Written "byte list" | Framed "byte list"

fun ppf_cur :: "ppf_stage \<Rightarrow> byte list list" where
  "ppf_cur (Written p) = [p]"
| "ppf_cur (Framed p) = [p]"
| "ppf_cur _ = []"

fun ppf_stage_ok :: "nat \<Rightarrow> PacketProtoFlow \<Rightarrow> ppf_call list \<Rightarrow> nat \<Rightarrow> ppf_stage \<Rightarrow> bool" where
  "ppf_stage_ok mtu f pend d Offered \<longleftrightarrow>
     pend = [EncRecv (Some d)] \<and> ppe_output_packet (ppf_encoder f) = None \<and> \<not> bw_out_have (ppf_ainput f)"
| "ppf_stage_ok mtu f pend d Reserved \<longleftrightarrow>
     pend = [WrRecv (d + 2)] \<and> ppe_output_packet (ppf_encoder f) = Some d \<and> \<not> bw_out_have (ppf_ainput f)"
| "ppf_stage_ok mtu f pend d Waiting \<longleftrightarrow>
     pend = [] \<and> ppe_output_packet (ppf_encoder f) = Some d \<and> bw_out_have (ppf_ainput f) \<and>
     bw_out (ppf_ainput f) = d + 2"
| "ppf_stage_ok mtu f pend d (Written p) \<longleftrightarrow>
     pend = [EncDone (length p)] \<and> ppe_output_packet (ppf_encoder f) = Some d \<and>
     \<not> bw_out_have (ppf_ainput f) \<and> length p \<le> mtu \<and>
     read_at (pb_mem (ppf_buffer f)) (d + 2) (length p) = Some p"
| "ppf_stage_ok mtu f pend d (Framed p) \<longleftrightarrow>
     pend = [BufDone (2 + length p)] \<and> ppe_output_packet (ppf_encoder f) = None \<and>
     \<not> bw_out_have (ppf_ainput f) \<and> length p \<le> mtu \<and>
     read_at (pb_mem (ppf_buffer f)) d (2 + length p) = Some (pp_encode p)"

definition ppf_idle :: "PacketProtoFlow \<Rightarrow> ppf_call list \<Rightarrow> bool" where
  "ppf_idle f pend \<longleftrightarrow>
     pend = [] \<and> ppe_output_packet (ppf_encoder f) = None \<and> \<not> bw_out_have (ppf_ainput f)"

definition ppf_inv ::
  "nat \<Rightarrow> nat \<Rightarrow> PacketProtoFlow \<Rightarrow> ppf_call list \<Rightarrow> (nat option \<times> int) list \<Rightarrow> byte list list \<Rightarrow>
   byte list list \<Rightarrow> byte list list \<Rightarrow> bool" where
  "ppf_inv mtu num f pend ss inn out pkts \<longleftrightarrow>
     (pb_inv (2 + mtu) num (ppf_buffer f) [] ss (map pp_encode inn) out pkts \<and> ppf_idle f pend) \<or>
     (\<exists>d st don. pb_inv (2 + mtu) num (ppf_buffer f) [Some d] ss (map pp_encode don) out pkts \<and>
        ppf_stage_ok mtu f pend d st \<and> inn = don @ ppf_cur st)"

lemma ppf_invI:
  assumes "pb_inv (2 + mtu) num (ppf_buffer f) [Some d] ss (map pp_encode don) out pkts"
    and "ppf_stage_ok mtu f pend d st" and "inn = don @ ppf_cur st"
  shows "ppf_inv mtu num f pend ss inn out pkts"
  using assms unfolding ppf_inv_def by blast

lemma ppf_invD:
  assumes "ppf_inv mtu num f pend ss inn out pkts" and "\<not> ppf_idle f pend"
  shows "\<exists>d st don. pb_inv (2 + mtu) num (ppf_buffer f) [Some d] ss (map pp_encode don) out pkts \<and>
    ppf_stage_ok mtu f pend d st \<and> inn = don @ ppf_cur st"
  using assms by (auto simp: ppf_inv_def)

text \<open>The buffer's answer to a completion: it offers a place or it is full.\<close>

lemma ppf_inv_offer:
  assumes "pb_inv (2 + mtu) num (ppf_buffer f) (pb_recvs outs) ss (map pp_encode inn) out pkts" and "ppf_idle f []"
  shows "ppf_inv mtu num f (map EncRecv (pb_recvs outs)) ss inn out pkts"
proof (cases "pb_recvs outs = []")
  case True
  then show ?thesis using assms by (simp add: ppf_inv_def ppf_idle_def)
next
  case False
  then obtain d where "pb_recvs outs = [Some d]" using pb_inv_input [OF assms(1)] by auto
  then show ?thesis
    using assms by (intro ppf_invI [of mtu num f d ss inn out pkts _ Offered]) (simp_all add: ppf_idle_def)
qed

lemma ppf_init_inv:
  assumes "PacketProtoFlow_Init size_max malloc mtu num = Some (f, outs)" and "malloc_ok malloc"
    and "pb_sizes_ok (2 + mtu) num"
  shows "ppf_inv mtu num f (map EncRecv (pb_recvs outs)) (pb_sends outs) [] [] []"
proof -
  obtain pb where pb: "PacketBuffer_Init size_max malloc (2 + mtu) num = Some (pb, outs)"
    and f: "f = \<lparr>ppf_ainput = BufferWriter_Init, ppf_encoder = PacketProtoEncoder_Init, ppf_buffer = pb\<rparr>"
    using assms(1) by (auto simp: PacketProtoFlow_Init_def Let_def PACKETPROTO_ENCLEN_def split: option.splits)
  show ?thesis
    using pb_init_inv [OF pb assms(2,3)]
    by (intro ppf_inv_offer) (simp_all add: f ppf_idle_def BufferWriter_Init_def PacketProtoEncoder_Init_def)
qed

text \<open>Writing the header in front of a payload.\<close>

lemma frame_in_place:
  assumes "read_at m (d + 2) (length p) = Some p" and "write_at m d (le_bytes 2 (of_nat (length p) :: u16)) = Some m'"
  shows "read_at m' d (2 + length p) = Some (pp_encode p)"
proof -
  have "take (length p) (drop (d + 2) m) = p" "d + 2 + length p \<le> length m"
    using assms(1) by (auto simp: read_at_def split: if_splits)
  moreover from this have "m' = take d m @ le_bytes 2 (of_nat (length p) :: u16) @ drop (d + 2) m"
    using assms(2) by (simp add: write_at_def length_le_bytes)
  ultimately show ?thesis by (simp add: read_at_def length_le_bytes pp_encode_def add.commute)
qed

lemma ppf_write_step:
  assumes inv: "ppf_inv mtu num f pend ss inn out pkts"
    and start: "BufferWriter_StartPacket (ppf_ainput f) = Some off" and p: "length p \<le> mtu"
  shows "\<exists>m. write_at (pb_mem (ppf_buffer f)) off p = Some m \<and>
    ppf_inv mtu num (f\<lparr>ppf_ainput := fst (BufferWriter_EndPacket (ppf_ainput f) (length p)),
        ppf_buffer := pb_set_mem (ppf_buffer f) m\<rparr>) (pend @ [EncDone (length p)]) ss (inn @ [p]) out pkts"
proof -
  have h: "bw_out_have (ppf_ainput f)" and o: "off = bw_out (ppf_ainput f)"
    using start by (auto simp: BufferWriter_StartPacket_def split: if_splits)
  then obtain d st don where b': "pb_inv (2 + mtu) num (ppf_buffer f) [Some d] ss (map pp_encode don) out pkts"
    and st': "ppf_stage_ok mtu f pend d st" "inn = don @ ppf_cur st"
    using ppf_invD [OF inv] by (auto simp: ppf_idle_def)
  then have "st = Waiting" using h by (cases st) auto
  then have b: "pb_inv (2 + mtu) num (ppf_buffer f) [Some d] ss (map pp_encode inn) out pkts"
    and st: "ppf_stage_ok mtu f pend d Waiting"
    using b' st' by simp_all
  obtain m where m: "write_at (pb_mem (ppf_buffer f)) (d + 2) p = Some m"
    "pb_inv (2 + mtu) num (pb_set_mem (ppf_buffer f) m) [Some d] ss (map pp_encode inn) out pkts"
    using pb_inv_write [OF b, of "d + 2" p] p by auto
  show ?thesis
    using m st o read_write_same [OF m(1)] p
    by (auto intro!: ppf_invI [of mtu num _ d ss inn out pkts _ "Written p"] simp: BufferWriter_EndPacket_def)
qed

lemma ppf_enc_done_step:
  assumes inv: "ppf_inv mtu num f (EncDone n # pend) ss inn out pkts" and mtu: "mtu \<le> 65535"
  shows "\<exists>enc m. ppe_input_handler_done (ppf_encoder f) (pb_mem (ppf_buffer f)) n = Some (enc, m, [PPE_Done (2 + n)]) \<and>
    ppf_inv mtu num (f\<lparr>ppf_encoder := enc, ppf_buffer := pb_set_mem (ppf_buffer f) m\<rparr>) (pend @ [BufDone (2 + n)]) ss inn out pkts"
proof -
  obtain d st don where b: "pb_inv (2 + mtu) num (ppf_buffer f) [Some d] ss (map pp_encode don) out pkts"
    and st': "ppf_stage_ok mtu f (EncDone n # pend) d st" "inn = don @ ppf_cur st"
    using ppf_invD [OF inv] by (auto simp: ppf_idle_def)
  then obtain p where "st = Written p" by (cases st) auto
  then have st: "ppf_stage_ok mtu f (EncDone n # pend) d (Written p)" and i: "inn = don @ [p]"
    using st' by simp_all
  let ?h = "le_bytes 2 (of_nat (length p) :: u16)"
  obtain m where m: "write_at (pb_mem (ppf_buffer f)) d ?h = Some m"
    "pb_inv (2 + mtu) num (pb_set_mem (ppf_buffer f) m) [Some d] ss (map pp_encode don) out pkts"
    using pb_inv_write [OF b, of d ?h] by (auto simp: length_le_bytes)
  have "ppe_input_handler_done (ppf_encoder f) (pb_mem (ppf_buffer f)) n =
      Some ((ppf_encoder f)\<lparr>ppe_output_packet := None\<rparr>, m, [PPE_Done (2 + n)])"
    using st m(1) by (simp add: ppe_input_handler_done_def htol16_def PACKETPROTO_ENCLEN_def)
  moreover have "read_at m d (2 + length p) = Some (pp_encode p)"
    using st by (intro frame_in_place [OF _ m(1)]) simp
  ultimately show ?thesis
    using m(2) st i by (auto intro!: ppf_invI [of mtu num _ d ss don out pkts _ "Framed p"])
qed

lemma ppf_buf_done_step:
  assumes inv: "ppf_inv mtu num f (BufDone k # pend) ss inn out pkts"
  shows "\<exists>pb outs pkts'. PacketBuffer_input_handler_done (ppf_buffer f) (int k) = Some (pb, outs) \<and>
    ppf_inv mtu num (f\<lparr>ppf_buffer := pb\<rparr>) (pend @ map EncRecv (pb_recvs outs)) (ss @ pb_sends outs) inn out pkts'"
proof -
  obtain d st don where b: "pb_inv (2 + mtu) num (ppf_buffer f) [Some d] ss (map pp_encode don) out pkts"
    and st': "ppf_stage_ok mtu f (BufDone k # pend) d st" "inn = don @ ppf_cur st"
    using ppf_invD [OF inv] by (auto simp: ppf_idle_def)
  then obtain p where "st = Framed p" by (cases st) auto
  then have st: "ppf_stage_ok mtu f (BufDone k # pend) d (Framed p)" and i: "inn = don @ [p]"
    using st' by simp_all
  then have k: "k = length (pp_encode p)" and l: "length (pp_encode p) \<le> 2 + mtu"
    by (simp_all add: length_pp_encode)
  obtain pb outs where h: "PacketBuffer_input_handler_done (ppf_buffer f) (int k) = Some (pb, outs)"
    and b': "pb_inv (2 + mtu) num pb (pb_recvs outs) (ss @ pb_sends outs) (map pp_encode don @ [pp_encode p]) out
      (pkts @ [pp_encode p])"
    using pb_submit_step [OF b _ l] st k by (auto simp: length_pp_encode)
  have "ppf_inv mtu num (f\<lparr>ppf_buffer := pb\<rparr>) (map EncRecv (pb_recvs outs)) (ss @ pb_sends outs) inn out (pkts @ [pp_encode p])"
    using b' st i by (intro ppf_inv_offer) (simp_all add: ppf_idle_def)
  then show ?thesis using h st by auto
qed

lemma ppf_stage_mem:
  assumes "ppf_stage_ok mtu f pend d st" and "pb_mem pb = pb_mem (ppf_buffer f)"
  shows "ppf_stage_ok mtu (f\<lparr>ppf_buffer := pb\<rparr>) pend d st"
  using assms by (cases st) simp_all

lemma pb_output_mem:
  "PacketBuffer_output_handler_done pb = Some (pb', outs) \<Longrightarrow> pb_mem pb' = pb_mem pb"
  using consume_mem by (fastforce simp: PacketBuffer_output_handler_done_def Let_def split: Option.bind_splits)

lemma ppf_sent_step:
  assumes inv: "ppf_inv mtu num f pend ((Some d, n) # ss) inn out pkts"
  shows "\<exists>bs pb outs pkts'. pkts = bs # pkts' \<and> read_at (pb_mem (ppf_buffer f)) d (nat n) = Some bs \<and>
    PacketBuffer_output_handler_done (ppf_buffer f) = Some (pb, outs) \<and>
    ppf_inv mtu num (f\<lparr>ppf_buffer := pb\<rparr>) (pend @ map EncRecv (pb_recvs outs)) (ss @ pb_sends outs) inn (out @ [bs]) pkts'"
proof (cases "ppf_idle f pend")
  case True
  then have b: "pb_inv (2 + mtu) num (ppf_buffer f) [] ((Some d, n) # ss) (map pp_encode inn) out pkts"
    using inv by (auto simp: ppf_inv_def ppf_idle_def elim: ppf_stage_ok.elims)
  obtain bs pkts' pb outs where h: "pkts = bs # pkts'" "read_at (pb_mem (ppf_buffer f)) d (nat n) = Some bs"
    "PacketBuffer_output_handler_done (ppf_buffer f) = Some (pb, outs)"
    and b': "pb_inv (2 + mtu) num pb ([] @ pb_recvs outs) (ss @ pb_sends outs) (map pp_encode inn) (out @ [bs]) pkts'"
    using pb_send_step [OF b] by blast
  have "ppf_inv mtu num (f\<lparr>ppf_buffer := pb\<rparr>) (map EncRecv (pb_recvs outs)) (ss @ pb_sends outs) inn (out @ [bs]) pkts'"
    using b' True by (intro ppf_inv_offer) (simp_all add: ppf_idle_def)
  then show ?thesis using h True by (auto simp: ppf_idle_def)
next
  case False
  then obtain d' st don where b: "pb_inv (2 + mtu) num (ppf_buffer f) [Some d'] ((Some d, n) # ss) (map pp_encode don) out pkts"
    and st: "ppf_stage_ok mtu f pend d' st" "inn = don @ ppf_cur st"
    using ppf_invD [OF inv] by blast
  obtain bs pkts' pb outs where h: "pkts = bs # pkts'" "read_at (pb_mem (ppf_buffer f)) d (nat n) = Some bs"
    "PacketBuffer_output_handler_done (ppf_buffer f) = Some (pb, outs)"
    and b': "pb_inv (2 + mtu) num pb ([Some d'] @ pb_recvs outs) (ss @ pb_sends outs) (map pp_encode don) (out @ [bs]) pkts'"
    using pb_send_step [OF b] by blast
  then have r: "pb_recvs outs = []" using pb_inv_input [OF b'] by simp
  have "ppf_inv mtu num (f\<lparr>ppf_buffer := pb\<rparr>) pend (ss @ pb_sends outs) inn (out @ [bs]) pkts'"
    using b' r st(2) ppf_stage_mem [OF st(1) pb_output_mem [OF h(3)]]
    by (intro ppf_invI [of mtu num _ d' _ don _ _ _ st]) simp_all
  then show ?thesis using h r by auto
qed

lemma ppf_recv_steps:
  "ppf_inv mtu num f (EncRecv (Some d) # pend) ss inn out pkts \<Longrightarrow>
   ppe_output_handler_recv (ppf_encoder f) d = (enc, [PPE_Recv off]) \<Longrightarrow>
   ppf_inv mtu num (f\<lparr>ppf_encoder := enc\<rparr>) (pend @ [WrRecv off]) ss inn out pkts"
  "ppf_inv mtu num f (WrRecv d # pend) ss inn out pkts \<Longrightarrow>
   ppf_inv mtu num (f\<lparr>ppf_ainput := bw_output_handler_recv (ppf_ainput f) d\<rparr>) pend ss inn out pkts"
proof -
  assume inv: "ppf_inv mtu num f (EncRecv (Some d) # pend) ss inn out pkts"
    and h: "ppe_output_handler_recv (ppf_encoder f) d = (enc, [PPE_Recv off])"
  obtain d' st don where b: "pb_inv (2 + mtu) num (ppf_buffer f) [Some d'] ss (map pp_encode don) out pkts"
    and st: "ppf_stage_ok mtu f (EncRecv (Some d) # pend) d' st" "inn = don @ ppf_cur st"
    using ppf_invD [OF inv] by (auto simp: ppf_idle_def)
  then have "st = Offered" by (cases st) auto
  then show "ppf_inv mtu num (f\<lparr>ppf_encoder := enc\<rparr>) (pend @ [WrRecv off]) ss inn out pkts"
    using b st h by (intro ppf_invI [of mtu num _ d _ don _ _ _ Reserved])
      (auto simp: ppe_output_handler_recv_def)
next
  assume inv: "ppf_inv mtu num f (WrRecv d # pend) ss inn out pkts"
  obtain d' st don where b: "pb_inv (2 + mtu) num (ppf_buffer f) [Some d'] ss (map pp_encode don) out pkts"
    and st: "ppf_stage_ok mtu f (WrRecv d # pend) d' st" "inn = don @ ppf_cur st"
    using ppf_invD [OF inv] by (auto simp: ppf_idle_def)
  then have "st = Reserved" by (cases st) auto
  then show "ppf_inv mtu num (f\<lparr>ppf_ainput := bw_output_handler_recv (ppf_ainput f) d\<rparr>) pend ss inn out pkts"
    using b st by (intro ppf_invI [of mtu num _ d' _ don _ _ _ Waiting])
      (auto simp: bw_output_handler_recv_def)
qed

lemma ppf_reach_inv:
  assumes "ppf_reach mtu num f pend ss inn out" and "pb_sizes_ok (2 + mtu) num" and "mtu \<le> 65535"
  shows "\<exists>pkts. ppf_inv mtu num f pend ss inn out pkts"
  using assms
proof (induction rule: ppf_reach.induct)
  case (init size_max malloc f outs)
  then show ?case using ppf_init_inv by blast
next
  case (enc_recv f d pend ss inn out enc off)
  then show ?case using ppf_recv_steps(1) by blast
next
  case (wr_recv f d pend ss inn out)
  then show ?case using ppf_recv_steps(2) by blast
next
  case (put f pend ss inn out off p m w n)
  then obtain pkts where "ppf_inv mtu num f pend ss inn out pkts" by blast
  from ppf_write_step [OF this put.hyps(2,3)] show ?case
    using put.hyps(4,5) by (auto simp: BufferWriter_EndPacket_def)
next
  case (enc_done f n pend ss inn out enc m k)
  then obtain pkts where "ppf_inv mtu num f (EncDone n # pend) ss inn out pkts" by blast
  from ppf_enc_done_step [OF this enc_done.prems(2)] show ?case using enc_done.hyps(2) by auto
next
  case (buf_done f k pend ss inn out pb outs)
  then obtain pkts where "ppf_inv mtu num f (BufDone k # pend) ss inn out pkts" by blast
  from ppf_buf_done_step [OF this] show ?case using buf_done.hyps(2) by auto
next
  case (sent f pend d n ss inn out bs pb outs)
  then obtain pkts where "ppf_inv mtu num f pend ((Some d, n) # ss) inn out pkts" by blast
  from ppf_sent_step [OF this] show ?case using sent.hyps(2,3) by auto
qed


lemma ex_flow_init:
  "case PacketProtoFlow_Init 65535 (\<lambda>n. Some (replicate n 0)) 4 1 of
     Some (f, outs) \<Rightarrow> map EncRecv (pb_recvs outs) = [EncRecv (Some 4)] \<and> pb_sends outs = []
   | None \<Rightarrow> False"
  by code_simp

lemma ex_flow_reach: "\<exists>f. ppf_reach 4 1 f [EncDone 3] [] [[1, 2, 3]] []"
proof -
  obtain f outs where i: "PacketProtoFlow_Init 65535 (\<lambda>n. Some (replicate n 0)) 4 1 = Some (f, outs)"
    and s: "map EncRecv (pb_recvs outs) = [EncRecv (Some 4)]" "pb_sends outs = []"
    using ex_flow_init by (auto split: option.splits)
  have r: "ppf_reach 4 1 f (EncRecv (Some 4) # []) [] [] []"
    using ppf_reach.init [OF i] s by (simp add: malloc_ok_def)
  obtain enc where "ppe_output_handler_recv (ppf_encoder f) 4 = (enc, [PPE_Recv 6])"
    by (simp add: ppe_output_handler_recv_def)
  from ppf_reach.enc_recv [OF r this]
  have r1: "ppf_reach 4 1 (f\<lparr>ppf_encoder := enc\<rparr>) (WrRecv 6 # []) [] [] []" by simp
  define f2 where "f2 = f\<lparr>ppf_encoder := enc, ppf_ainput := bw_output_handler_recv (ppf_ainput f) 6\<rparr>"
  have r2: "ppf_reach 4 1 f2 [] [] [] []" using ppf_reach.wr_recv [OF r1] by (simp add: f2_def)
  have st: "BufferWriter_StartPacket (ppf_ainput f2) = Some 6"
    by (simp add: f2_def bw_output_handler_recv_def BufferWriter_StartPacket_def)
  have z: "pb_sizes_ok (2 + 4) 1" by code_simp
  obtain pkts where inv: "ppf_inv 4 1 f2 [] [] [] [] pkts" using ppf_reach_inv [OF r2 z] by auto
  obtain m where m: "write_at (pb_mem (ppf_buffer f2)) 6 [1, 2, 3] = Some m"
    using ppf_write_step [OF inv st, of "[1, 2, 3]"] by auto
  obtain w where e: "BufferWriter_EndPacket (ppf_ainput f2) (length [1, 2, 3 :: byte]) = (w, 3)"
    by (simp add: BufferWriter_EndPacket_def)
  have "length [1, 2, 3 :: byte] \<le> 4" by simp
  from ppf_reach.put [OF r2 st this m e] show ?thesis by auto
qed


end
