(* ===== verification/Bavl.thy ===== *)
theory Bavl
  imports Main "HOL-Library.Monad_Syntax"
begin

text \<open>
  The AVL tree of \<^verbatim>\<open>structure/BAVL.h\<close>. It is intrusive: the nodes live inside the user's objects and point to their
  parent and their two children. Nodes are identified by their address, of type \<open>'a\<close>; the fields of
  all nodes are a function from addresses, kept beside the root. \<open>None\<close> is the null pointer. The index
  of a child, 0 or 1, is a truth value. Operations that follow a pointer the code does not test return
  \<open>None\<close> where it is null; loops and recursions along pointers are partial functions, which are
  \<open>None\<close> where they do not return. The comparator is a parameter, on nodes and on keys.
\<close>

record 'a BAVLNode =
  n_parent :: "'a option"
  n_link :: "bool \<Rightarrow> 'a option"
  n_balance :: int

record 'a BAVL =
  b_root :: "'a option"
  b_node :: "'a \<Rightarrow> 'a BAVLNode"

abbreviation (input) parent_of :: "'a BAVL \<Rightarrow> 'a \<Rightarrow> 'a option" where
  "parent_of o' a \<equiv> n_parent (b_node o' a)"

abbreviation (input) link_of :: "'a BAVL \<Rightarrow> 'a \<Rightarrow> bool \<Rightarrow> 'a option" where
  "link_of o' a \<equiv> n_link (b_node o' a)"

abbreviation (input) balance_of :: "'a BAVL \<Rightarrow> 'a \<Rightarrow> int" where
  "balance_of o' a \<equiv> n_balance (b_node o' a)"

text \<open>Assignments to the fields of a node.\<close>

definition set_parent :: "'a \<Rightarrow> 'a option \<Rightarrow> 'a BAVL \<Rightarrow> 'a BAVL" where
  "set_parent a p o' = o'\<lparr>b_node := (b_node o')(a := (b_node o' a)\<lparr>n_parent := p\<rparr>)\<rparr>"

definition set_link :: "'a \<Rightarrow> bool \<Rightarrow> 'a option \<Rightarrow> 'a BAVL \<Rightarrow> 'a BAVL" where
  "set_link a d p o' = o'\<lparr>b_node := (b_node o')(a := (b_node o' a)\<lparr>n_link := (link_of o' a)(d := p)\<rparr>)\<rparr>"

definition set_balance :: "'a \<Rightarrow> int \<Rightarrow> 'a BAVL \<Rightarrow> 'a BAVL" where
  "set_balance a b o' = o'\<lparr>b_node := (b_node o')(a := (b_node o' a)\<lparr>n_balance := b\<rparr>)\<rparr>"

text \<open>\<^verbatim>\<open>if (p) { p->parent = q; }\<close>\<close>

definition set_parent_opt :: "'a option \<Rightarrow> 'a option \<Rightarrow> 'a BAVL \<Rightarrow> 'a BAVL" where
  "set_parent_opt p q o' = (case p of None \<Rightarrow> o' | Some a \<Rightarrow> set_parent a q o')"

text \<open>\<^verbatim>\<open>if (p) { p->link[old == p->link[1]] = n; } else { tree->root = n; }\<close>\<close>

definition set_child :: "'a option \<Rightarrow> 'a \<Rightarrow> 'a option \<Rightarrow> 'a BAVL \<Rightarrow> 'a BAVL" where
  "set_child p old n o' =
     (case p of
        Some a \<Rightarrow> set_link a (Some old = link_of o' a True) n o'
      | None \<Rightarrow> o'\<lparr>b_root := n\<rparr>)"

definition BAVL_OPTNEG :: "int \<Rightarrow> bool \<Rightarrow> int" where
  "BAVL_OPTNEG a neg = (if neg then - a else a)"

subsection \<open>Local surgery\<close>

definition BAVL_rotate :: "'a BAVL \<Rightarrow> 'a \<Rightarrow> bool \<Rightarrow> 'a BAVL option" where
  "BAVL_rotate tree r dir = do {
     nr \<leftarrow> link_of tree r (\<not> dir);
     let tree = set_link r (\<not> dir) (link_of tree nr dir) tree;
     let tree = set_parent_opt (link_of tree r (\<not> dir)) (Some r) tree;
     let tree = set_link nr dir (Some r) tree;
     let tree = set_parent nr (parent_of tree r) tree;
     let tree = set_child (parent_of tree nr) r (Some nr) tree;
     Some (set_parent r (Some nr) tree) }"

partial_function (option) BAVL_subtree_max :: "'a BAVL \<Rightarrow> 'a \<Rightarrow> 'a option" where
  "BAVL_subtree_max tree n =
     (case link_of tree n True of None \<Rightarrow> Some n | Some n' \<Rightarrow> BAVL_subtree_max tree n')"

definition BAVL_replace_subtree :: "'a BAVL \<Rightarrow> 'a \<Rightarrow> 'a option \<Rightarrow> 'a BAVL" where
  "BAVL_replace_subtree tree dest n =
     (let tree = set_child (parent_of tree dest) dest n tree
      in set_parent_opt n (parent_of tree dest) tree)"

text \<open>The two branches of \<^verbatim>\<open>_BAVL_swap_nodes\<close>. In the first, \<open>n1\<close> is above \<open>n2\<close>.\<close>

definition BAVL_swap_adjacent :: "'a BAVL \<Rightarrow> 'a \<Rightarrow> 'a \<Rightarrow> 'a BAVL" where
  "BAVL_swap_adjacent tree n1 n2 =
     (let side = (Some n2 = link_of tree n1 True);
          c = link_of tree n1 (\<not> side);
          tree = set_link n1 False (link_of tree n2 False) tree;
          tree = set_parent_opt (link_of tree n1 False) (Some n1) tree;
          tree = set_link n1 True (link_of tree n2 True) tree;
          tree = set_parent_opt (link_of tree n1 True) (Some n1) tree;
          tree = set_parent n2 (parent_of tree n1) tree;
          tree = set_child (parent_of tree n2) n1 (Some n2) tree;
          tree = set_link n2 side (Some n1) tree;
          tree = set_parent n1 (Some n2) tree;
          tree = set_link n2 (\<not> side) c tree
      in set_parent_opt c (Some n2) tree)"

definition BAVL_swap_children :: "'a BAVL \<Rightarrow> 'a \<Rightarrow> 'a \<Rightarrow> bool \<Rightarrow> 'a BAVL" where
  "BAVL_swap_children tree n1 n2 d =
     (let temp = link_of tree n1 d;
          tree = set_link n1 d (link_of tree n2 d) tree;
          tree = set_parent_opt (link_of tree n1 d) (Some n1) tree;
          tree = set_link n2 d temp tree
      in set_parent_opt temp (Some n2) tree)"

definition BAVL_swap_distant :: "'a BAVL \<Rightarrow> 'a \<Rightarrow> 'a \<Rightarrow> 'a BAVL" where
  "BAVL_swap_distant tree n1 n2 =
     (let temp = parent_of tree n1;
          old = parent_of tree n2;
          tree = set_parent n1 old tree;
          tree = set_child old n2 (Some n1) tree;
          tree = set_parent n2 temp tree;
          tree = set_child temp n1 (Some n2) tree;
          tree = BAVL_swap_children tree n1 n2 False
      in BAVL_swap_children tree n1 n2 True)"

definition BAVL_swap_nodes :: "'a BAVL \<Rightarrow> 'a \<Rightarrow> 'a \<Rightarrow> 'a BAVL" where
  "BAVL_swap_nodes tree n1 n2 =
     (let tree =
            (if parent_of tree n2 = Some n1 \<or> parent_of tree n1 = Some n2
             then if parent_of tree n1 = Some n2 then BAVL_swap_adjacent tree n2 n1
                  else BAVL_swap_adjacent tree n1 n2
             else BAVL_swap_distant tree n1 n2);
          b1 = balance_of tree n1;
          b2 = balance_of tree n2
      in set_balance n2 b1 (set_balance n1 b2 tree))"

subsection \<open>Rebalancing\<close>

text \<open>The transformations where a balance factor is 2 or -2: the new tree, the node now at the top and
  the change of height.\<close>

definition BAVL_transform :: "'a BAVL \<Rightarrow> 'a \<Rightarrow> int \<Rightarrow> ('a BAVL \<times> 'a \<times> int) option" where
  "BAVL_transform o' node delta =
     (if balance_of o' node = 2 \<or> balance_of o' node = - 2 then
        let bside = (balance_of o' node = 2);
            bsidef = (if balance_of o' node = 2 then 1 else - 1)
        in do {
          child \<leftarrow> link_of o' node bside;
          let k = balance_of o' child * bsidef;
          if k = 1 then do {
            o' \<leftarrow> BAVL_rotate o' node (\<not> bside);
            Some (set_balance child 0 (set_balance node 0 o'), child, delta - 1) }
          else if k = 0 then do {
            o' \<leftarrow> BAVL_rotate o' node (\<not> bside);
            Some (set_balance child (- 1 * bsidef) (set_balance node (1 * bsidef) o'), child, delta) }
          else if k = - 1 then do {
            gchild \<leftarrow> link_of o' child (\<not> bside);
            o' \<leftarrow> BAVL_rotate o' child bside;
            o' \<leftarrow> BAVL_rotate o' node (\<not> bside);
            let g = balance_of o' gchild;
            Some (set_balance gchild 0
                   (set_balance child (max 0 (- g * bsidef) * bsidef)
                     (set_balance node (- max 0 (g * bsidef) * bsidef) o')), gchild, delta - 1) }
          else Some (o', node, delta) }
      else Some (o', node, delta))"

partial_function (option) BAVL_rebalance :: "'a BAVL \<Rightarrow> 'a \<Rightarrow> bool \<Rightarrow> int \<Rightarrow> 'a BAVL option" where
  "BAVL_rebalance o' node side deltac =
     (if deltac = 0 then Some o'
      else do {
        let bal = BAVL_OPTNEG (balance_of o' node) side;
        let delta = max deltac bal - max 0 bal;
        let o' = set_balance node (balance_of o' node - BAVL_OPTNEG deltac side) o';
        (o', node, delta) \<leftarrow> BAVL_transform o' node delta;
        (case parent_of o' node of
           None \<Rightarrow> Some o'
         | Some p \<Rightarrow> BAVL_rebalance o' p (Some node = link_of o' p True) delta) })"

subsection \<open>The operations\<close>

definition BAVL_Init :: "('a \<Rightarrow> 'a BAVLNode) \<Rightarrow> 'a BAVL" where
  "BAVL_Init nodes = \<lparr>b_root = None, b_node = nodes\<rparr>"

text \<open>The loop of \<^verbatim>\<open>BAVL_Insert\<close>: a node that compares equal, or the leaf and side to insert at.\<close>

partial_function (option) BAVL_insert_search ::
  "('a \<Rightarrow> 'a \<Rightarrow> int) \<Rightarrow> 'a BAVL \<Rightarrow> 'a \<Rightarrow> 'a \<Rightarrow> ('a + 'a \<times> bool) option" where
  "BAVL_insert_search cmp o' node c =
     (let comp = cmp node c in
      if comp = 0 then Some (Inl c)
      else let side = (comp = 1) in
        (case link_of o' c side of
           None \<Rightarrow> Some (Inr (c, side))
         | Some c' \<Rightarrow> BAVL_insert_search cmp o' node c'))"

text \<open>The result is the return value, \<open>*ref\<close> and the tree.\<close>

definition BAVL_Insert :: "('a \<Rightarrow> 'a \<Rightarrow> int) \<Rightarrow> 'a BAVL \<Rightarrow> 'a \<Rightarrow> (bool \<times> 'a option \<times> 'a BAVL) option" where
  "BAVL_Insert cmp o' node =
     (let new = (\<lambda>p o'. set_balance node 0 (set_link node True None (set_link node False None (set_parent node p o'))))
      in case b_root o' of
        None \<Rightarrow> Some (True, None, new None (o'\<lparr>b_root := Some node\<rparr>))
      | Some root \<Rightarrow> do {
          found \<leftarrow> BAVL_insert_search cmp o' node root;
          (case found of
             Inl c \<Rightarrow> Some (False, Some c, o')
           | Inr (c, side) \<Rightarrow> do {
               let o' = new (Some c) (set_link c side (Some node) o');
               o' \<leftarrow> BAVL_rebalance o' c side 1;
               Some (True, Some c, o') }) })"

text \<open>\<^verbatim>\<open>BAVL_Remove\<close> once the node has at most one child.\<close>

definition BAVL_unlink :: "'a BAVL \<Rightarrow> 'a \<Rightarrow> 'a BAVL option" where
  "BAVL_unlink o' node = do {
     let parent = parent_of o' node;
     let child = (if link_of o' node False \<noteq> None then link_of o' node False else link_of o' node True);
     (case parent of
        Some p \<Rightarrow> do {
          let side = (Some node = link_of o' p True);
          let o' = BAVL_replace_subtree o' node child;
          BAVL_rebalance o' p side (- 1) }
      | None \<Rightarrow> Some (BAVL_replace_subtree o' node child)) }"

definition BAVL_Remove :: "'a BAVL \<Rightarrow> 'a \<Rightarrow> 'a BAVL option" where
  "BAVL_Remove o' node = do {
     o' \<leftarrow> (case (link_of o' node False, link_of o' node True) of
              (Some l, Some r) \<Rightarrow> do {
                m \<leftarrow> BAVL_subtree_max o' l;
                Some (BAVL_swap_nodes o' node m) }
            | _ \<Rightarrow> Some o');
     BAVL_unlink o' node }"

definition BAVL_IsEmpty :: "'a BAVL \<Rightarrow> bool" where
  "BAVL_IsEmpty o' \<longleftrightarrow> b_root o' = None"

text \<open>The loops of the two lookups; the outer option is termination.\<close>

partial_function (option) BAVL_lookup_loop ::
  "('v \<Rightarrow> 'a \<Rightarrow> int) \<Rightarrow> 'a BAVL \<Rightarrow> 'v \<Rightarrow> 'a \<Rightarrow> 'a option" where
  "BAVL_lookup_loop cmp o' val c =
     (let comp = cmp val c in
      if comp = 0 then Some c
      else (case link_of o' c (comp = 1) of
              None \<Rightarrow> Some c
            | Some c' \<Rightarrow> BAVL_lookup_loop cmp o' val c'))"

definition BAVL_Lookup :: "('v \<Rightarrow> 'a \<Rightarrow> int) \<Rightarrow> 'a BAVL \<Rightarrow> 'v \<Rightarrow> 'a option option" where
  "BAVL_Lookup cmp o' val =
     (case b_root o' of
        None \<Rightarrow> Some None
      | Some c \<Rightarrow> map_option Some (BAVL_lookup_loop cmp o' val c))"

partial_function (option) BAVL_lookup_exact_loop ::
  "('v \<Rightarrow> 'a \<Rightarrow> int) \<Rightarrow> 'a BAVL \<Rightarrow> 'v \<Rightarrow> 'a \<Rightarrow> 'a option option" where
  "BAVL_lookup_exact_loop cmp o' val c =
     (let comp = cmp val c in
      if comp = 0 then Some (Some c)
      else (case link_of o' c (comp = 1) of
              None \<Rightarrow> Some None
            | Some c' \<Rightarrow> BAVL_lookup_exact_loop cmp o' val c'))"

definition BAVL_LookupExact :: "('v \<Rightarrow> 'a \<Rightarrow> int) \<Rightarrow> 'a BAVL \<Rightarrow> 'v \<Rightarrow> 'a option option" where
  "BAVL_LookupExact cmp o' val =
     (case b_root o' of None \<Rightarrow> Some None | Some c \<Rightarrow> BAVL_lookup_exact_loop cmp o' val c)"

text \<open>Following one side to its end, as \<^verbatim>\<open>BAVL_GetFirst\<close>, \<^verbatim>\<open>BAVL_GetLast\<close>, \<^verbatim>\<open>BAVL_GetNext\<close> and
  \<^verbatim>\<open>BAVL_GetPrev\<close> do.\<close>

partial_function (option) BAVL_descend :: "'a BAVL \<Rightarrow> bool \<Rightarrow> 'a \<Rightarrow> 'a option" where
  "BAVL_descend o' d n =
     (case link_of o' n d of None \<Rightarrow> Some n | Some n' \<Rightarrow> BAVL_descend o' d n')"

definition BAVL_GetFirst :: "'a BAVL \<Rightarrow> 'a option option" where
  "BAVL_GetFirst o' =
     (case b_root o' of None \<Rightarrow> Some None | Some n \<Rightarrow> map_option Some (BAVL_descend o' False n))"

definition BAVL_GetLast :: "'a BAVL \<Rightarrow> 'a option option" where
  "BAVL_GetLast o' =
     (case b_root o' of None \<Rightarrow> Some None | Some n \<Rightarrow> map_option Some (BAVL_descend o' True n))"

text \<open>Climbing while the node is on the given side of its parent; the result is the parent then.\<close>

partial_function (option) BAVL_climb :: "'a BAVL \<Rightarrow> bool \<Rightarrow> 'a \<Rightarrow> 'a option option" where
  "BAVL_climb o' d n =
     (case parent_of o' n of
        None \<Rightarrow> Some None
      | Some p \<Rightarrow> if Some n = link_of o' p d then BAVL_climb o' d p else Some (Some p))"

definition BAVL_GetNext :: "'a BAVL \<Rightarrow> 'a \<Rightarrow> 'a option option" where
  "BAVL_GetNext o' n =
     (case link_of o' n True of
        Some n' \<Rightarrow> map_option Some (BAVL_descend o' False n')
      | None \<Rightarrow> BAVL_climb o' True n)"

definition BAVL_GetPrev :: "'a BAVL \<Rightarrow> 'a \<Rightarrow> 'a option option" where
  "BAVL_GetPrev o' n =
     (case link_of o' n False of
        Some n' \<Rightarrow> map_option Some (BAVL_descend o' True n')
      | None \<Rightarrow> BAVL_climb o' False n)"

end
