(* ===== verification/Bavl_Paths.thy ===== *)
theory Bavl_Paths
  imports Bavl "HOL-Library.Tree"
begin

text \<open>
  The pointer structure of \<open>BAVL\<close> represents a binary tree. A position in the tree is a subtree and the path
  to it, kept as a list of frames from the position up to the root. Rotation and the replacement of a
  child act locally on such positions; rebalancing is an induction on the path.
\<close>

subsection \<open>Trees and paths in the heap\<close>

type_synonym 'a btree = "('a \<times> int) tree"
type_synonym 'a frame = "bool \<times> 'a \<times> int \<times> 'a btree"

fun rep :: "('a \<Rightarrow> 'a BAVLNode) \<Rightarrow> 'a btree \<Rightarrow> 'a option \<Rightarrow> 'a option \<Rightarrow> bool" where
  "rep h Leaf p q \<longleftrightarrow> p = None"
| "rep h (Node l (a, b) r) p q \<longleftrightarrow>
     p = Some a \<and> n_parent (h a) = q \<and> n_balance (h a) = b \<and>
     rep h l (n_link (h a) False) (Some a) \<and> rep h r (n_link (h a) True) (Some a)"

text \<open>\<open>crep h c p q rt\<close>: above the position \<open>p\<close> with parent \<open>q\<close> lies the path \<open>c\<close>, in a tree with root \<open>rt\<close>.\<close>

fun crep :: "('a \<Rightarrow> 'a BAVLNode) \<Rightarrow> 'a frame list \<Rightarrow> 'a option \<Rightarrow> 'a option \<Rightarrow> 'a option \<Rightarrow> bool" where
  "crep h [] p q rt \<longleftrightarrow> q = None \<and> rt = p"
| "crep h ((d, a, b, s) # c) p q rt \<longleftrightarrow>
     q = Some a \<and> n_link (h a) d = p \<and> n_balance (h a) = b \<and> rep h s (n_link (h a) (\<not> d)) (Some a) \<and>
     crep h c (Some a) (n_parent (h a)) rt"

text \<open>A node with its child on side \<open>d\<close> first.\<close>

definition nd :: "bool \<Rightarrow> 'a \<Rightarrow> int \<Rightarrow> 'a btree \<Rightarrow> 'a btree \<Rightarrow> 'a btree" where
  "nd d a b x y = (if d then Node y (a, b) x else Node x (a, b) y)"

fun fill :: "'a frame list \<Rightarrow> 'a btree \<Rightarrow> 'a btree" where
  "fill [] t = t"
| "fill ((d, a, b, s) # c) t = fill c (nd d a b t s)"

abbreviation addrs :: "'a btree \<Rightarrow> 'a list" where
  "addrs t \<equiv> map fst (inorder t)"

fun before :: "'a frame list \<Rightarrow> 'a list" where
  "before [] = []"
| "before ((d, a, b, s) # c) = (if d then before c @ addrs s @ [a] else before c)"

fun after :: "'a frame list \<Rightarrow> 'a list" where
  "after [] = []"
| "after ((d, a, b, s) # c) = (if d then after c else a # addrs s @ after c)"

lemma addrs_nd [simp]:
  "addrs (nd d a b x y) = (if d then addrs y @ a # addrs x else addrs x @ a # addrs y)"
  by (simp add: nd_def)

lemma addrs_fill: "addrs (fill c t) = before c @ addrs t @ after c"
  by (induction c t rule: fill.induct) auto

lemma rep_nd [simp]:
  "rep h (nd d a b x y) p q \<longleftrightarrow>
     p = Some a \<and> n_parent (h a) = q \<and> n_balance (h a) = b \<and>
     rep h x (n_link (h a) d) (Some a) \<and> rep h y (n_link (h a) (\<not> d)) (Some a)"
  by (cases d) (auto simp: nd_def)

lemma nd_exists: "t \<noteq> Leaf \<Longrightarrow> \<exists>a b x y. t = nd d a b x y"
proof (cases t)
  case (Node l x r)
  then have "t = nd d (fst x) (snd x) (if d then r else l) (if d then l else r)"
    by (simp add: nd_def)
  then show ?thesis by blast
qed simp

lemma rep_fill: "rep h (fill c t) rt None \<longleftrightarrow> (\<exists>p q. rep h t p q \<and> crep h c p q rt)"
proof (induction c t rule: fill.induct)
  case (2 d a b s c t)
  show ?case unfolding fill.simps 2 by auto
qed auto

lemma rep_ptr: "rep h t p q \<Longrightarrow> p = (case t of Leaf \<Rightarrow> None | Node l x r \<Rightarrow> Some (fst x))"
  by (cases t) (auto split: prod.splits)

lemma rep_Some: "rep h t (Some a) q \<Longrightarrow> a \<in> set (addrs t)"
  by (cases t) auto

text \<open>What a subtree and a path depend on.\<close>

lemma rep_frame:
  assumes "rep h t p q" and "\<And>a. a \<in> set (addrs t) \<Longrightarrow> h' a = h a"
  shows "rep h' t p q"
  using assms by (induction h t p q rule: rep.induct) auto

lemma rep_reparent:
  assumes "rep h t p q" and "distinct (addrs t)"
    and "\<And>a. a \<in> set (addrs t) \<Longrightarrow> h' a = (if p = Some a then (h a)\<lparr>n_parent := q'\<rparr> else h a)"
  shows "rep h' t p q'"
proof (cases t)
  case (Node l x r)
  obtain a b where x: "x = (a, b)" by (cases x)
  have p: "p = Some a" and l: "rep h l (n_link (h a) False) (Some a)" and r: "rep h r (n_link (h a) True) (Some a)"
    using assms(1) Node x by auto
  have "rep h' l (n_link (h a) False) (Some a)" "rep h' r (n_link (h a) True) (Some a)"
    using assms(2,3) Node x p by (auto intro!: rep_frame [OF l] rep_frame [OF r])
  then show ?thesis using assms Node x p by auto
qed (use assms in simp)

lemma crep_frame:
  assumes "crep h c p q rt" and "\<And>a. a \<in> set (before c) \<union> set (after c) \<Longrightarrow> h' a = h a"
  shows "crep h' c p q rt"
  using assms
proof (induction h c p q rt rule: crep.induct)
  case (2 h d a b s c p q rt)
  have "h' a = h a" using 2(3) by (cases d) auto
  moreover have "rep h' s (n_link (h a) (\<not> d)) (Some a)"
    by (rule rep_frame [where h = h]) (use 2(2,3) in \<open>auto split: if_splits\<close>)
  moreover have "crep h' c (Some a) (n_parent (h a)) rt"
    by (rule 2(1)) (use 2(2,3) in \<open>auto split: if_splits\<close>)
  ultimately show ?case using 2(2) by simp
qed simp

subsection \<open>Elementary assignments\<close>

lemma set_simps [simp]:
  "b_root (set_parent a p t) = b_root t" "b_root (set_link a d p t) = b_root t" "b_root (set_balance a b t) = b_root t"
  "b_node (set_parent a p t) = (b_node t)(a := (b_node t a)\<lparr>n_parent := p\<rparr>)"
  "b_node (set_link a d p t) = (b_node t)(a := (b_node t a)\<lparr>n_link := (n_link (b_node t a))(d := p)\<rparr>)"
  "b_node (set_balance a b t) = (b_node t)(a := (b_node t a)\<lparr>n_balance := b\<rparr>)"
  by (simp_all add: set_parent_def set_link_def set_balance_def)

lemma set_parent_opt_simps [simp]:
  "b_root (set_parent_opt p q t) = b_root t"
  "b_node (set_parent_opt p q t) a = (if p = Some a then (b_node t a)\<lparr>n_parent := q\<rparr> else b_node t a)"
  by (auto simp: set_parent_opt_def split: option.split)

lemma set_child_other: "p \<noteq> Some a \<Longrightarrow> b_node (set_child p old n t) a = b_node t a"
  by (auto simp: set_child_def split: option.split)

lemma set_child_fields [simp]:
  "n_parent (b_node (set_child p old n t) a) = n_parent (b_node t a)"
  "n_balance (b_node (set_child p old n t) a) = n_balance (b_node t a)"
  by (auto simp: set_child_def split: option.split)

lemma crep_parent: "crep h c p (Some a) rt \<Longrightarrow> a \<in> set (before c) \<union> set (after c)"
  by (cases c) (auto split: if_splits)

text \<open>Which child of its parent a node is.\<close>

lemma crep_side:
  assumes "crep h ((d, a, b, s) # c) (Some n) q rt" and "n \<notin> set (addrs s)"
  shows "(Some n = n_link (h a) True) = d"
  using assms rep_Some [of h s n "Some a"] by (cases d) auto

text \<open>Replacing the subtree at a position in its parent.\<close>

lemma set_child_crep:
  assumes c: "crep (b_node t) c (Some old) q (b_root t)"
    and d: "distinct (before c @ [old] @ after c)"
    and eq: "\<And>a. a \<in> set (before c) \<union> set (after c) \<Longrightarrow> b_node t' a = b_node t a" and rt: "b_root t' = b_root t"
  shows "crep (b_node (set_child q old n t')) c n q (b_root (set_child q old n t'))"
proof (cases c)
  case Nil
  then show ?thesis using c by (simp add: set_child_def)
next
  case (Cons f c')
  obtain dd a b s where f: "f = (dd, a, b, s)" by (cases f)
  have q: "q = Some a" and l: "n_link (b_node t a) dd = Some old" and bal: "n_balance (b_node t a) = b"
    and s: "rep (b_node t) s (n_link (b_node t a) (\<not> dd)) (Some a)"
    and c': "crep (b_node t) c' (Some a) (n_parent (b_node t a)) (b_root t)"
    using c Cons f by auto
  have ea: "b_node t' a = b_node t a" using eq Cons f by (cases dd) auto
  have "old \<notin> set (addrs s)" using d Cons f by (auto split: if_splits)
  then have side: "(Some old = n_link (b_node t' a) True) = dd"
    using crep_side [OF c [unfolded Cons f]] ea by simp
  let ?h = "b_node (set_child q old n t')"
  have h: "?h = (b_node t')(a := (b_node t' a)\<lparr>n_link := (n_link (b_node t' a))(dd := n)\<rparr>)"
    using q side by (simp add: set_child_def)
  have "rep ?h s (n_link (b_node t a) (\<not> dd)) (Some a)"
    by (rule rep_frame [OF s]) (use d eq Cons f in \<open>auto simp: h split: if_splits\<close>)
  moreover have "crep ?h c' (Some a) (n_parent (b_node t a)) (b_root t)"
    by (rule crep_frame [OF c']) (use d eq Cons f in \<open>auto simp: h split: if_splits\<close>)
  moreover have "b_root (set_child q old n t') = b_root t" using q rt by (simp add: set_child_def)
  moreover have "n_link (?h a) dd = n" "n_link (?h a) (\<not> dd) = n_link (b_node t a) (\<not> dd)"
    using ea by (simp_all add: h)
  ultimately show ?thesis using Cons f q bal ea by simp
qed

subsection \<open>Rotation\<close>

lemma rotate_ok:
  assumes t: "rep (b_node T) (nd dir r b x (nd dir nr b' y z)) (Some r) q"
    and c: "crep (b_node T) c (Some r) q (b_root T)"
    and d: "distinct (before c @ addrs (nd dir r b x (nd dir nr b' y z)) @ after c)"
  shows "\<exists>T'. BAVL_rotate T r dir = Some T' \<and> rep (b_node T') (nd dir nr b' (nd dir r b x y) z) (Some nr) q \<and>
    crep (b_node T') c (Some nr) q (b_root T')"
proof -
  let ?h = "b_node T" let ?py = "n_link (?h nr) dir"
  have ln: "n_link (?h r) (\<not> dir) = Some nr" and fr: "n_parent (?h r) = q" "n_balance (?h r) = b" "n_balance (?h nr) = b'"
    and x: "rep ?h x (n_link (?h r) dir) (Some r)" and y: "rep ?h y ?py (Some nr)"
    and z: "rep ?h z (n_link (?h nr) (\<not> dir)) (Some nr)"
    using t by auto
  have ne: "r \<noteq> nr" "r \<notin> set (addrs x)" "r \<notin> set (addrs y)" "r \<notin> set (addrs z)"
    "nr \<notin> set (addrs x)" "nr \<notin> set (addrs y)" "nr \<notin> set (addrs z)" "distinct (addrs y)"
    "r \<notin> set (before c) \<union> set (after c)" "nr \<notin> set (before c) \<union> set (after c)"
    "set (addrs x) \<inter> set (addrs y) = {}" "set (addrs z) \<inter> set (addrs y) = {}"
    "(set (addrs x) \<union> set (addrs y) \<union> set (addrs z)) \<inter> (set (before c) \<union> set (after c)) = {}"
    "distinct (before c @ [r] @ after c)"
    using d by (auto split: if_splits)
  define T4 where "T4 = set_parent nr q (set_link nr dir (Some r) (set_parent_opt ?py (Some r)
      (set_link r (\<not> dir) ?py T)))"
  define T' where "T' = set_parent r (Some nr) (set_child q r (Some nr) T4)"
  have py: "a \<in> set (addrs y)" if "?py = Some a" for a using rep_Some y that by metis
  have rot: "BAVL_rotate T r dir = Some T'"
    using ln ne(1) fr(1) py ne(3) by (auto simp: BAVL_rotate_def T'_def T4_def Let_def)
  have h4: "b_node T4 r = (?h r)\<lparr>n_link := (n_link (?h r))(\<not> dir := ?py)\<rparr>"
    "b_node T4 nr = (?h nr)\<lparr>n_link := (n_link (?h nr))(dir := Some r), n_parent := q\<rparr>"
    "a \<noteq> r \<Longrightarrow> a \<noteq> nr \<Longrightarrow> b_node T4 a = (if ?py = Some a then (?h a)\<lparr>n_parent := Some r\<rparr> else ?h a)" for a
    using ne(1,3,6) py by (auto simp: T4_def)
  have eq4: "b_node T4 a = ?h a" if "a \<in> set (before c) \<union> set (after c)" for a
  proof -
    have "a \<noteq> r" "a \<noteq> nr" "a \<notin> set (addrs y)" using that ne(9,10,13) by blast+
    then show ?thesis using h4(3) [of a] py by auto
  qed
  have c5: "crep (b_node (set_child q r (Some nr) T4)) c (Some nr) q (b_root (set_child q r (Some nr) T4))"
    by (rule set_child_crep [OF c ne(14) eq4]) (simp_all add: T4_def)
  have c': "crep (b_node T') c (Some nr) q (b_root T')"
    unfolding T'_def set_simps by (rule crep_frame [OF c5]) (use ne(9) in auto)
  have q: "q \<noteq> Some a" if "a \<notin> set (before c) \<union> set (after c)" for a
    using crep_parent [of ?h c "Some r" a] c that by auto
  have h': "b_node T' r = (?h r)\<lparr>n_link := (n_link (?h r))(\<not> dir := ?py), n_parent := Some nr\<rparr>"
    "b_node T' nr = (?h nr)\<lparr>n_link := (n_link (?h nr))(dir := Some r), n_parent := q\<rparr>"
    using h4 q ne(1,9,10) by (simp_all add: T'_def set_child_other)
  have h'': "b_node T' a = (if ?py = Some a then (?h a)\<lparr>n_parent := Some r\<rparr> else ?h a)"
    if "a \<noteq> r" "a \<noteq> nr" "a \<notin> set (before c) \<union> set (after c)" for a
    using h4(3) [OF that(1,2)] that q by (simp add: T'_def set_child_other)
  have hxz: "b_node T' a = ?h a" if "a \<in> set (addrs x) \<union> set (addrs z)" for a
  proof -
    have "a \<noteq> r" "a \<noteq> nr" "a \<notin> set (before c) \<union> set (after c)" "a \<notin> set (addrs y)"
      using that ne(2,4,5,7,11-13) by blast+
    then show ?thesis using h'' [of a] py by auto
  qed
  have hy: "b_node T' a = (if ?py = Some a then (?h a)\<lparr>n_parent := Some r\<rparr> else ?h a)" if "a \<in> set (addrs y)" for a
    by (rule h'') (use that ne(3,6,13) in blast)+
  have "rep (b_node T') x (n_link (?h r) dir) (Some r)" "rep (b_node T') z (n_link (?h nr) (\<not> dir)) (Some nr)"
    by (rule rep_frame [OF x], rule hxz, simp) (rule rep_frame [OF z], rule hxz, simp)
  moreover have "rep (b_node T') y ?py (Some r)" by (rule rep_reparent [OF y ne(8) hy])
  ultimately show ?thesis using rot c' h' fr by auto
qed

subsection \<open>Balance\<close>

abbreviation ht :: "'a btree \<Rightarrow> int" where
  "ht t \<equiv> int (height t)"

fun avl :: "'a btree \<Rightarrow> bool" where
  "avl Leaf \<longleftrightarrow> True"
| "avl (Node l (a, b) r) \<longleftrightarrow> b = ht r - ht l \<and> \<bar>b\<bar> \<le> 1 \<and> avl l \<and> avl r"

lemma avl_nd [simp]:
  "avl (nd d a b x y) \<longleftrightarrow> b = (if d then ht x - ht y else ht y - ht x) \<and> \<bar>b\<bar> \<le> 1 \<and> avl x \<and> avl y"
  by (auto simp: nd_def)

lemma height_nd [simp]: "height (nd d a b x y) = Suc (max (height x) (height y))"
  by (simp add: nd_def max.commute)

lemma nd_flip: "nd d a b x y = nd (\<not> d) a b y x"
  by (simp add: nd_def)

text \<open>Assigning to the balance factor of a node of the tree.\<close>

definition setb :: "'a \<Rightarrow> int \<Rightarrow> 'a btree \<Rightarrow> 'a btree" where
  "setb a v t = map_tree (\<lambda>(x, b). (x, if x = a then v else b)) t"

lemma setb_nd [simp]: "setb a v (nd d c b x y) = nd d c (if c = a then v else b) (setb a v x) (setb a v y)"
  by (simp add: nd_def setb_def)

lemma setb_id [simp]: "a \<notin> set (addrs t) \<Longrightarrow> setb a v t = t"
  by (induction t) (auto simp: setb_def)

lemma addrs_setb [simp]: "addrs (setb a v t) = addrs t"
  by (induction t) (auto simp: setb_def)

lemma rep_set_balance:
  "rep (b_node T) t p q \<Longrightarrow> rep (b_node (set_balance a v T)) (setb a v t) p q"
  by (induction "b_node T" t p q rule: rep.induct) (auto simp: setb_def)

lemma crep_set_balance:
  assumes "crep (b_node T) c p q rt" and "a \<notin> set (before c) \<union> set (after c)"
  shows "crep (b_node (set_balance a v T)) c p q rt"
  by (rule crep_frame [OF assms(1)]) (use assms(2) in auto)

text \<open>The position of a subtree \<open>t\<close> under the path \<open>c\<close> in a tree whose nodes are pairwise different.\<close>

definition at :: "'a BAVL \<Rightarrow> 'a btree \<Rightarrow> 'a option \<Rightarrow> 'a option \<Rightarrow> 'a frame list \<Rightarrow> bool" where
  "at T t p q c \<longleftrightarrow> rep (b_node T) t p q \<and> crep (b_node T) c p q (b_root T) \<and> distinct (before c @ addrs t @ after c)"

lemma at_rotate:
  assumes "at T (nd dir r b x (nd dir nr b' y z)) p q c"
  shows "\<exists>T'. BAVL_rotate T r dir = Some T' \<and> at T' (nd dir nr b' (nd dir r b x y) z) (Some nr) q c"
proof -
  have p: "p = Some r" using assms by (simp add: at_def)
  obtain T' where "BAVL_rotate T r dir = Some T'" "rep (b_node T') (nd dir nr b' (nd dir r b x y) z) (Some nr) q"
    "crep (b_node T') c (Some nr) q (b_root T')"
    using rotate_ok [of T dir r b x nr b' y z q c] assms p by (auto simp: at_def)
  moreover have "addrs (nd dir nr b' (nd dir r b x y) z) = addrs (nd dir r b x (nd dir nr b' y z))" by simp
  ultimately show ?thesis using assms unfolding at_def by (intro exI [of _ T']) (simp only: simp_thms)
qed

lemma at_set_balance:
  assumes "at T t p q c" and "a \<in> set (addrs t)"
  shows "at (set_balance a v T) (setb a v t) p q c"
proof -
  have "a \<notin> set (before c) \<union> set (after c)" using assms by (auto simp: at_def)
  then show ?thesis
    using assms rep_set_balance [of T t p q a v] crep_set_balance [of T c p q "b_root T" a v]
    unfolding at_def addrs_setb set_simps(3) by simp
qed

lemma places_up:
  "before ((d, a, b, s) # c) @ addrs t @ after ((d, a, b, s) # c) = before c @ addrs (nd d a b t s) @ after c"
  by simp

lemma at_up: "at T t p q ((d, a, b, s) # c) \<Longrightarrow> at T (nd d a b t s) (Some a) (n_parent (b_node T a)) c"
  unfolding at_def places_up rep_nd crep.simps by (elim conjE) (intro conjI; simp only:)

lemma at_down: "at T (nd d a b t s) p q c \<Longrightarrow> at T t (n_link (b_node T a) d) (Some a) ((d, a, b, s) # c)"
  unfolding at_def places_up rep_nd crep.simps by (elim conjE) (intro conjI; simp only:)

lemma at_nd: "at T (nd d a b x y) p q c \<Longrightarrow> p = Some a \<and> q = n_parent (b_node T a) \<and> n_balance (b_node T a) = b"
  by (auto simp: at_def)

lemma at_link:
  assumes "at T (nd d a b x y) p q c"
  shows "x = nd e ch bc u v \<Longrightarrow> n_link (b_node T a) d = Some ch \<and> n_balance (b_node T ch) = bc"
    and "y = nd e ch bc u v \<Longrightarrow> n_link (b_node T a) (\<not> d) = Some ch \<and> n_balance (b_node T ch) = bc"
  using assms by (auto simp: at_def)

definition sgn_of :: "bool \<Rightarrow> int" where
  "sgn_of d = (if d then 1 else - 1)"

lemma transform_single:
  assumes pos: "at T (nd d a (2 * sgn_of d) (nd d ch bc u v) L) p q c"
    and h: "avl (nd d ch bc u v)" "avl L" "ht u = ht L + 1" and bc: "bc = sgn_of d \<or> bc = 0"
  shows "\<exists>T' delta' t'. BAVL_transform T a delta = Some (T', ch, delta') \<and> at T' t' (Some ch) q c \<and> avl t' \<and>
    ht t' = ht L + 3 + (delta' - delta) \<and> (delta' = delta \<or> delta' = delta - 1) \<and>
    addrs t' = addrs (nd d a (2 * sgn_of d) (nd d ch bc u v) L)"
proof -
  have "at T (nd (\<not> d) a (2 * sgn_of d) L (nd (\<not> d) ch bc v u)) p q c"
    using pos unfolding nd_flip [of d a] nd_flip [of d ch] .
  from at_rotate [OF this] obtain T1 where rot: "BAVL_rotate T a (\<not> d) = Some T1"
    and a1: "at T1 (nd (\<not> d) ch bc (nd (\<not> d) a (2 * sgn_of d) L v) u) (Some ch) q c"
    by (elim exE conjE)
  have ne: "a \<noteq> ch" "ch \<notin> set (addrs L) \<union> set (addrs u) \<union> set (addrs v)" "a \<notin> set (addrs L) \<union> set (addrs u) \<union> set (addrs v)"
    using pos by (auto simp: at_def split: if_splits)
  have b: "n_balance (b_node T a) = 2 * sgn_of d" and l: "n_link (b_node T a) d = Some ch" "n_balance (b_node T ch) = bc"
    using at_nd [OF pos] at_link(1) [OF pos] by auto
  let ?k = "if bc = 0 then sgn_of d else 0"
  let ?T2 = "set_balance ch (- ?k) (set_balance a ?k T1)"
  have tr: "BAVL_transform T a delta = Some (?T2, ch, if bc = 0 then delta else delta - 1)"
    using b l rot bc by (cases d) (auto simp: BAVL_transform_def sgn_of_def Let_def)
  have "at ?T2 (nd (\<not> d) ch (- ?k) (nd (\<not> d) a ?k L v) u) (Some ch) q c"
    using at_set_balance [OF at_set_balance [OF a1, of a ?k], of ch "- ?k"] ne by simp
  moreover have "avl (nd (\<not> d) ch (- ?k) (nd (\<not> d) a ?k L v) u)"
    using h bc by (cases d) (auto simp: sgn_of_def)
  moreover have "ht (nd (\<not> d) ch (- ?k) (nd (\<not> d) a ?k L v) u) = ht L + 3 + (if bc = 0 then 0 else - 1)"
    using h bc by (cases d) (auto simp: sgn_of_def)
  ultimately show ?thesis using tr by (intro exI conjI) (assumption | simp)+
qed

lemma transform_double:
  assumes pos: "at T (nd d a (2 * sgn_of d) (nd d ch (- sgn_of d) u (nd d g bg y z)) L) p q c"
    and h: "avl (nd d ch (- sgn_of d) u (nd d g bg y z))" "avl L" "ht u = ht L"
  shows "\<exists>T' t'. BAVL_transform T a delta = Some (T', g, delta - 1) \<and> at T' t' (Some g) q c \<and> avl t' \<and>
    ht t' = ht L + 2 \<and>
    addrs t' = addrs (nd d a (2 * sgn_of d) (nd d ch (- sgn_of d) u (nd d g bg y z)) L)"
proof -
  let ?b2 = "2 * sgn_of d" and ?b1 = "- sgn_of d"
  obtain T1 where r1: "BAVL_rotate T ch d = Some T1"
    and a1: "at T1 (nd d g bg (nd d ch ?b1 u y) z) (Some g) (Some a) ((d, a, ?b2, L) # c)"
    using at_rotate [OF at_down [OF pos]] by (elim exE conjE)
  have q1: "n_parent (b_node T1 a) = q"
  proof -
    have "crep (b_node T1) c (Some a) (n_parent (b_node T1 a)) (b_root T1)" "crep (b_node T) c (Some a) q (b_root T)"
      using a1 pos at_nd [OF pos] by (simp_all add: at_def)
    then show ?thesis by (cases c) auto
  qed
  have "at T1 (nd (\<not> d) a ?b2 L (nd (\<not> d) g bg z (nd d ch ?b1 u y))) (Some a) q c"
    using at_up [OF a1] unfolding nd_flip [of d a] nd_flip [of d g] q1 .
  from at_rotate [OF this] obtain T2 where r2: "BAVL_rotate T1 a (\<not> d) = Some T2"
    and a2: "at T2 (nd (\<not> d) g bg (nd (\<not> d) a ?b2 L z) (nd d ch ?b1 u y)) (Some g) q c"
    by (elim exE conjE)
  have ne: "a \<noteq> ch" "a \<noteq> g" "ch \<noteq> g"
    "{a, ch, g} \<inter> (set (addrs L) \<union> set (addrs u) \<union> set (addrs y) \<union> set (addrs z)) = {}"
    using pos by (auto simp: at_def split: if_splits)
  have b: "n_balance (b_node T a) = ?b2" "n_link (b_node T a) d = Some ch" "n_balance (b_node T ch) = ?b1"
    using at_nd [OF pos] at_link(1) [OF pos] by auto
  have g: "n_link (b_node T ch) (\<not> d) = Some g" using at_link(2) [OF at_down [OF pos]] by simp
  have bg: "n_balance (b_node T2 g) = bg" using at_nd [OF a2] by simp
  let ?s = "sgn_of d"
  let ?ka = "- max 0 (bg * ?s) * ?s" and ?kc = "max 0 (- bg * ?s) * ?s"
  let ?T3 = "set_balance g 0 (set_balance ch ?kc (set_balance a ?ka T2))"
  have tr: "BAVL_transform T a delta = Some (?T3, g, delta - 1)"
    using b g r1 r2 bg by (cases d) (simp_all add: BAVL_transform_def sgn_of_def Let_def)
  have "at ?T3 (nd (\<not> d) g 0 (nd (\<not> d) a ?ka L z) (nd d ch ?kc u y)) (Some g) q c"
    using at_set_balance [OF at_set_balance [OF at_set_balance [OF a2, of a ?ka], of ch ?kc], of g 0] ne
    by simp
  moreover have "avl (nd (\<not> d) g 0 (nd (\<not> d) a ?ka L z) (nd d ch ?kc u y))"
    using h by (cases d) (auto simp: sgn_of_def max_def)
  moreover have "ht (nd (\<not> d) g 0 (nd (\<not> d) a ?ka L z) (nd d ch ?kc u y)) = ht L + 2"
    using h by (cases d) (auto simp: sgn_of_def max_def split: if_splits)
  moreover have "addrs (nd (\<not> d) g 0 (nd (\<not> d) a ?ka L z) (nd d ch ?kc u y)) =
      addrs (nd d a ?b2 (nd d ch ?b1 u (nd d g bg y z)) L)" by simp
  ultimately show ?thesis using tr by blast
qed

lemma transform_ok:
  assumes pos: "at T (nd d a (2 * sgn_of d) H L) p q c" and h: "avl H" "avl L" "ht H = ht L + 2"
  shows "\<exists>T' n' delta' t'. BAVL_transform T a delta = Some (T', n', delta') \<and> at T' t' (Some n') q c \<and> avl t' \<and>
    ht t' = ht H + 1 + (delta' - delta) \<and> (delta' = delta \<or> delta' = delta - 1) \<and>
    addrs t' = addrs (nd d a (2 * sgn_of d) H L)"
proof -
  obtain ch bc u v where H: "H = nd d ch bc u v"
    using nd_exists [of H d] h(3) by fastforce
  have bal: "bc = sgn_of d * (ht u - ht v)" "\<bar>ht u - ht v\<bar> \<le> 1" "avl u" "avl v"
    using h(1) H by (auto simp: sgn_of_def split: if_splits)
  show ?thesis
  proof (cases "ht u < ht v")
    case True
    then have hu: "ht u = ht L" "ht v = ht L + 1" using bal(2) h(3) H by auto
    then have bc: "bc = - sgn_of d" using bal(1) by simp
    obtain g bg y z where v: "v = nd d g bg y z"
      using nd_exists [of v d] hu(2) by fastforce
    show ?thesis
      using transform_double [of T d a ch u g bg y z L p q c delta] pos h hu unfolding H v bc by fastforce
  next
    case False
    then have hu: "ht u = ht L + 1" and "ht u - ht v = 1 \<or> ht u - ht v = 0" using bal(2) h(3) H by auto
    then have "bc = sgn_of d \<or> bc = 0" using bal(1) by auto
    with hu show ?thesis
      using transform_single [of T d a ch bc u v L p q c delta] pos h unfolding H by fastforce
  qed
qed

subsection \<open>Rebalancing\<close>

text \<open>The balance factors on a path fit a subtree of height \<open>k\<close> at its end.\<close>

fun cavl :: "'a frame list \<Rightarrow> int \<Rightarrow> bool" where
  "cavl [] k \<longleftrightarrow> True"
| "cavl ((d, a, b, s) # c) k \<longleftrightarrow>
     avl s \<and> b = sgn_of d * (k - ht s) \<and> \<bar>k - ht s\<bar> \<le> 1 \<and> cavl c (1 + max k (ht s))"

lemma avl_fill: "avl (fill c t) \<longleftrightarrow> avl t \<and> cavl c (ht t)"
proof (induction c t rule: fill.induct)
  case (2 d a b s c t)
  show ?case unfolding fill.simps 2 by (auto simp: sgn_of_def of_nat_max)
qed simp

lemma at_fill:
  assumes "at T t p q c"
  shows "at T (fill c t) (b_root T) None []"
proof -
  have "rep (b_node T) (fill c t) (b_root T) None" using assms by (auto simp: at_def rep_fill)
  moreover have "distinct (addrs (fill c t))" using assms unfolding at_def addrs_fill by blast
  ultimately show ?thesis by (simp add: at_def)
qed

lemma at_root: "at T t p q [] \<Longrightarrow> q = None \<and> b_root T = p"
  by (simp add: at_def)

lemma rebalance_step:
  assumes pos: "at T t p q ((d, a, b, s) # c)" and t: "avl t" "ht t = k + delta" "\<bar>delta\<bar> \<le> 1"
    and c: "cavl ((d, a, b, s) # c) k" and new: "delta1 = max delta (ht s - k) - max 0 (ht s - k)"
  shows "\<exists>T' n' delta' t'. BAVL_transform (set_balance a (b - BAVL_OPTNEG delta d) T) a delta1 = Some (T', n', delta') \<and>
    at T' t' (Some n') (n_parent (b_node T a)) c \<and> avl t' \<and> ht t' = 1 + max k (ht s) + delta' \<and> \<bar>delta'\<bar> \<le> 1 \<and>
    addrs t' = addrs (nd d a b t s)"
proof -
  let ?b = "b - BAVL_OPTNEG delta d" let ?T = "set_balance a ?b T" let ?q = "n_parent (b_node T a)"
  have cs: "avl s" "b = sgn_of d * (k - ht s)" "\<bar>k - ht s\<bar> \<le> 1" using c by auto
  have b: "?b = sgn_of d * (ht t - ht s)"
    using cs(2) t(2) by (simp add: BAVL_OPTNEG_def sgn_of_def)
  have ne: "a \<notin> set (addrs t) \<union> set (addrs s)" using pos by (auto simp: at_def split: if_splits)
  have pos1: "at ?T (nd d a ?b t s) (Some a) ?q c"
    using at_set_balance [OF at_up [OF pos], of a ?b] ne by simp
  consider "\<bar>ht t - ht s\<bar> \<le> 1" | "ht t - ht s = 2" | "ht t - ht s = - 2" using cs(3) t(2,3) by linarith
  then show ?thesis
  proof cases
    case 1
    then have "BAVL_transform ?T a delta1 = Some (?T, a, delta1)"
      using b by (auto simp: BAVL_transform_def sgn_of_def)
    moreover have "avl (nd d a ?b t s)" using 1 b t(1) cs(1) by (auto simp: sgn_of_def)
    moreover have "ht (nd d a ?b t s) = 1 + max k (ht s) + delta1" "\<bar>delta1\<bar> \<le> 1"
      using t(2,3) new cs(3) by (auto simp: of_nat_max max_def)
    moreover have "addrs (nd d a ?b t s) = addrs (nd d a b t s)" by simp
    ultimately show ?thesis using pos1 by blast
  next
    case 2
    then have "?b = 2 * sgn_of d" using b by simp
    with pos1 have pos2: "at ?T (nd d a (2 * sgn_of d) t s) (Some a) ?q c" by simp
    have "delta1 = 1" "k = ht s + 1" "delta = 1" using 2 cs(3) t(2,3) new by auto
    then show ?thesis using transform_ok [OF pos2 t(1) cs(1), of delta1] 2 t(2) by fastforce
  next
    case 3
    then have "?b = 2 * sgn_of (\<not> d)" using b by (simp add: sgn_of_def)
    with pos1 have pos2: "at ?T (nd (\<not> d) a (2 * sgn_of (\<not> d)) s t) (Some a) ?q c"
      unfolding nd_flip [of d] by simp
    have "delta1 = 0" "k = ht s - 1" "delta = - 1" using 3 cs(3) t(2,3) new by auto
    then show ?thesis using transform_ok [OF pos2 cs(1) t(1), of delta1] 3 t(2) by fastforce
  qed
qed

lemma rebalance_ok:
  assumes "at T t p q ((d, a, b, s) # c)" and "avl t" "ht t = k + delta" "\<bar>delta\<bar> \<le> 1"
    and "cavl ((d, a, b, s) # c) k"
  shows "\<exists>T' t'. BAVL_rebalance T a d delta = Some T' \<and> at T' t' (b_root T') None [] \<and> avl t' \<and>
    addrs t' = before ((d, a, b, s) # c) @ addrs t @ after ((d, a, b, s) # c)"
  using assms
proof (induction "length c" arbitrary: c T t p q d a b s k delta rule: less_induct)
  case less
  note pos = less.prems(1) and t = less.prems(2-4) and c = less.prems(5)
  let ?all = "before ((d, a, b, s) # c) @ addrs t @ after ((d, a, b, s) # c)"
  show ?case
  proof (cases "delta = 0")
    case True
    then have "BAVL_rebalance T a d delta = Some T" by (simp add: BAVL_rebalance.simps)
    moreover have "avl (fill ((d, a, b, s) # c) t)" using t c True by (simp add: avl_fill del: fill.simps)
    ultimately show ?thesis using at_fill [OF pos] addrs_fill [of "(d, a, b, s) # c" t] by blast
  next
    case False
    let ?b = "b - BAVL_OPTNEG delta d" and ?delta = "max delta (ht s - k) - max 0 (ht s - k)"
    have bal: "n_balance (b_node T a) = b" and bs: "BAVL_OPTNEG b d = ht s - k"
      using pos c by (auto simp: at_def BAVL_OPTNEG_def sgn_of_def)
    obtain T' n' delta' t' where tr: "BAVL_transform (set_balance a ?b T) a ?delta = Some (T', n', delta')"
      and pos': "at T' t' (Some n') (n_parent (b_node T a)) c" and t': "avl t'" "ht t' = 1 + max k (ht s) + delta'" "\<bar>delta'\<bar> \<le> 1"
      and ad: "addrs t' = addrs (nd d a b t s)"
      using rebalance_step [OF pos t c refl] by blast
    have par: "n_parent (b_node T' n') = n_parent (b_node T a)"
      using pos' by (cases t') (auto simp: at_def)
    have unf: "BAVL_rebalance T a d delta =
        (case n_parent (b_node T a) of None \<Rightarrow> Some T'
         | Some p \<Rightarrow> BAVL_rebalance T' p (Some n' = n_link (b_node T' p) True) delta')"
      using False tr par by (subst BAVL_rebalance.simps) (simp add: bal bs Let_def)
    have all: "?all = before c @ addrs t' @ after c" unfolding places_up ad ..
    show ?thesis
    proof (cases c)
      case Nil
      then have "n_parent (b_node T a) = None" "b_root T' = Some n'" using at_root pos' by force+
      then show ?thesis using unf pos' t'(1) all Nil by auto
    next
      case (Cons f c')
      obtain d2 a2 b2 s2 where f: "f = (d2, a2, b2, s2)" by (cases f)
      have q: "n_parent (b_node T a) = Some a2" using pos' Cons f by (simp add: at_def)
      have "n' \<in> set (addrs t')" using pos' rep_Some by (fastforce simp: at_def)
      then have "n' \<notin> set (addrs s2)" using pos' Cons f by (auto simp: at_def split: if_splits)
      then have side: "(Some n' = n_link (b_node T' a2) True) = d2"
        using crep_side [of "b_node T'" d2 a2 b2 s2 c'] pos' Cons f by (auto simp: at_def)
      have "length c' < length c" using Cons by simp
      moreover have "at T' t' (Some n') (Some a2) ((d2, a2, b2, s2) # c')" using pos' q Cons f by simp
      moreover have "cavl ((d2, a2, b2, s2) # c') (1 + max k (ht s))" using c Cons f by simp
      ultimately obtain T'' t'' where "BAVL_rebalance T' a2 d2 delta' = Some T''" "at T'' t'' (b_root T'') None []"
        "avl t''" "addrs t'' = before c @ addrs t' @ after c"
        using less.hyps [of c' T' t' "Some n'" "Some a2" d2 a2 b2 s2 "1 + max k (ht s)" delta'] t' Cons f
        by blast
      then show ?thesis using unf q side all by auto
    qed
  qed
qed

end
