(* ===== verification/Bavl_Swap.thy ===== *)
theory Bavl_Swap
  imports Bavl_Paths
begin

text \<open>
  \<^verbatim>\<open>_BAVL_swap_nodes\<close> exchanges two nodes of a tree by rewriting every pointer to and from them. Its effect is
  to rename the two nodes in the whole structure, whether they are adjacent or far apart.
\<close>

subsection \<open>Swapping two nodes\<close>

text \<open>Swapping two nodes renames them in every pointer of the tree.\<close>

definition sw :: "'a \<Rightarrow> 'a \<Rightarrow> 'a \<Rightarrow> 'a" where
  "sw n1 n2 a = (if a = n1 then n2 else if a = n2 then n1 else a)"

definition ren :: "('a \<Rightarrow> 'a) \<Rightarrow> 'a BAVLNode \<Rightarrow> 'a BAVLNode" where
  "ren f n = \<lparr>n_parent = map_option f (n_parent n), n_link = (\<lambda>d. map_option f (n_link n d)), n_balance = n_balance n\<rparr>"

definition ren_tree :: "('a \<Rightarrow> 'a) \<Rightarrow> 'a btree \<Rightarrow> 'a btree" where
  "ren_tree f t = map_tree (\<lambda>(a, b). (f a, b)) t"

lemma rep_ren:
  assumes "rep h t p q" and "\<And>a. a \<in> set (addrs t) \<Longrightarrow> h' (f a) = ren f (h a)"
  shows "rep h' (ren_tree f t) (map_option f p) (map_option f q)"
  using assms
proof (induction h t p q rule: rep.induct)
  case (2 h l a b r p q)
  have a: "h' (f a) = ren f (h a)" using 2(4) by simp
  have "rep h' (ren_tree f l) (map_option f (n_link (h a) False)) (map_option f (Some a))"
    "rep h' (ren_tree f r) (map_option f (n_link (h a) True)) (map_option f (Some a))"
    by (rule 2(1); use 2(3,4) in simp) (rule 2(2); use 2(3,4) in simp)
  then show ?case using 2(3) a by (simp add: ren_tree_def ren_def)
qed (simp add: ren_tree_def)

text \<open>The consistency of pointers in a tree.\<close>

definition linked :: "('a \<Rightarrow> 'a BAVLNode) \<Rightarrow> 'a set \<Rightarrow> 'a option \<Rightarrow> bool" where
  "linked h S rt \<longleftrightarrow>
     (\<forall>a\<in>S. \<forall>d x. n_link (h a) d = Some x \<longrightarrow> x \<in> S \<and> n_parent (h x) = Some a) \<and>
     (\<forall>a\<in>S. \<forall>x. n_link (h a) True = Some x \<longrightarrow> n_link (h a) False \<noteq> Some x) \<and>
     (\<forall>a\<in>S. \<forall>y. n_parent (h a) = Some y \<longrightarrow> y \<in> S \<and> (\<exists>d. n_link (h y) d = Some a)) \<and>
     (\<forall>a\<in>S. n_parent (h a) = None \<longleftrightarrow> rt = Some a) \<and> (\<forall>a. rt = Some a \<longrightarrow> a \<in> S)"

lemma addrs_Node: "x \<in> set (addrs (Node l (a, b) r)) \<longleftrightarrow> x = a \<or> x \<in> set (addrs l) \<or> x \<in> set (addrs r)"
  by auto

lemma rep_links:
  assumes "rep h t p q"
  shows "\<forall>a\<in>set (addrs t). \<forall>d x. n_link (h a) d = Some x \<longrightarrow> x \<in> set (addrs t) \<and> n_parent (h x) = Some a"
  using assms
proof (induction h t p q rule: rep.induct)
  case (2 h l a b r p q)
  have top: "x \<in> set (addrs l) \<union> set (addrs r) \<and> n_parent (h x) = Some a" if "n_link (h a) d = Some x" for d x
    using 2(3) that by (cases d; cases l; cases r) (auto split: prod.splits)
  have l: "\<forall>a\<in>set (addrs l). \<forall>d x. n_link (h a) d = Some x \<longrightarrow> x \<in> set (addrs l) \<and> n_parent (h x) = Some a"
    and r: "\<forall>a\<in>set (addrs r). \<forall>d x. n_link (h a) d = Some x \<longrightarrow> x \<in> set (addrs r) \<and> n_parent (h x) = Some a"
    using 2(1-3) by simp_all
  show ?case unfolding Ball_def addrs_Node using top l r by blast
qed simp

lemma rep_parents:
  assumes "rep h t p q"
  shows "\<forall>a\<in>set (addrs t). p = Some a \<and> n_parent (h a) = q \<or>
    (\<exists>y\<in>set (addrs t). n_parent (h a) = Some y \<and> (\<exists>d. n_link (h y) d = Some a))"
  using assms
proof (induction h t p q rule: rep.induct)
  case (2 h l a b r p q)
  have l: "\<forall>x\<in>set (addrs l). n_link (h a) False = Some x \<and> n_parent (h x) = Some a \<or>
      (\<exists>y\<in>set (addrs l). n_parent (h x) = Some y \<and> (\<exists>d. n_link (h y) d = Some x))"
    and r: "\<forall>x\<in>set (addrs r). n_link (h a) True = Some x \<and> n_parent (h x) = Some a \<or>
      (\<exists>y\<in>set (addrs r). n_parent (h x) = Some y \<and> (\<exists>d. n_link (h y) d = Some x))"
    and p: "p = Some a" "n_parent (h a) = q"
    using 2 by simp_all
  show ?case unfolding Ball_def Bex_def addrs_Node using l r p by blast
qed simp

lemma rep_apart:
  assumes "rep h t p q" and "distinct (addrs t)"
  shows "\<forall>a\<in>set (addrs t). \<forall>x. n_link (h a) True = Some x \<longrightarrow> n_link (h a) False \<noteq> Some x"
  using assms
proof (induction h t p q rule: rep.induct)
  case (2 h l a b r p q)
  have top: "n_link (h a) False \<noteq> Some x" if "n_link (h a) True = Some x" for x
  proof
    assume "n_link (h a) False = Some x"
    then have "x \<in> set (addrs l)" "x \<in> set (addrs r)"
      using 2(3) that rep_Some [of h l x "Some a"] rep_Some [of h r x "Some a"] by simp_all
    then show False using 2(4) by auto
  qed
  have l: "\<forall>a\<in>set (addrs l). \<forall>x. n_link (h a) True = Some x \<longrightarrow> n_link (h a) False \<noteq> Some x"
    and r: "\<forall>a\<in>set (addrs r). \<forall>x. n_link (h a) True = Some x \<longrightarrow> n_link (h a) False \<noteq> Some x"
    using 2 by simp_all
  show ?case unfolding Ball_def addrs_Node using top l r by blast
qed simp

lemma at_linked:
  assumes "at T t (b_root T) None []"
  shows "linked (b_node T) (set (addrs t)) (b_root T)"
proof -
  have r: "rep (b_node T) t (b_root T) None" and d: "distinct (addrs t)" using assms by (auto simp: at_def)
  have "b_root T = Some a \<Longrightarrow> n_parent (b_node T a) = None" for a using r by (cases t) auto
  moreover have "b_root T = Some a \<Longrightarrow> a \<in> set (addrs t)" for a using r by (cases t) auto
  ultimately show ?thesis
    unfolding linked_def using rep_links [OF r] rep_parents [OF r] rep_apart [OF r d] by fastforce
qed

text \<open>What a consistent structure says about the pointers to a node.\<close>

lemma linked_parent:
  assumes "linked h S rt" and "a \<in> S" and "n \<in> S"
  shows "n_parent (h a) = Some n \<longleftrightarrow> n_link (h n) True = Some a \<or> n_link (h n) False = Some a"
  using assms unfolding linked_def by (metis (full_types))

lemma linked_link:
  assumes "linked h S rt" and "a \<in> S" and "n \<in> S"
  shows "n_link (h a) d = Some n \<longleftrightarrow> n_parent (h n) = Some a \<and> d = (Some n = n_link (h a) True)"
proof -
  have ap: "n_link (h a) True = Some n \<Longrightarrow> n_link (h a) False \<noteq> Some n"
    and pa: "n_link (h a) d = Some n \<Longrightarrow> n_parent (h n) = Some a"
    using assms(1,2) unfolding linked_def by blast+
  show ?thesis using linked_parent [OF assms(1,3,2)] ap pa by (cases d) auto
qed

lemma linked_root: "linked h S rt \<Longrightarrow> a \<in> S \<Longrightarrow> n_parent (h a) = None \<longleftrightarrow> rt = Some a"
  unfolding linked_def by blast

lemma swap_adjacent_fields:
  assumes ne: "n1 \<noteq> n2" and side: "n_link (b_node T n1) side = Some n2" "side = (Some n2 = n_link (b_node T n1) True)"
    and q: "n_parent (b_node T n1) = q" "q \<noteq> Some n1" "q \<noteq> Some n2"
    and ch: "\<forall>d. n_link (b_node T n2) d \<noteq> Some n1 \<and> n_link (b_node T n2) d \<noteq> Some n2"
      "n_link (b_node T n1) (\<not> side) \<noteq> Some n1" "n_link (b_node T n1) (\<not> side) \<noteq> Some n2"
  shows "b_node (BAVL_swap_adjacent T n1 n2) n1 =
      (b_node T n1)\<lparr>n_parent := Some n2, n_link := n_link (b_node T n2)\<rparr>"
    and "b_node (BAVL_swap_adjacent T n1 n2) n2 =
      (b_node T n2)\<lparr>n_parent := q, n_link := (\<lambda>d. if d = side then Some n1 else n_link (b_node T n1) d)\<rparr>"
    and "a \<noteq> n1 \<Longrightarrow> a \<noteq> n2 \<Longrightarrow> b_node (BAVL_swap_adjacent T n1 n2) a =
      (b_node T a)\<lparr>n_parent :=
          (if n_link (b_node T n1) (\<not> side) = Some a then Some n2
           else if n_link (b_node T n2) True = Some a \<or> n_link (b_node T n2) False = Some a then Some n1
           else n_parent (b_node T a)),
        n_link := (\<lambda>d. if q = Some a \<and> d = (Some n1 = n_link (b_node T a) True) then Some n2
                     else n_link (b_node T a) d)\<rparr>"
    and "b_root (BAVL_swap_adjacent T n1 n2) = (if q = None then Some n2 else b_root T)"
proof -
  let ?h = "b_node T" let ?c = "n_link (?h n1) (\<not> side)"
  let ?A4 = "set_parent_opt (n_link (?h n2) True) (Some n1) (set_link n1 True (n_link (?h n2) True)
      (set_parent_opt (n_link (?h n2) False) (Some n1) (set_link n1 False (n_link (?h n2) False) T)))"
  let ?A6 = "set_child q n1 (Some n2) (set_parent n2 q ?A4)"
  have eq: "BAVL_swap_adjacent T n1 n2 = set_parent_opt ?c (Some n2) (set_link n2 (\<not> side) ?c
      (set_parent n1 (Some n2) (set_link n2 side (Some n1) ?A6)))"
    using ne q ch(1) unfolding BAVL_swap_adjacent_def side(2) [symmetric] by (simp add: Let_def)
  have l2: "n_link (?h n2) = (n_link (?h n1))(False := n_link (?h n2) False, True := n_link (?h n2) True)"
    by (rule ext) (metis (full_types) fun_upd_apply)
  show "b_node (BAVL_swap_adjacent T n1 n2) n1 = (?h n1)\<lparr>n_parent := Some n2, n_link := n_link (?h n2)\<rparr>"
    unfolding eq using ne q ch l2 by (simp add: set_child_other)
  show "b_node (BAVL_swap_adjacent T n1 n2) n2 =
      (?h n2)\<lparr>n_parent := q, n_link := (\<lambda>d. if d = side then Some n1 else n_link (?h n1) d)\<rparr>"
    unfolding eq using ne q ch by (auto simp: set_child_other intro!: BAVLNode.equality ext)
  show "b_root (BAVL_swap_adjacent T n1 n2) = (if q = None then Some n2 else b_root T)"
    unfolding eq by (auto simp: set_child_def split: option.split)
  show "b_node (BAVL_swap_adjacent T n1 n2) a =
      (?h a)\<lparr>n_parent := (if ?c = Some a then Some n2
           else if n_link (?h n2) True = Some a \<or> n_link (?h n2) False = Some a then Some n1
           else n_parent (?h a)),
        n_link := (\<lambda>d. if q = Some a \<and> d = (Some n1 = n_link (?h a) True) then Some n2 else n_link (?h a) d)\<rparr>"
    if "a \<noteq> n1" "a \<noteq> n2"
    unfolding eq using that ne
    by (cases q) (auto simp: set_child_def intro!: BAVLNode.equality ext)
qed

lemma swap_children_simps:
  assumes "n1 \<noteq> n2" and "\<forall>x\<in>{n1, n2}. n_link (b_node T n1) d \<noteq> Some x \<and> n_link (b_node T n2) d \<noteq> Some x"
  shows "b_node (BAVL_swap_children T n1 n2 d) n1 = (b_node T n1)\<lparr>n_link := (n_link (b_node T n1))(d := n_link (b_node T n2) d)\<rparr>"
    and "b_node (BAVL_swap_children T n1 n2 d) n2 = (b_node T n2)\<lparr>n_link := (n_link (b_node T n2))(d := n_link (b_node T n1) d)\<rparr>"
    and "a \<noteq> n1 \<Longrightarrow> a \<noteq> n2 \<Longrightarrow> b_node (BAVL_swap_children T n1 n2 d) a =
      (b_node T a)\<lparr>n_parent := (if n_link (b_node T n1) d = Some a then Some n2
         else if n_link (b_node T n2) d = Some a then Some n1 else n_parent (b_node T a))\<rparr>"
    and "b_root (BAVL_swap_children T n1 n2 d) = b_root T"
  using assms by (simp_all add: BAVL_swap_children_def Let_def)

lemma swap_distant_fields:
  assumes ne: "n1 \<noteq> n2" and q: "n_parent (b_node T n1) = q1" "n_parent (b_node T n2) = q2" "q1 \<noteq> q2"
      "q1 \<noteq> Some n1" "q1 \<noteq> Some n2" "q2 \<noteq> Some n1" "q2 \<noteq> Some n2"
    and ch: "\<forall>d. \<forall>x\<in>{n1, n2}. n_link (b_node T n1) d \<noteq> Some x \<and> n_link (b_node T n2) d \<noteq> Some x"
  shows "b_node (BAVL_swap_distant T n1 n2) n1 = (b_node T n1)\<lparr>n_parent := q2, n_link := n_link (b_node T n2)\<rparr>"
    and "b_node (BAVL_swap_distant T n1 n2) n2 = (b_node T n2)\<lparr>n_parent := q1, n_link := n_link (b_node T n1)\<rparr>"
    and "a \<noteq> n1 \<Longrightarrow> a \<noteq> n2 \<Longrightarrow> b_node (BAVL_swap_distant T n1 n2) a =
      (b_node T a)\<lparr>n_parent :=
          (if n_link (b_node T n1) True = Some a \<or>
              n_link (b_node T n1) False = Some a \<and> n_link (b_node T n2) True \<noteq> Some a then Some n2
           else if n_link (b_node T n2) True = Some a \<or> n_link (b_node T n2) False = Some a then Some n1
           else n_parent (b_node T a)),
        n_link := (\<lambda>d. if q2 = Some a \<and> d = (Some n2 = n_link (b_node T a) True) then Some n1
           else if q1 = Some a \<and> d = (Some n1 = n_link (b_node T a) True) then Some n2
           else n_link (b_node T a) d)\<rparr>"
    and "b_root (BAVL_swap_distant T n1 n2) = (if q1 = None then Some n2 else if q2 = None then Some n1 else b_root T)"
proof -
  let ?h = "b_node T"
  let ?A = "set_child q1 n1 (Some n2) (set_parent n2 q1 (set_child q2 n2 (Some n1) (set_parent n1 q2 T)))"
  have eq: "BAVL_swap_distant T n1 n2 = BAVL_swap_children (BAVL_swap_children ?A n1 n2 False) n1 n2 True"
    using q by (simp add: BAVL_swap_distant_def Let_def)
  have A: "b_node ?A n1 = (?h n1)\<lparr>n_parent := q2\<rparr>" "b_node ?A n2 = (?h n2)\<lparr>n_parent := q1\<rparr>"
    using ne q by (simp_all add: set_child_other)
  have Aa: "b_node ?A a = (?h a)\<lparr>n_link := (\<lambda>d. if q2 = Some a \<and> d = (Some n2 = n_link (?h a) True) then Some n1
      else if q1 = Some a \<and> d = (Some n1 = n_link (?h a) True) then Some n2 else n_link (?h a) d)\<rparr>"
    if "a \<noteq> n1" "a \<noteq> n2" for a
    using that q(3) by (cases q1; cases q2) (auto simp: set_child_def intro!: BAVLNode.equality ext)
  note c1 = swap_children_simps [of n1 n2 ?A False] and c2 = swap_children_simps [of n1 n2 "BAVL_swap_children ?A n1 n2 False" True]
  have l: "n_link (?h n) = (n_link (?h m))(False := n_link (?h n) False, True := n_link (?h n) True)" for n m
    by (rule ext) (metis (full_types) fun_upd_apply)
  have p1: "\<forall>x\<in>{n1, n2}. n_link (b_node ?A n1) False \<noteq> Some x \<and> n_link (b_node ?A n2) False \<noteq> Some x"
    using ch A by simp
  note d1 = c1 [OF ne p1]
  have p2: "\<forall>x\<in>{n1, n2}. n_link (b_node (BAVL_swap_children ?A n1 n2 False) n1) True \<noteq> Some x \<and>
      n_link (b_node (BAVL_swap_children ?A n1 n2 False) n2) True \<noteq> Some x"
    using ch A d1(1,2) by simp
  note d2 = c2 [OF ne p2]
  show "b_node (BAVL_swap_distant T n1 n2) n1 = (?h n1)\<lparr>n_parent := q2, n_link := n_link (?h n2)\<rparr>"
    unfolding eq d2(1) using d1(1,2) A l [of n2 n1] by simp
  show "b_node (BAVL_swap_distant T n1 n2) n2 = (?h n2)\<lparr>n_parent := q1, n_link := n_link (?h n1)\<rparr>"
    unfolding eq d2(2) using d1(1,2) A l [of n1 n2] by simp
  show "b_root (BAVL_swap_distant T n1 n2) = (if q1 = None then Some n2 else if q2 = None then Some n1 else b_root T)"
    unfolding eq d2(4) d1(4) by (auto simp: set_child_def split: option.split)
  assume a: "a \<noteq> n1" "a \<noteq> n2"
  show "b_node (BAVL_swap_distant T n1 n2) a =
      (?h a)\<lparr>n_parent :=
          (if n_link (?h n1) True = Some a \<or> n_link (?h n1) False = Some a \<and> n_link (?h n2) True \<noteq> Some a then Some n2
           else if n_link (?h n2) True = Some a \<or> n_link (?h n2) False = Some a then Some n1
           else n_parent (?h a)),
        n_link := (\<lambda>d. if q2 = Some a \<and> d = (Some n2 = n_link (?h a) True) then Some n1
           else if q1 = Some a \<and> d = (Some n1 = n_link (?h a) True) then Some n2 else n_link (?h a) d)\<rparr>"
    unfolding eq d2(3) [OF a] d1(3) [OF a] Aa [OF a] using d1(1,2) A by (auto intro!: BAVLNode.equality)
qed

lemma sw_simps [simp]: "sw n1 n2 n1 = n2" "sw n1 n2 n2 = n1" "a \<noteq> n1 \<Longrightarrow> a \<noteq> n2 \<Longrightarrow> sw n1 n2 a = a"
  by (simp_all add: sw_def)

lemma map_sw: "map_option (sw n1 n2) p = (if p = Some n1 then Some n2 else if p = Some n2 then Some n1 else p)"
  by (cases p) (auto simp: sw_def)

text \<open>Other nodes: their pointers to the two nodes are exactly those to a child or from the parent.\<close>

lemma ren_other:
  assumes lk: "linked h S rt" and S: "n1 \<in> S" "n2 \<in> S" "a \<in> S"
  shows "ren (sw n1 n2) (h a) = (h a)\<lparr>n_parent :=
      (if n_link (h n1) True = Some a \<or> n_link (h n1) False = Some a then Some n2
       else if n_link (h n2) True = Some a \<or> n_link (h n2) False = Some a then Some n1 else n_parent (h a)),
    n_link := (\<lambda>d. if n_parent (h n1) = Some a \<and> d = (Some n1 = n_link (h a) True) then Some n2
       else if n_parent (h n2) = Some a \<and> d = (Some n2 = n_link (h a) True) then Some n1 else n_link (h a) d)\<rparr>"
  unfolding ren_def map_sw linked_parent [OF lk S(3) S(1)] linked_parent [OF lk S(3) S(2)]
    linked_link [OF lk S(3) S(1)] linked_link [OF lk S(3) S(2)]
  by simp

lemma swap_nodes_fields:
  assumes "b_node A n1 = (b_node T n1)\<lparr>n_parent := x1, n_link := y1\<rparr>" and "b_node A n2 = (b_node T n2)\<lparr>n_parent := x2, n_link := y2\<rparr>"
    and "n1 \<noteq> n2"
  shows "b_node (set_balance n2 (n_balance (b_node A n1)) (set_balance n1 (n_balance (b_node A n2)) A)) a =
    (if a = n1 then \<lparr>n_parent = x1, n_link = y1, n_balance = n_balance (b_node T n2)\<rparr>
     else if a = n2 then \<lparr>n_parent = x2, n_link = y2, n_balance = n_balance (b_node T n1)\<rparr>
     else b_node A a)"
  using assms by (auto intro: BAVLNode.equality)

lemma swap_renames_adjacent:
  assumes lk: "linked (b_node T) S (b_root T)" and S: "n1 \<in> S" "n2 \<in> S" and ne: "n1 \<noteq> n2"
    and p: "n_parent (b_node T n1) \<noteq> Some n2" "n_parent (b_node T n1) \<noteq> Some n1" "n_parent (b_node T n2) = Some n1"
  shows "a \<in> S \<Longrightarrow> b_node (BAVL_swap_nodes T n1 n2) (sw n1 n2 a) = ren (sw n1 n2) (b_node T a)"
    and "b_root (BAVL_swap_nodes T n1 n2) = map_option (sw n1 n2) (b_root T)"
proof -
  let ?h = "b_node T" let ?A = "BAVL_swap_adjacent T n1 n2"
  note L = linked_link [OF lk]
  have self: "n_link (?h n1) d \<noteq> Some n1" "n_link (?h n2) d \<noteq> Some n2" "n_link (?h n2) d \<noteq> Some n1" for d
    using L S p ne by auto
  define side where "side = (Some n2 = n_link (?h n1) True)"
  have side: "n_link (?h n1) side = Some n2" "n_link (?h n1) (\<not> side) \<noteq> Some n2" using L S p by (auto simp: side_def)
  note F = swap_adjacent_fields [OF ne side(1) side_def refl p(2) p(1) _ self(1) side(2), simplified self, simplified]
  have eq: "BAVL_swap_nodes T n1 n2 = set_balance n2 (n_balance (b_node ?A n1)) (set_balance n1 (n_balance (b_node ?A n2)) ?A)"
    using p by (simp add: BAVL_swap_nodes_def Let_def)
  note G = swap_nodes_fields [OF F(1,2) ne, folded eq]
  show "b_root (BAVL_swap_nodes T n1 n2) = map_option (sw n1 n2) (b_root T)"
    using F(4) linked_root [OF lk S(1)] linked_root [OF lk S(2)] p unfolding eq map_sw by auto
  have ln: "(\<lambda>d. if d = side then Some n1 else n_link (?h n1) d) = (\<lambda>d. map_option (sw n1 n2) (n_link (?h n1) d))"
    using side self ne by (intro ext) (auto simp: map_sw)
  have c: "n_link (?h n1) (\<not> side) = Some a \<longleftrightarrow> n_link (?h n1) True = Some a \<or> n_link (?h n1) False = Some a"
    if "a \<noteq> n2"
    using side(1) that by (cases side) auto
  assume a: "a \<in> S"
  consider "a = n1" | "a = n2" | "a \<noteq> n1" "a \<noteq> n2" by blast
  then show "b_node (BAVL_swap_nodes T n1 n2) (sw n1 n2 a) = ren (sw n1 n2) (?h a)"
  proof cases
    case 1
    then show ?thesis using p ne by (simp add: G ren_def map_sw ln [unfolded map_sw])
  next
    case 2
    then show ?thesis using p ne self by (simp add: G ren_def map_sw)
  next
    case 3
    then have "n_parent (?h n2) \<noteq> Some a" using p(3) by simp
    then show ?thesis
      unfolding sw_simps(3) [OF 3] ren_other [OF lk S a] G
      using 3 c by (auto simp: F(3) intro!: BAVLNode.equality ext)
  qed
qed

lemma swap_renames_distant:
  assumes lk: "linked (b_node T) S (b_root T)" and S: "n1 \<in> S" "n2 \<in> S" and ne: "n1 \<noteq> n2"
    and p: "n_parent (b_node T n1) \<noteq> Some n2" "n_parent (b_node T n1) \<noteq> Some n1" "n_parent (b_node T n2) \<noteq> Some n2"
      "n_parent (b_node T n1) \<noteq> n_parent (b_node T n2)" "n_parent (b_node T n2) \<noteq> Some n1"
  shows "a \<in> S \<Longrightarrow> b_node (BAVL_swap_nodes T n1 n2) (sw n1 n2 a) = ren (sw n1 n2) (b_node T a)"
    and "b_root (BAVL_swap_nodes T n1 n2) = map_option (sw n1 n2) (b_root T)"
proof -
  let ?h = "b_node T" let ?A = "BAVL_swap_distant T n1 n2"
  note L = linked_link [OF lk] and R = linked_root [OF lk]
  have self: "n_link (?h n) d \<noteq> Some n1" "n_link (?h n) d \<noteq> Some n2" if "n = n1 \<or> n = n2" for n d
    using L S p that by auto
  then have ch: "\<forall>d. \<forall>x\<in>{n1, n2}. n_link (?h n1) d \<noteq> Some x \<and> n_link (?h n2) d \<noteq> Some x" by auto
  note F = swap_distant_fields [OF ne refl refl p(4) p(2) p(1) p(5) p(3) ch]
  have eq: "BAVL_swap_nodes T n1 n2 = set_balance n2 (n_balance (b_node ?A n1)) (set_balance n1 (n_balance (b_node ?A n2)) ?A)"
    using p by (simp add: BAVL_swap_nodes_def Let_def)
  note G = swap_nodes_fields [OF F(1,2) ne, folded eq]
  show "b_root (BAVL_swap_nodes T n1 n2) = map_option (sw n1 n2) (b_root T)"
    using F(4) R [OF S(1)] R [OF S(2)] p unfolding eq map_sw by auto
  assume a: "a \<in> S"
  consider "a = n1" | "a = n2" | "a \<noteq> n1" "a \<noteq> n2" by blast
  then show "b_node (BAVL_swap_nodes T n1 n2) (sw n1 n2 a) = ren (sw n1 n2) (?h a)"
  proof cases
    case 3
    have x: "n_link (?h n1) False = Some a \<Longrightarrow> n_link (?h n2) True \<noteq> Some a" using L S a ne by auto
    show ?thesis
      unfolding sw_simps(3) [OF 3] ren_other [OF lk S a] G using 3 x p(4) by (auto simp: F(3) intro!: BAVLNode.equality ext)
  qed (use p ne self in \<open>simp_all add: G ren_def map_sw\<close>)
qed

lemma swap_renames:
  assumes "linked (b_node T) S (b_root T)" and "n1 \<in> S" "n2 \<in> S" and "n1 \<noteq> n2"
    and "n_parent (b_node T n1) \<noteq> Some n2" "n_parent (b_node T n1) \<noteq> Some n1" "n_parent (b_node T n2) \<noteq> Some n2"
      "n_parent (b_node T n1) \<noteq> n_parent (b_node T n2)"
  shows "a \<in> S \<Longrightarrow> b_node (BAVL_swap_nodes T n1 n2) (sw n1 n2 a) = ren (sw n1 n2) (b_node T a)"
    and "b_root (BAVL_swap_nodes T n1 n2) = map_option (sw n1 n2) (b_root T)"
  using swap_renames_adjacent [OF assms(1-6)] swap_renames_distant [OF assms(1-8)] by blast+

end
