(* ===== verification/Bavl_Facts.thy ===== *)
theory Bavl_Facts
  imports Bavl_Swap "HOL-Library.Code_Target_Nat"
begin

text \<open>
  Insertion, removal, lookup and traversal of \<open>BAVL\<close>: they terminate, keep the order and the balance, and
  change the set of nodes by exactly the given node, whatever the shape of the tree. The contract of an
  ordered index is a locale, interpreted on \<open>BAVL\<close>.
\<close>

subsection \<open>Order\<close>

text \<open>What the code relies on of a comparator: it is a three-way comparison for a linear (pre)order.\<close>

definition is_comparator :: "('v \<Rightarrow> 'v \<Rightarrow> int) \<Rightarrow> bool" where
  "is_comparator cmp \<longleftrightarrow>
     (\<forall>x y. cmp x y = - 1 \<or> cmp x y = 0 \<or> cmp x y = 1) \<and> (\<forall>x y. cmp y x = - cmp x y) \<and>
     (\<forall>x y z. cmp x y = - 1 \<longrightarrow> cmp y z = - 1 \<longrightarrow> cmp x z = - 1) \<and>
     (\<forall>x y z. cmp x y = 0 \<longrightarrow> cmp x z = cmp y z)"

lemma is_comparatorD:
  assumes "is_comparator cmp"
  shows "cmp x y = - 1 \<or> cmp x y = 0 \<or> cmp x y = 1" and "cmp y x = - cmp x y"
    and "cmp x y = - 1 \<Longrightarrow> cmp y z = - 1 \<Longrightarrow> cmp x z = - 1" and "cmp x y = 0 \<Longrightarrow> cmp x z = cmp y z"
  using assms unfolding is_comparator_def by blast+

text \<open>Comparing nodes by their values, and a value with a node.\<close>

abbreviation (input) cmp_nodes :: "('v \<Rightarrow> 'v \<Rightarrow> int) \<Rightarrow> ('a \<Rightarrow> 'v) \<Rightarrow> 'a \<Rightarrow> 'a \<Rightarrow> int" where
  "cmp_nodes cmp val a b \<equiv> cmp (val a) (val b)"

abbreviation (input) cmp_key :: "('v \<Rightarrow> 'v \<Rightarrow> int) \<Rightarrow> ('a \<Rightarrow> 'v) \<Rightarrow> 'v \<Rightarrow> 'a \<Rightarrow> int" where
  "cmp_key cmp val v b \<equiv> cmp v (val b)"

text \<open>\<open>bavl cmp val T xs\<close>: the structure \<open>T\<close> is a balanced search tree with the nodes \<open>xs\<close>, in order.\<close>

definition bavl :: "('v \<Rightarrow> 'v \<Rightarrow> int) \<Rightarrow> ('a \<Rightarrow> 'v) \<Rightarrow> 'a BAVL \<Rightarrow> 'a list \<Rightarrow> bool" where
  "bavl cmp val T xs \<longleftrightarrow>
     (\<exists>t. at T t (b_root T) None [] \<and> avl t \<and> addrs t = xs) \<and> sorted_wrt (\<lambda>x y. cmp (val x) (val y) = - 1) xs"

lemma bavl_distinct: "bavl cmp val T xs \<Longrightarrow> distinct xs"
  by (auto simp: bavl_def at_def)

lemma is_comparator_sgn:
  "is_comparator (\<lambda>(x :: 'k :: linorder) y. if x < y then - 1 else if x = y then 0 else 1)"
  unfolding is_comparator_def by force

text \<open>Where a value lies in a sorted list: below it, equal, above it.\<close>

lemma sorted_below:
  assumes "is_comparator cmp" and "sorted_wrt (\<lambda>x y. cmp (val x) (val y) = - 1) (us @ a # vs)"
  shows "cmp v (val a) = 1 \<Longrightarrow> \<forall>x\<in>set us. cmp (val x) v = - 1"
    and "cmp v (val a) = - 1 \<Longrightarrow> \<forall>y\<in>set vs. cmp v (val y) = - 1"
    and "cmp v (val a) = 0 \<Longrightarrow> (\<forall>x\<in>set us. cmp (val x) v = - 1) \<and> (\<forall>y\<in>set vs. cmp v (val y) = - 1)"
proof -
  note D = is_comparatorD [OF assms(1)]
  have s: "\<forall>x\<in>set us. cmp (val x) (val a) = - 1" "\<forall>y\<in>set vs. cmp (val a) (val y) = - 1"
    using assms(2) by (auto simp: sorted_wrt_append)
  show "\<forall>x\<in>set us. cmp (val x) v = - 1" if "cmp v (val a) = 1"
    using s(1) D(3) [of _ "val a" v] D(2) [of "val a" v] that by auto
  show "\<forall>y\<in>set vs. cmp v (val y) = - 1" if "cmp v (val a) = - 1"
    using s(2) D(3) [of v "val a"] that by auto
  show "(\<forall>x\<in>set us. cmp (val x) v = - 1) \<and> (\<forall>y\<in>set vs. cmp v (val y) = - 1)" if "cmp v (val a) = 0"
  proof -
    have e: "cmp v z = cmp (val a) z" for z by (rule D(4) [OF that])
    have "cmp z v = cmp z (val a)" for z using e [of z] D(2) [of z v] D(2) [of z "val a"] by simp
    then show ?thesis using s e by simp
  qed
qed

subsection \<open>Insertion\<close>

text \<open>The place where a node belongs: everything before it on the path is smaller, everything after it greater.\<close>

definition fits :: "('v \<Rightarrow> 'v \<Rightarrow> int) \<Rightarrow> ('a \<Rightarrow> 'v) \<Rightarrow> 'v \<Rightarrow> 'a frame list \<Rightarrow> bool" where
  "fits cmp val v c \<longleftrightarrow> (\<forall>x\<in>set (before c). cmp (val x) v = - 1) \<and> (\<forall>y\<in>set (after c). cmp v (val y) = - 1)"

lemma nd_fill: "fill c (nd d a b x y) = fill ((d, a, b, y) # c) x"
  by simp

lemma insert_search:
  assumes cmp: "is_comparator cmp" and F: "\<And>c. F node c = cmp v (val c)" and "at T t (Some r) q c" and "fits cmp val v c"
    and "sorted_wrt (\<lambda>x y. cmp (val x) (val y) = - 1) (addrs t)"
  shows "(\<exists>x\<in>set (addrs t). BAVL_insert_search F T node r = Some (Inl x) \<and> cmp v (val x) = 0) \<or>
    (\<exists>a d b s c'. BAVL_insert_search F T node r = Some (Inr (a, d)) \<and>
       at T Leaf None (Some a) ((d, a, b, s) # c') \<and> fits cmp val v ((d, a, b, s) # c') \<and>
       fill ((d, a, b, s) # c') Leaf = fill c t \<and> (\<forall>x\<in>set (addrs t). cmp v (val x) \<noteq> 0))"
  using assms(3-5)
proof (induction "size t" arbitrary: t r q c rule: less_induct)
  case less
  note D = is_comparatorD [OF cmp]
  define d where "d = (cmp v (val r) = 1)"
  let ?lt = "\<lambda>x y. cmp (val x) (val y) = - 1"
  have "t \<noteq> Leaf" using less.prems(1) by (auto simp: at_def)
  then obtain b x y where t: "t = nd d r b x y"
    using nd_exists [of t d] less.prems(1) by (auto simp: at_def)
  show ?case
  proof (cases "cmp v (val r) = 0")
    case True
    then have "BAVL_insert_search F T node r = Some (Inl r)"
      by (subst BAVL_insert_search.simps) (simp add: F)
    moreover have "r \<in> set (addrs t)" by (simp add: t)
    ultimately show ?thesis using True by blast
  next
    case False
    have unf: "BAVL_insert_search F T node r =
        (case n_link (b_node T r) d of None \<Rightarrow> Some (Inr (r, d))
         | Some c' \<Rightarrow> BAVL_insert_search F T node c')"
      using False by (subst BAVL_insert_search.simps) (simp add: Let_def F flip: d_def)
    have down: "at T x (n_link (b_node T r) d) (Some r) ((d, r, b, y) # c)"
      by (rule at_down) (use less.prems(1) t in simp)
    have srt: "sorted_wrt ?lt (if d then addrs y @ r # addrs x else addrs x @ r # addrs y)"
      using less.prems(3) t by simp
    have sy: "\<forall>z\<in>set (addrs y) \<union> {r}. if d then cmp (val z) v = - 1 else cmp v (val z) = - 1"
    proof (cases d)
      case True
      then show ?thesis using sorted_below(1) [OF cmp, of val "addrs y" r "addrs x" v] srt D(2) [of "val r" v]
        by (auto simp: d_def)
    next
      case nd: False
      then have "cmp v (val r) = - 1" using False D(1) [of v "val r"] by (auto simp: d_def)
      then show ?thesis using sorted_below(2) [OF cmp, of val "addrs x" r "addrs y" v] srt nd by auto
    qed
    have fit: "fits cmp val v ((d, r, b, y) # c)"
      using less.prems(2) sy by (auto simp: fits_def split: if_splits)
    have ny: "\<forall>z\<in>set (addrs y) \<union> {r}. cmp v (val z) \<noteq> 0"
      using sy D(2) [of _ v] by (auto split: if_splits)
    have sx: "sorted_wrt ?lt (addrs x)" using srt by (auto simp: sorted_wrt_append split: if_splits)
    show ?thesis
    proof (cases "n_link (b_node T r) d")
      case None
      then have x: "x = Leaf" using down by (cases x) (auto simp: at_def)
      then have "\<forall>z\<in>set (addrs t). cmp v (val z) \<noteq> 0" using ny by (auto simp: t split: if_splits)
      moreover have "fill ((d, r, b, y) # c) Leaf = fill c t" by (simp add: t x)
      moreover have "at T Leaf None (Some r) ((d, r, b, y) # c)" using down None x by simp
      moreover have "BAVL_insert_search F T node r = Some (Inr (r, d))" using unf None by simp
      ultimately show ?thesis using fit by blast
    next
      case (Some r')
      have "size x < size t" by (simp add: t nd_def)
      from less.hyps [OF this down [unfolded Some] fit sx]
      have "(\<exists>z\<in>set (addrs x). BAVL_insert_search F T node r = Some (Inl z) \<and> cmp v (val z) = 0) \<or>
        (\<exists>a d' b' s c'. BAVL_insert_search F T node r = Some (Inr (a, d')) \<and>
          at T Leaf None (Some a) ((d', a, b', s) # c') \<and> fits cmp val v ((d', a, b', s) # c') \<and>
          fill ((d', a, b', s) # c') Leaf = fill c t \<and> (\<forall>z\<in>set (addrs x). cmp v (val z) \<noteq> 0))"
        unfolding t nd_fill using unf Some by simp
      moreover have "set (addrs t) = set (addrs x) \<union> (set (addrs y) \<union> {r})" by (auto simp: t)
      ultimately show ?thesis using ny by (metis UnE UnI1)
    qed
  qed
qed

lemma at_attach:
  assumes pos: "at T Leaf None (Some a) ((d, a, b, s) # c)"
    and new: "node \<notin> set (before ((d, a, b, s) # c)) \<union> set (after ((d, a, b, s) # c))"
  shows "at (set_balance node 0 (set_link node True None (set_link node False None
      (set_parent node (Some a) (set_link a d (Some node) T))))) (Node Leaf (node, 0) Leaf) (Some node) (Some a) ((d, a, b, s) # c)"
    (is "at ?T _ _ _ _")
proof -
  have ne: "node \<noteq> a" "node \<notin> set (addrs s)" "node \<notin> set (before c) \<union> set (after c)"
    "a \<notin> set (addrs s)" "a \<notin> set (before c) \<union> set (after c)"
    using new pos by (auto simp: at_def split: if_splits)
  have h: "b_node ?T a = (b_node T a)\<lparr>n_link := (n_link (b_node T a))(d := Some node)\<rparr>"
    "x \<noteq> a \<Longrightarrow> x \<noteq> node \<Longrightarrow> b_node ?T x = b_node T x" for x
    using ne(1) by auto
  have p: "rep (b_node T) s (n_link (b_node T a) (\<not> d)) (Some a)" "n_balance (b_node T a) = b"
    "crep (b_node T) c (Some a) (n_parent (b_node T a)) (b_root T)"
    using pos by (simp_all add: at_def)
  have "rep (b_node ?T) s (n_link (b_node T a) (\<not> d)) (Some a)"
    by (rule rep_frame [OF p(1)], rule h(2)) (use ne in auto)
  moreover have "crep (b_node ?T) c (Some a) (n_parent (b_node T a)) (b_root T)"
    by (rule crep_frame [OF p(3)], rule h(2)) (use ne in auto)
  moreover have "n_balance (b_node ?T a) = b" "n_link (b_node ?T a) d = Some node"
    "n_link (b_node ?T a) (\<not> d) = n_link (b_node T a) (\<not> d)" "n_parent (b_node ?T a) = n_parent (b_node T a)"
    using p(2) unfolding h(1) by simp_all
  ultimately have "crep (b_node ?T) ((d, a, b, s) # c) (Some node) (Some a) (b_root ?T)"
    unfolding crep.simps set_simps(1-3) by simp
  moreover have "rep (b_node ?T) (Node Leaf (node, 0) Leaf) (Some node) (Some a)" by simp
  moreover have "distinct (before ((d, a, b, s) # c) @ [node] @ after ((d, a, b, s) # c))"
    using pos new unfolding at_def by auto
  ultimately show ?thesis unfolding at_def by simp
qed

lemma Insert_found:
  assumes cmp: "is_comparator cmp" and T: "bavl cmp val T xs" and x: "x \<in> set xs" "cmp (val node) (val x) = 0"
  shows "\<exists>y\<in>set xs. cmp (val node) (val y) = 0 \<and> BAVL_Insert (cmp_nodes cmp val) T node = Some (False, Some y, T)"
proof -
  obtain t where t: "at T t (b_root T) None []" "addrs t = xs" "sorted_wrt (\<lambda>x y. cmp (val x) (val y) = - 1) (addrs t)"
    using T by (auto simp: bavl_def)
  then obtain r where r: "b_root T = Some r" using x(1) by (cases t) (auto simp: at_def)
  have "fits cmp val (val node) []" by (simp add: fits_def)
  from insert_search [where F = "cmp_nodes cmp val" and v = "val node", OF cmp refl t(1) [unfolded r] this t(3)]
  obtain y where "y \<in> set xs" "BAVL_insert_search (cmp_nodes cmp val) T node r = Some (Inl y)" "cmp (val node) (val y) = 0"
    using x t(2) by blast
  then show ?thesis using r by (intro bexI [of _ y]) (simp_all add: BAVL_Insert_def)
qed

lemma Insert_new:
  assumes cmp: "is_comparator cmp" and T: "bavl cmp val T xs" and new: "\<forall>x\<in>set xs. cmp (val node) (val x) \<noteq> 0"
  shows "\<exists>T' ref us vs. BAVL_Insert (cmp_nodes cmp val) T node = Some (True, ref, T') \<and> xs = us @ vs \<and>
    bavl cmp val T' (us @ node # vs)"
proof -
  let ?lt = "\<lambda>x y. cmp (val x) (val y) = - 1"
  obtain t where t: "at T t (b_root T) None []" "avl t" "addrs t = xs" and srt: "sorted_wrt ?lt xs"
    using T by (auto simp: bavl_def)
  have "cmp (val node) (val node) = 0" using is_comparatorD(2) [OF cmp, of "val node" "val node"] by simp
  then have nin: "node \<notin> set xs" using new by blast
  show ?thesis
  proof (cases "b_root T")
    case None
    then have "t = Leaf" using t(1) by (cases t) (auto simp: at_def)
    then have xs: "xs = []" using t(3) by simp
    let ?T = "set_balance node 0 (set_link node True None (set_link node False None (set_parent node None (T\<lparr>b_root := Some node\<rparr>))))"
    have "at ?T (Node Leaf (node, 0) Leaf) (b_root ?T) None []" by (simp add: at_def)
    then have "bavl cmp val ?T ([] @ node # [])" unfolding bavl_def by fastforce
    moreover have "BAVL_Insert (cmp_nodes cmp val) T node = Some (True, None, ?T)"
      using None by (simp add: BAVL_Insert_def)
    ultimately show ?thesis using xs by blast
  next
    case (Some r)
    have "fits cmp val (val node) []" by (simp add: fits_def)
    from insert_search [where F = "cmp_nodes cmp val" and v = "val node", OF cmp refl t(1) [unfolded Some] this] srt t(3) new
    obtain a d b s c where se: "BAVL_insert_search (cmp_nodes cmp val) T node r = Some (Inr (a, d))"
      and pos: "at T Leaf None (Some a) ((d, a, b, s) # c)" and fit: "fits cmp val (val node) ((d, a, b, s) # c)"
      and fl: "fill ((d, a, b, s) # c) Leaf = t"
      by (metis fill.simps(1))
    let ?us = "before ((d, a, b, s) # c)" and ?vs = "after ((d, a, b, s) # c)"
    have xs: "xs = ?us @ ?vs" using addrs_fill [of "(d, a, b, s) # c" Leaf] unfolding fl t(3) by simp
    then have nin': "node \<notin> set ?us \<union> set ?vs" using nin by simp
    have av: "cavl ((d, a, b, s) # c) 0" using t(2) avl_fill [of "(d, a, b, s) # c" Leaf] unfolding fl by simp
    from rebalance_ok [OF at_attach [OF pos nin'] _ _ _ av, of 1]
    obtain T' t' where T': "BAVL_rebalance (set_balance node 0 (set_link node True None (set_link node False None
        (set_parent node (Some a) (set_link a d (Some node) T))))) a d 1 = Some T'"
      and t': "at T' t' (b_root T') None []" "avl t'" "addrs t' = ?us @ [node] @ ?vs" by auto
    have "sorted_wrt ?lt (?us @ node # ?vs)"
      using srt fit unfolding xs fits_def by (auto simp: sorted_wrt_append simp del: before.simps after.simps)
    then have "bavl cmp val T' (?us @ node # ?vs)" using t' unfolding bavl_def by auto
    moreover have "BAVL_Insert (cmp_nodes cmp val) T node = Some (True, Some a, T')"
      using Some se T' by (simp add: BAVL_Insert_def Let_def)
    ultimately show ?thesis using xs by blast
  qed
qed

subsection \<open>Removal\<close>

lemma fill_append: "fill (c @ c') t = fill c' (fill c t)"
  by (induction c t rule: fill.induct) auto

lemma before_append: "before (c @ c') = before c' @ before c"
  by (induction c rule: before.induct) auto

lemma after_append: "after (c @ c') = after c @ after c'"
  by (induction c rule: after.induct) auto

lemma exists_path: "a \<in> set (addrs t) \<Longrightarrow> \<exists>c l b r. t = fill c (Node l (a, b) r)"
proof (induction t)
  case (Node l x r)
  obtain e b where x: "x = (e, b)" by (cases x)
  consider "a = e" | "a \<in> set (addrs l)" | "a \<in> set (addrs r)" using Node.prems x by auto
  then show ?case
  proof cases
    case 1
    then have "Node l x r = fill [] (Node l (a, b) r)" using x by simp
    then show ?thesis by blast
  next
    case 2
    then obtain c l' b' r' where "l = fill c (Node l' (a, b') r')" using Node.IH(1) by blast
    then have "Node l x r = fill (c @ [(False, e, b, r)]) (Node l' (a, b') r')" using x by (simp add: fill_append nd_def)
    then show ?thesis by blast
  next
    case 3
    then obtain c l' b' r' where "r = fill c (Node l' (a, b') r')" using Node.IH(2) by blast
    then have "Node l x r = fill (c @ [(True, e, b, l)]) (Node l' (a, b') r')" using x by (simp add: fill_append nd_def)
    then show ?thesis by blast
  qed
qed simp

lemma at_unfill:
  assumes "at T (fill c t) (b_root T) None []"
  shows "\<exists>p q. at T t p q c"
proof -
  obtain p q where "rep (b_node T) t p q" "crep (b_node T) c p q (b_root T)" using assms by (auto simp: at_def rep_fill)
  moreover have "distinct (before c @ addrs t @ after c)" using assms addrs_fill [of c t] by (simp add: at_def)
  ultimately show ?thesis unfolding at_def by blast
qed

text \<open>Replacing a node by its only child.\<close>

lemma at_replace:
  assumes pos: "at T (nd d a b u Leaf) p q c"
  shows "at (BAVL_replace_subtree T a (n_link (b_node T a) d)) u (n_link (b_node T a) d) q c"
proof -
  let ?h = "b_node T" let ?u = "n_link (?h a) d"
  have q: "n_parent (?h a) = q" and u: "rep ?h u ?u (Some a)" and c: "crep ?h c (Some a) q (b_root T)"
    using pos by (auto simp: at_def)
  have ds: "distinct (before c @ addrs u @ after c)" "distinct (before c @ [a] @ after c)" "distinct (addrs u)"
    "a \<notin> set (addrs u)" "set (addrs u) \<inter> (set (before c) \<union> set (after c)) = {}"
    using pos by (auto simp: at_def split: if_splits)
  let ?T1 = "set_child q a ?u T"
  have eq: "BAVL_replace_subtree T a ?u = set_parent_opt ?u q ?T1" using q by (simp add: BAVL_replace_subtree_def)
  have c1: "crep (b_node ?T1) c ?u q (b_root ?T1)" by (rule set_child_crep [OF c ds(2)]) simp_all
  have un: "?u = Some x \<Longrightarrow> x \<in> set (addrs u)" for x using rep_Some [of ?h u] u by metis
  have "crep (b_node (set_parent_opt ?u q ?T1)) c ?u q (b_root ?T1)"
    by (rule crep_frame [OF c1]) (use un ds(5) in auto)
  moreover have "rep (b_node (set_parent_opt ?u q ?T1)) u ?u q"
  proof (rule rep_reparent [OF u ds(3)])
    fix x
    assume x: "x \<in> set (addrs u)"
    then have "q \<noteq> Some x" using crep_parent [of ?h c "Some a" x "b_root T"] c ds(5) by blast
    then show "b_node (set_parent_opt ?u q ?T1) x = (if ?u = Some x then (?h x)\<lparr>n_parent := q\<rparr> else ?h x)"
      by (simp add: set_child_other)
  qed
  ultimately show ?thesis unfolding eq at_def using ds(1) by simp
qed

lemma unlink_ok:
  assumes pos: "at T (nd d a b u Leaf) p q c" and av: "avl (fill c (nd d a b u Leaf))"
  shows "\<exists>T' t'. BAVL_unlink T a = Some T' \<and> at T' t' (b_root T') None [] \<and> avl t' \<and> addrs t' = before c @ addrs u @ after c"
proof -
  let ?u = "n_link (b_node T a) d" let ?T = "BAVL_replace_subtree T a ?u"
  have q: "n_parent (b_node T a) = q" and lf: "n_link (b_node T a) (\<not> d) = None" using pos by (auto simp: at_def)
  have ch: "(if n_link (b_node T a) False \<noteq> None then n_link (b_node T a) False else n_link (b_node T a) True) = ?u"
    using lf by (cases d) auto
  have pos': "at ?T u ?u q c" by (rule at_replace [OF pos])
  have au: "avl u" and cv: "cavl c (1 + ht u)" using av by (auto simp: avl_fill)
  show ?thesis
  proof (cases c)
    case Nil
    then have "BAVL_unlink T a = Some ?T" "b_root ?T = ?u" "q = None"
      using at_root pos' q by (force simp: BAVL_unlink_def ch [simplified] Let_def)+
    then show ?thesis using pos' au Nil by auto
  next
    case (Cons f c')
    obtain d2 a2 b2 s2 where f: "f = (d2, a2, b2, s2)" by (cases f)
    have q2: "q = Some a2" and pa: "p = Some a" using pos Cons f by (auto simp: at_def)
    have "a \<notin> set (addrs s2)" using pos Cons f by (auto simp: at_def split: if_splits)
    then have side: "(Some a = n_link (b_node T a2) True) = d2"
      using crep_side [of "b_node T" d2 a2 b2 s2 c'] pos pa Cons f by (auto simp: at_def)
    have un: "BAVL_unlink T a = BAVL_rebalance ?T a2 d2 (- 1)"
      unfolding BAVL_unlink_def Let_def ch q q2 option.case side ..
    have "at ?T u ?u (Some a2) ((d2, a2, b2, s2) # c')" using pos' Cons f q2 by simp
    from rebalance_ok [OF this au, of "1 + ht u" "- 1"] cv Cons f un show ?thesis by auto
  qed
qed


lemma subtree_max_ok:
  assumes "at T l (Some e) q c"
  shows "\<exists>c2 x m b. BAVL_subtree_max T e = Some m \<and> l = fill c2 (Node x (m, b) Leaf) \<and> after c2 = []"
  using assms
proof (induction l arbitrary: e q c)
  case (Node l ab r)
  obtain b where ab: "ab = (e, b)" using Node.prems by (cases ab) (auto simp: at_def)
  have r: "at T r (n_link (b_node T e) True) (Some e) ((True, e, b, l) # c)"
    using at_down [of T True e b r l "Some e" q c] Node.prems ab by (simp add: nd_def)
  show ?case
  proof (cases "n_link (b_node T e) True")
    case None
    then have "r = Leaf" using r by (cases r) (auto simp: at_def)
    then have "BAVL_subtree_max T e = Some e \<and> Node l ab r = fill [] (Node l (e, b) Leaf) \<and> after [] = []"
      using None ab by (subst BAVL_subtree_max.simps) simp
    then show ?thesis by blast
  next
    case (Some e')
    obtain c2 x m b' where i: "BAVL_subtree_max T e' = Some m" "r = fill c2 (Node x (m, b') Leaf)" "after c2 = []"
      using Node.IH(2) [OF r [unfolded Some]] by blast
    then have "BAVL_subtree_max T e = Some m \<and> Node l ab r = fill (c2 @ [(True, e, b, l)]) (Node x (m, b') Leaf) \<and>
        after (c2 @ [(True, e, b, l)]) = []"
      using Some ab by (subst BAVL_subtree_max.simps) (simp add: fill_append after_append nd_def)
    then show ?thesis by blast
  qed
qed (auto simp: at_def)

lemma ren_tree_id: "(\<And>a. a \<in> set (addrs t) \<Longrightarrow> f a = a) \<Longrightarrow> ren_tree f t = t"
  by (induction t) (auto simp: ren_tree_def)

lemma ren_tree_nd: "ren_tree f (nd d a b x y) = nd d (f a) b (ren_tree f x) (ren_tree f y)"
  by (simp add: nd_def ren_tree_def)

lemma ren_tree_fill:
  assumes "\<And>a. a \<in> set (before c) \<union> set (after c) \<Longrightarrow> f a = a"
  shows "ren_tree f (fill c t) = fill c (ren_tree f t)"
  using assms
proof (induction c t rule: fill.induct)
  case (2 d a b s c t)
  have "f a = a" "ren_tree f s = s" using 2(2) by (auto intro!: ren_tree_id split: if_splits)
  moreover have "x \<in> set (before c) \<union> set (after c) \<Longrightarrow> f x = x" for x using 2(2) by (auto split: if_splits)
  ultimately show ?case using 2(1) by (simp add: ren_tree_nd)
qed simp

lemma avl_ren: "height (ren_tree f t) = height t" "avl (ren_tree f t) = avl t"
  by (induction t) (auto simp: ren_tree_def)

lemma addrs_ren: "addrs (ren_tree f t) = map f (addrs t)"
  by (induction t) (auto simp: ren_tree_def)

lemma at_ren:
  assumes root: "at T t (b_root T) None []" and S: "n1 \<in> set (addrs t)" "n2 \<in> set (addrs t)" "n1 \<noteq> n2"
    and p: "n_parent (b_node T n1) \<noteq> Some n2" "n_parent (b_node T n1) \<noteq> Some n1" "n_parent (b_node T n2) \<noteq> Some n2"
      "n_parent (b_node T n1) \<noteq> n_parent (b_node T n2)"
  shows "at (BAVL_swap_nodes T n1 n2) (ren_tree (sw n1 n2) t) (b_root (BAVL_swap_nodes T n1 n2)) None []"
proof -
  note R = swap_renames [OF at_linked [OF root] S p]
  have "rep (b_node (BAVL_swap_nodes T n1 n2)) (ren_tree (sw n1 n2) t) (map_option (sw n1 n2) (b_root T)) (map_option (sw n1 n2) None)"
    by (rule rep_ren [where h = "b_node T"]) (use root R(1) in \<open>simp_all add: at_def\<close>)
  moreover have "inj_on (sw n1 n2) (set (addrs t))" by (auto simp: inj_on_def sw_def split: if_splits)
  then have "distinct (addrs (ren_tree (sw n1 n2) t))"
    unfolding addrs_ren distinct_map [of "sw n1 n2"] using root by (simp add: at_def)
  ultimately show ?thesis using R(2) by (simp add: at_def)
qed


text \<open>After the swap the node is at the end of the path, with at most one child.\<close>

lemma Remove_swap:
  assumes root: "at T (fill c (Node (fill c2 (Node x (m, bm) Leaf)) (a, b) r)) (b_root T) None []"
    and av: "avl (fill c (Node (fill c2 (Node x (m, bm) Leaf)) (a, b) r))"
  shows "\<exists>p q. at (BAVL_swap_nodes T a m) (nd False a bm x Leaf) p q (c2 @ (False, m, b, r) # c)"
    and "avl (fill (c2 @ (False, m, b, r) # c) (nd False a bm x Leaf))"
proof -
  let ?l = "fill c2 (Node x (m, bm) Leaf)" let ?t = "fill c (Node ?l (a, b) r)"
  have l: "addrs ?l = before c2 @ addrs x @ m # after c2" by (simp add: addrs_fill)
  have all: "addrs ?t = before c @ (before c2 @ addrs x @ m # after c2) @ a # addrs r @ after c"
    by (simp add: addrs_fill)
  have ds: "distinct (before c @ (before c2 @ addrs x @ m # after c2) @ a # addrs r @ after c)"
    using root all by (simp add: at_def)
  have "?t = fill c (fill [(False, a, b, r)] ?l)" by (simp add: nd_def)
  then have t2: "?t = fill (c2 @ (False, a, b, r) # c) (Node x (m, bm) Leaf)" by (simp add: fill_append nd_def)
  obtain p q where pa: "at T (Node ?l (a, b) r) p q c" using at_unfill [OF root] by blast
  obtain p' q' where pm: "at T (Node x (m, bm) Leaf) p' q' (c2 @ (False, a, b, r) # c)"
    using at_unfill root unfolding t2 by blast
  have q: "n_parent (b_node T a) = q" "n_parent (b_node T m) = q'" using pa pm by (auto simp: at_def)
  have qc: "z \<in> set (before c) \<union> set (after c)" if "q = Some z" for z
    using crep_parent [of "b_node T" c p z] pa that by (auto simp: at_def)
  obtain y where y: "y \<in> set (before c2) \<union> set (after c2) \<union> {a}" "q' = Some y"
    using pm by (cases c2) (auto simp: at_def split: if_splits)
  have out: "m \<notin> set (before c) \<union> set (after c)" "m \<notin> set (before c2) \<union> set (after c2) \<union> {a}"
    "(set (before c2) \<union> set (after c2) \<union> {a}) \<inter> (set (before c) \<union> set (after c)) = {}"
    using ds by auto
  have ne: "a \<noteq> m" "q \<noteq> Some m" "q \<noteq> Some a" "q' \<noteq> Some m" "q \<noteq> q'"
    using out qc y by blast+
  have ids: "sw a m z = z" if "z \<in> set (before c) \<union> set (after c) \<union> set (addrs r) \<union> set (before c2) \<union> set (after c2) \<union> set (addrs x)" for z
    using ds that by (auto simp: sw_def)
  have ren: "ren_tree (sw a m) ?t = fill (c2 @ (False, m, b, r) # c) (nd False a bm x Leaf)"
  proof -
    have rr: "ren_tree (sw a m) r = r" by (rule ren_tree_id, rule ids) simp
    have rl: "ren_tree (sw a m) ?l = fill c2 (ren_tree (sw a m) (Node x (m, bm) Leaf))"
      by (rule ren_tree_fill, rule ids) blast
    have "ren_tree (sw a m) ?t = fill c (ren_tree (sw a m) (nd False a b ?l r))"
      by (subst ren_tree_fill) (use ids in \<open>auto simp: nd_def\<close>)
    also have "\<dots> = fill c (nd False m b (fill c2 (ren_tree (sw a m) (Node x (m, bm) Leaf))) r)"
      unfolding ren_tree_nd sw_simps(1) rr rl ..
    also have "ren_tree (sw a m) (Node x (m, bm) Leaf) = nd False a bm x Leaf"
      using ren_tree_id [of x "sw a m"] ids by (simp add: ren_tree_def nd_def)
    finally show ?thesis by (simp add: fill_append)
  qed
  have "at (BAVL_swap_nodes T a m) (ren_tree (sw a m) ?t) (b_root (BAVL_swap_nodes T a m)) None []"
    by (rule at_ren [OF root]) (use ne q all in auto)
  from at_unfill [OF this [unfolded ren]]
  show "\<exists>p q. at (BAVL_swap_nodes T a m) (nd False a bm x Leaf) p q (c2 @ (False, m, b, r) # c)" .
  show "avl (fill (c2 @ (False, m, b, r) # c) (nd False a bm x Leaf))"
    using av avl_ren(2) [of "sw a m" ?t] unfolding ren by simp
qed

lemma Remove_ok:
  assumes T: "bavl cmp val T (us @ a # vs)"
  shows "\<exists>T'. BAVL_Remove T a = Some T' \<and> bavl cmp val T' (us @ vs)"
proof -
  obtain t where t: "at T t (b_root T) None []" "avl t" "addrs t = us @ a # vs"
    and srt: "sorted_wrt (\<lambda>x y. cmp (val x) (val y) = - 1) (us @ a # vs)"
    using T by (auto simp: bavl_def)
  obtain c l b r where tc: "t = fill c (Node l (a, b) r)" using exists_path [of a t] t(3) by auto
  obtain p q where pos: "at T (Node l (a, b) r) p q c" using at_unfill t(1) unfolding tc by blast
  have "(before c @ addrs l) @ a # (addrs r @ after c) = us @ a # vs" using t(3) unfolding tc addrs_fill by simp
  then have uv: "before c @ addrs l = us" "addrs r @ after c = vs"
    using bavl_distinct [OF T] by (auto simp: append_eq_Cons_conv append_eq_append_conv2 Cons_eq_append_conv)
  have lk: "n_link (b_node T a) False = None \<longleftrightarrow> l = Leaf" "n_link (b_node T a) True = None \<longleftrightarrow> r = Leaf"
    using pos by (cases l; cases r; auto simp: at_def split: prod.splits)+
  have "\<exists>T' t'. BAVL_Remove T a = Some T' \<and> at T' t' (b_root T') None [] \<and> avl t' \<and> addrs t' = us @ vs"
  proof (cases "l = Leaf \<or> r = Leaf")
    case True
    then have un: "BAVL_Remove T a = BAVL_unlink T a"
      using lk by (auto simp: BAVL_Remove_def split: option.splits)
    have "\<exists>d u. Node l (a, b) r = nd d a b u Leaf \<and> addrs u = addrs l @ addrs r"
      using True by (intro exI [of _ "l = Leaf"] exI [of _ "if l = Leaf then r else l"]) (auto simp: nd_def)
    then obtain d u where "Node l (a, b) r = nd d a b u Leaf" "addrs u = addrs l @ addrs r" by blast
    then show ?thesis using unlink_ok [of T d a b u p q c] pos t(2) tc uv un by auto
  next
    case False
    then obtain e e' where e: "n_link (b_node T a) False = Some e" "n_link (b_node T a) True = Some e'" using lk by auto
    have "at T l (Some e) (Some a) ((False, a, b, r) # c)"
      using at_down [of T False a b l r p q c] pos e by (simp add: nd_def)
    from subtree_max_ok [OF this]
    obtain c2 x m bm where m: "BAVL_subtree_max T e = Some m" "l = fill c2 (Node x (m, bm) Leaf)" "after c2 = []"
      by (elim exE conjE)
    have un: "BAVL_Remove T a = BAVL_unlink (BAVL_swap_nodes T a m) a" using e m by (simp add: BAVL_Remove_def)
    note S = Remove_swap [OF t(1) [unfolded tc m(2)] t(2) [unfolded tc m(2)]]
    obtain p' q' where "at (BAVL_swap_nodes T a m) (nd False a bm x Leaf) p' q' (c2 @ (False, m, b, r) # c)" using S(1) by blast
    moreover have "before (c2 @ (False, m, b, r) # c) @ addrs x @ after (c2 @ (False, m, b, r) # c) = us @ vs"
      unfolding uv(1) [symmetric] uv(2) [symmetric] m(2) addrs_fill by (simp add: before_append after_append m(3))
    ultimately show ?thesis using unlink_ok [OF _ S(2)] un by metis
  qed
  moreover have "sorted_wrt (\<lambda>x y. cmp (val x) (val y) = - 1) (us @ vs)" using srt by (simp add: sorted_wrt_append)
  ultimately show ?thesis by (auto simp: bavl_def)
qed


subsection \<open>Lookup and traversal\<close>

text \<open>The lookups follow the same path as insertion.\<close>

lemma lookup_loops:
  assumes "at T t (Some r) q c"
  shows "BAVL_lookup_exact_loop K T v r =
      map_option (\<lambda>s. case s of Inl x \<Rightarrow> Some x | Inr _ \<Rightarrow> None) (BAVL_insert_search (\<lambda>_. K v) T n r) \<and>
    BAVL_lookup_loop K T v r =
      map_option (\<lambda>s. case s of Inl x \<Rightarrow> x | Inr (a, _) \<Rightarrow> a) (BAVL_insert_search (\<lambda>_. K v) T n r)"
  using assms
proof (induction "size t" arbitrary: t r q c rule: less_induct)
  case less
  have "t \<noteq> Leaf" using less.prems by (auto simp: at_def)
  then obtain b x y where t: "t = nd (K v r = 1) r b x y"
    using nd_exists [of t "K v r = 1"] less.prems by (auto simp: at_def)
  note down = at_down [OF less.prems [unfolded t]]
  have sz: "size x < size t" by (simp add: t nd_def)
  show ?case
  proof (cases "K v r = 0 \<or> n_link (b_node T r) (K v r = 1) = None")
    case True
    then show ?thesis
      unfolding BAVL_lookup_exact_loop.simps [of K T v r] BAVL_lookup_loop.simps [of K T v r]
        BAVL_insert_search.simps [of _ T n r] by (auto simp: Let_def)
  next
    case False
    then obtain r' where r': "n_link (b_node T r) (K v r = 1) = Some r'" by auto
    show ?thesis
      unfolding BAVL_lookup_exact_loop.simps [of K T v r] BAVL_lookup_loop.simps [of K T v r]
        BAVL_insert_search.simps [of _ T n r]
      using less.hyps [OF sz down [unfolded r']] False r' by (simp add: Let_def)
  qed
qed

lemma descend_ok:
  assumes "at T t (Some r) q c"
  shows "BAVL_descend T d r = Some (if d then last (addrs t) else hd (addrs t))"
  using assms
proof (induction "size t" arbitrary: t r q c rule: less_induct)
  case less
  have "t \<noteq> Leaf" using less.prems by (auto simp: at_def)
  then obtain b x y where t: "t = nd d r b x y" using nd_exists [of t d] less.prems by (auto simp: at_def)
  note down = at_down [OF less.prems [unfolded t]]
  have sz: "size x < size t" by (simp add: t nd_def)
  show ?case
  proof (cases "n_link (b_node T r) d")
    case None
    then have "x = Leaf" using down by (cases x) (auto simp: at_def)
    then show ?thesis using None by (subst BAVL_descend.simps) (simp add: t)
  next
    case (Some r')
    then have "addrs x \<noteq> []" using down by (cases x) (auto simp: at_def)
    then show ?thesis
      using Some less.hyps [OF sz down [unfolded Some]] by (subst BAVL_descend.simps) (simp add: t hd_append)
  qed
qed

lemma climb_ok:
  assumes "at T t (Some n) q c"
  shows "BAVL_climb T d n =
    Some (if d then (case after c of [] \<Rightarrow> None | y # _ \<Rightarrow> Some y)
          else if before c = [] then None else Some (last (before c)))"
  using assms
proof (induction c arbitrary: t n q)
  case Nil
  then have "n_parent (b_node T n) = None" by (cases t) (auto simp: at_def)
  then show ?case by (subst BAVL_climb.simps) simp
next
  case (Cons f c)
  obtain d' a b s where f: "f = (d', a, b, s)" by (cases f)
  have par: "n_parent (b_node T n) = Some a" using Cons.prems f by (cases t) (auto simp: at_def)
  have "n \<in> set (addrs t)" using Cons.prems rep_Some [of "b_node T" t n q] by (simp add: at_def)
  then have "n \<notin> set (addrs s)" using Cons.prems f by (auto simp: at_def split: if_splits)
  then have side: "Some n = n_link (b_node T a) d \<longleftrightarrow> d = d'"
    using Cons.prems f rep_Some [of "b_node T" s n "Some a"] by (cases "d = d'") (auto simp: at_def)
  have up: "at T (nd d' a b t s) (Some a) (n_parent (b_node T a)) c" by (rule at_up [OF Cons.prems [unfolded f]])
  show ?case
    unfolding BAVL_climb.simps [of T d n] par option.case side
    using Cons.IH [OF up] f by (cases d; cases d') simp_all
qed

text \<open>The node after and the node before, in the order of the tree.\<close>

lemma GetNext_ok:
  assumes "bavl cmp val T (us @ a # vs)"
  shows "BAVL_GetNext T a = Some (case vs of [] \<Rightarrow> None | y # _ \<Rightarrow> Some y)"
    and "BAVL_GetPrev T a = Some (if us = [] then None else Some (last us))"
proof -
  obtain t where t: "at T t (b_root T) None []" "addrs t = us @ a # vs" using assms by (auto simp: bavl_def)
  obtain c l b r where tc: "t = fill c (Node l (a, b) r)" using exists_path [of a t] t(2) by auto
  obtain p q where pq: "at T (Node l (a, b) r) p q c" using at_unfill t(1) unfolding tc by blast
  then have "p = Some a" by (simp add: at_def)
  with pq have pos: "at T (Node l (a, b) r) (Some a) q c" by simp
  have "(before c @ addrs l) @ a # (addrs r @ after c) = us @ a # vs" using t(2) unfolding tc addrs_fill by simp
  then have uv: "us = before c @ addrs l" "vs = addrs r @ after c"
    using bavl_distinct [OF assms] by (auto simp: append_eq_Cons_conv append_eq_append_conv2 Cons_eq_append_conv)
  have l: "at T l (n_link (b_node T a) False) (Some a) ((False, a, b, r) # c)"
    and r: "at T r (n_link (b_node T a) True) (Some a) ((True, a, b, l) # c)"
    using at_down [of T False a b l r "Some a" q c] at_down [of T True a b r l "Some a" q c] pos by (simp_all add: nd_def)
  show "BAVL_GetNext T a = Some (case vs of [] \<Rightarrow> None | y # _ \<Rightarrow> Some y)"
  proof (cases "n_link (b_node T a) True")
    case None
    then have "r = Leaf" using r by (cases r) (auto simp: at_def)
    then show ?thesis using climb_ok [OF pos, of True] None uv(2) by (simp add: BAVL_GetNext_def)
  next
    case (Some e)
    then have "addrs r \<noteq> []" using r by (cases r) (auto simp: at_def)
    then show ?thesis using descend_ok [OF r [unfolded Some], of False] Some uv(2)
      by (cases "addrs r") (simp_all add: BAVL_GetNext_def)
  qed
  show "BAVL_GetPrev T a = Some (if us = [] then None else Some (last us))"
  proof (cases "n_link (b_node T a) False")
    case None
    then have "l = Leaf" using l by (cases l) (auto simp: at_def)
    then show ?thesis using climb_ok [OF pos, of False] None uv(1) by (simp add: BAVL_GetPrev_def)
  next
    case (Some e)
    then have "addrs l \<noteq> []" using l by (cases l) (auto simp: at_def)
    then show ?thesis using descend_ok [OF l [unfolded Some], of True] Some uv(1)
      by (auto simp: BAVL_GetPrev_def)
  qed
qed

lemma GetFirst_ok:
  assumes "bavl cmp val T xs"
  shows "BAVL_GetFirst T = Some (if xs = [] then None else Some (hd xs))"
    and "BAVL_GetLast T = Some (if xs = [] then None else Some (last xs))"
    and "BAVL_IsEmpty T \<longleftrightarrow> xs = []"
proof -
  obtain t where t: "at T t (b_root T) None []" "addrs t = xs" using assms by (auto simp: bavl_def)
  have "b_root T = None \<longleftrightarrow> xs = []" using t by (cases t) (auto simp: at_def)
  then show "BAVL_GetFirst T = Some (if xs = [] then None else Some (hd xs))"
    "BAVL_GetLast T = Some (if xs = [] then None else Some (last xs))" "BAVL_IsEmpty T \<longleftrightarrow> xs = []"
    using t descend_ok [of T t _ None "[]"]
    by (auto simp: BAVL_GetFirst_def BAVL_GetLast_def BAVL_IsEmpty_def split: option.split)
qed

lemma LookupExact_ok:
  assumes cmp: "is_comparator cmp" and T: "bavl cmp val T xs"
  shows "(\<exists>x\<in>set xs. cmp v (val x) = 0 \<and> BAVL_LookupExact (cmp_key cmp val) T v = Some (Some x)) \<or>
    (\<forall>x\<in>set xs. cmp v (val x) \<noteq> 0) \<and> BAVL_LookupExact (cmp_key cmp val) T v = Some None"
proof -
  obtain t where t: "at T t (b_root T) None []" "addrs t = xs" "sorted_wrt (\<lambda>x y. cmp (val x) (val y) = - 1) (addrs t)"
    using T by (auto simp: bavl_def)
  show ?thesis
  proof (cases "b_root T")
    case None
    then have "xs = []" using t(1,2) by (cases t) (auto simp: at_def)
    then show ?thesis using None by (simp add: BAVL_LookupExact_def)
  next
    case (Some r)
    have "fits cmp val v []" by (simp add: fits_def)
    note S = insert_search [where F = "\<lambda>_. cmp_key cmp val v" and v = v and node = r,
        OF cmp refl t(1) [unfolded Some] this t(3)]
    have L: "BAVL_LookupExact (cmp_key cmp val) T v =
        map_option (\<lambda>s. case s of Inl x \<Rightarrow> Some x | Inr _ \<Rightarrow> None) (BAVL_insert_search (\<lambda>_. cmp_key cmp val v) T r r)"
      using lookup_loops [OF t(1) [unfolded Some], of "cmp_key cmp val" v r] Some by (simp add: BAVL_LookupExact_def)
    show ?thesis using S unfolding L t(2) by (elim disjE bexE exE conjE) auto
  qed
qed

end
