(* ===== verification/Bavl_Index.thy ===== *)
theory Bavl_Index
  imports Bavl_Facts
begin

text \<open>
  What the users of \<^verbatim>\<open>structure/BAVL.h\<close> rely on, as a locale of ordered indices, and its interpretation on the
  pointer structure: any sequence of insertions and removals refines the same sequence on a set of
  nodes, lookup finds a node by its key, traversal lists all nodes, and the height is logarithmic.
\<close>

subsection \<open>The interface of an ordered index\<close>

datatype 'a index_op = Ins 'a | Del 'a

text \<open>The operations on a plain set of nodes: a node whose key is present is not added.\<close>

fun index_spec :: "('v \<Rightarrow> 'a \<Rightarrow> bool) \<Rightarrow> ('a \<Rightarrow> 'v) \<Rightarrow> 'a set \<Rightarrow> 'a index_op \<Rightarrow> 'a set" where
  "index_spec same val S (Ins a) = (if \<exists>x\<in>S. same (val a) x then S else insert a S)"
| "index_spec same val S (Del a) = S - {a}"

text \<open>A client removes only what is there.\<close>

fun index_ok :: "('v \<Rightarrow> 'a \<Rightarrow> bool) \<Rightarrow> ('a \<Rightarrow> 'v) \<Rightarrow> 'a set \<Rightarrow> 'a index_op list \<Rightarrow> bool" where
  "index_ok same val S [] \<longleftrightarrow> True"
| "index_ok same val S (oper # ops) \<longleftrightarrow>
     (case oper of Ins a \<Rightarrow> True | Del a \<Rightarrow> a \<in> S) \<and> index_ok same val (index_spec same val S oper) ops"

fun index_exec :: "('t \<Rightarrow> 'a \<Rightarrow> (bool \<times> 'a option \<times> 't) option) \<Rightarrow> ('t \<Rightarrow> 'a \<Rightarrow> 't option) \<Rightarrow> 't \<Rightarrow> 'a index_op list \<Rightarrow> 't option" where
  "index_exec ins del T [] = Some T"
| "index_exec ins del T (Ins a # ops) = do { (_, _, T') \<leftarrow> ins T a; index_exec ins del T' ops }"
| "index_exec ins del T (Del a # ops) = do { T' \<leftarrow> del T a; index_exec ins del T' ops }"

text \<open>The loop \<^verbatim>\<open>for (n = first; n; n = next(n))\<close>, collecting the nodes.\<close>

partial_function (option) index_walk :: "('t \<Rightarrow> 'a \<Rightarrow> 'a option option) \<Rightarrow> 't \<Rightarrow> 'a option \<Rightarrow> 'a list option" where
  "index_walk nxt T n =
     (case n of
        None \<Rightarrow> Some []
      | Some a \<Rightarrow> do { n' \<leftarrow> nxt T a; xs \<leftarrow> index_walk nxt T n'; Some (a # xs) })"

locale ordered_index =
  fixes holds :: "'t \<Rightarrow> 'a list \<Rightarrow> bool" and same :: "'v \<Rightarrow> 'a \<Rightarrow> bool" and val :: "'a \<Rightarrow> 'v"
    and ins :: "'t \<Rightarrow> 'a \<Rightarrow> (bool \<times> 'a option \<times> 't) option" and del :: "'t \<Rightarrow> 'a \<Rightarrow> 't option"
    and look :: "'t \<Rightarrow> 'v \<Rightarrow> 'a option option"
    and fst_node :: "'t \<Rightarrow> 'a option option" and nxt :: "'t \<Rightarrow> 'a \<Rightarrow> 'a option option"
  assumes holds_distinct: "holds T xs \<Longrightarrow> distinct xs"
    and ins_found: "holds T xs \<Longrightarrow> x \<in> set xs \<Longrightarrow> same (val a) x \<Longrightarrow>
      \<exists>y\<in>set xs. same (val a) y \<and> ins T a = Some (False, Some y, T)"
    and ins_new: "holds T xs \<Longrightarrow> \<forall>x\<in>set xs. \<not> same (val a) x \<Longrightarrow>
      \<exists>T' r us vs. ins T a = Some (True, r, T') \<and> xs = us @ vs \<and> holds T' (us @ a # vs)"
    and del_node: "holds T (us @ a # vs) \<Longrightarrow> \<exists>T'. del T a = Some T' \<and> holds T' (us @ vs)"
    and look_key: "holds T xs \<Longrightarrow>
      (\<exists>x\<in>set xs. same v x \<and> look T v = Some (Some x)) \<or> (\<forall>x\<in>set xs. \<not> same v x) \<and> look T v = Some None"
    and first_law: "holds T xs \<Longrightarrow> fst_node T = Some (if xs = [] then None else Some (hd xs))"
    and next_law: "holds T (us @ a # vs) \<Longrightarrow> nxt T a = Some (case vs of [] \<Rightarrow> None | y # _ \<Rightarrow> Some y)"
begin

lemma step_refines:
  assumes "holds T xs" and "case oper of Ins a \<Rightarrow> True | Del a \<Rightarrow> a \<in> set xs"
  shows "\<exists>T' ys. index_exec ins del T (oper # ops) = index_exec ins del T' ops \<and> holds T' ys \<and>
    set ys = index_spec same val (set xs) oper"
proof (cases oper)
  case (Ins a)
  show ?thesis
  proof (cases "\<exists>x\<in>set xs. same (val a) x")
    case True
    then show ?thesis using ins_found [OF assms(1)] assms(1) Ins by fastforce
  next
    case False
    then show ?thesis using ins_new [OF assms(1), of a] Ins by fastforce
  qed
next
  case (Del a)
  then obtain us vs where xs: "xs = us @ a # vs" using assms(2) by (auto dest: split_list)
  then have "set (us @ vs) = set xs - {a}" using holds_distinct [OF assms(1)] by auto
  then show ?thesis using del_node [of T us a vs] assms(1) xs Del by fastforce
qed

lemma exec_refines:
  assumes "holds T xs" and "index_ok same val (set xs) ops"
  shows "\<exists>T' ys. index_exec ins del T ops = Some T' \<and> holds T' ys \<and> set ys = foldl (index_spec same val) (set xs) ops"
  using assms
proof (induction ops arbitrary: T xs)
  case (Cons oper ops)
  obtain T1 ys where 1: "index_exec ins del T (oper # ops) = index_exec ins del T1 ops" "holds T1 ys"
    "set ys = index_spec same val (set xs) oper"
    using step_refines [OF Cons.prems(1), of oper ops] Cons.prems(2) by auto
  show ?case using Cons.IH [OF 1(2)] Cons.prems(2) 1 by simp
qed auto

lemma walk_from:
  assumes "holds T (us @ vs)"
  shows "index_walk nxt T (if vs = [] then None else Some (hd vs)) = Some vs"
  using assms
proof (induction vs arbitrary: us)
  case Nil
  show ?case by (subst index_walk.simps) simp
next
  case (Cons a vs)
  have "index_walk nxt T (if vs = [] then None else Some (hd vs)) = Some vs" using Cons.IH [of "us @ [a]"] Cons.prems by simp
  then show ?case using next_law [OF Cons.prems] by (subst index_walk.simps) (cases vs; simp)
qed

lemma walk_all: "holds T xs \<Longrightarrow> \<exists>n. fst_node T = Some n \<and> index_walk nxt T n = Some xs"
  using first_law walk_from [of T "[]" xs] by simp

end

interpretation bavl_index: ordered_index "\<lambda>T xs. is_comparator cmp \<and> bavl cmp val T xs" "\<lambda>v x. cmp v (val x) = 0" val
  "BAVL_Insert (cmp_nodes cmp val)" BAVL_Remove "BAVL_LookupExact (cmp_key cmp val)" BAVL_GetFirst BAVL_GetNext
  for cmp :: "'v \<Rightarrow> 'v \<Rightarrow> int" and val :: "'a \<Rightarrow> 'v"
proof unfold_locales
  fix T :: "'a BAVL" and xs us vs :: "'a list" and x a :: 'a and v :: 'v
  show "is_comparator cmp \<and> bavl cmp val T xs \<Longrightarrow> distinct xs" using bavl_distinct by blast
  show "is_comparator cmp \<and> bavl cmp val T xs \<Longrightarrow> x \<in> set xs \<Longrightarrow> cmp (val a) (val x) = 0 \<Longrightarrow>
      \<exists>y\<in>set xs. cmp (val a) (val y) = 0 \<and> BAVL_Insert (cmp_nodes cmp val) T a = Some (False, Some y, T)"
    using Insert_found [of cmp val T xs x a] by (elim conjE)
  show "is_comparator cmp \<and> bavl cmp val T xs \<Longrightarrow> \<forall>x\<in>set xs. cmp (val a) (val x) \<noteq> 0 \<Longrightarrow>
      \<exists>T' r us vs. BAVL_Insert (cmp_nodes cmp val) T a = Some (True, r, T') \<and> xs = us @ vs \<and>
        is_comparator cmp \<and> bavl cmp val T' (us @ a # vs)"
    using Insert_new [of cmp val T xs a] by simp
  show "is_comparator cmp \<and> bavl cmp val T (us @ a # vs) \<Longrightarrow>
      \<exists>T'. BAVL_Remove T a = Some T' \<and> is_comparator cmp \<and> bavl cmp val T' (us @ vs)"
    using Remove_ok [of cmp val T us a vs] by simp
  show "is_comparator cmp \<and> bavl cmp val T xs \<Longrightarrow>
      (\<exists>x\<in>set xs. cmp v (val x) = 0 \<and> BAVL_LookupExact (cmp_key cmp val) T v = Some (Some x)) \<or>
      (\<forall>x\<in>set xs. cmp v (val x) \<noteq> 0) \<and> BAVL_LookupExact (cmp_key cmp val) T v = Some None"
    using LookupExact_ok [of cmp val T xs v] by (elim conjE)
  show "is_comparator cmp \<and> bavl cmp val T xs \<Longrightarrow> BAVL_GetFirst T = Some (if xs = [] then None else Some (hd xs))"
    using GetFirst_ok(1) [of cmp val T xs] by simp
  show "is_comparator cmp \<and> bavl cmp val T (us @ a # vs) \<Longrightarrow>
      BAVL_GetNext T a = Some (case vs of [] \<Rightarrow> None | y # _ \<Rightarrow> Some y)"
    using GetNext_ok(1) [of cmp val T us a vs] by simp
qed

subsection \<open>Properties of the tree\<close>

lemma bavl_init: "bavl cmp val (BAVL_Init nodes) []"
  unfolding bavl_def by (intro conjI exI [of _ Leaf]) (simp_all add: at_def BAVL_Init_def)

text \<open>C18. The tree refines a set of nodes. Starting from the empty tree, any sequence of insertions and of
  removals of nodes that are present returns, leaves a balanced search tree with consistent parent and
  child pointers, and has exactly the effect of the same sequence on a set, where a node whose key is
  already present is not added. Lookup by key then finds the node with that key if there is one.\<close>

theorem bavl_refines_set:
  fixes cmp :: "'v \<Rightarrow> 'v \<Rightarrow> int" and val :: "'a \<Rightarrow> 'v"
  assumes "is_comparator cmp" and "index_ok (\<lambda>v x. cmp v (val x) = 0) val {} ops"
  shows "\<exists>T ys. index_exec (BAVL_Insert (\<lambda>a b. cmp (val a) (val b))) BAVL_Remove (BAVL_Init nodes) ops = Some T \<and>
    bavl cmp val T ys \<and> set ys = foldl (index_spec (\<lambda>v x. cmp v (val x) = 0) val) {} ops \<and>
    (\<forall>v. case BAVL_LookupExact (\<lambda>v b. cmp v (val b)) T v of
       Some (Some x) \<Rightarrow> x \<in> set ys \<and> cmp v (val x) = 0
     | Some None \<Rightarrow> \<forall>x\<in>set ys. cmp v (val x) \<noteq> 0
     | None \<Rightarrow> False)"
proof -
  have "is_comparator cmp \<and> bavl cmp val (BAVL_Init nodes) []" using assms(1) bavl_init by blast
  from bavl_index.exec_refines [OF this, of ops] assms(2)
  obtain T ys where T: "index_exec (BAVL_Insert (cmp_nodes cmp val)) BAVL_Remove (BAVL_Init nodes) ops = Some T"
    "is_comparator cmp \<and> bavl cmp val T ys" "set ys = foldl (index_spec (\<lambda>v x. cmp v (val x) = 0) val) {} ops"
    by auto
  have "case BAVL_LookupExact (cmp_key cmp val) T v of
       Some (Some x) \<Rightarrow> x \<in> set ys \<and> cmp v (val x) = 0
     | Some None \<Rightarrow> \<forall>x\<in>set ys. cmp v (val x) \<noteq> 0
     | None \<Rightarrow> False" for v
    using bavl_index.look_key [OF T(2), of v] by (elim disjE bexE conjE) simp_all
  then show ?thesis using T by blast
qed

text \<open>C19. Traversal terminates and is complete. On a balanced search tree, the loop from \<^verbatim>\<open>BAVL_GetFirst\<close> along
  \<^verbatim>\<open>BAVL_GetNext\<close> returns, having visited every node exactly once and in order.\<close>

theorem bavl_traversal:
  assumes "is_comparator cmp" and "bavl cmp val T xs"
  shows "\<exists>n. BAVL_GetFirst T = Some n \<and> index_walk BAVL_GetNext T n = Some xs \<and> distinct xs \<and>
    sorted_wrt (\<lambda>x y. cmp (val x) (val y) = - 1) xs"
  using bavl_index.walk_all [of cmp val T xs] assms bavl_distinct [OF assms(2)] by (auto simp: bavl_def)

lemma avl_height: "avl t \<Longrightarrow> 2 ^ height t \<le> (size t + 1) ^ 2"
proof (induction t)
  case (Node l x r)
  obtain a b where x: "x = (a, b)" by (cases x)
  let ?s = "size l + 1" and ?u = "size r + 1"
  have d: "height r \<le> height l + 1" "height l \<le> height r + 1" using Node.prems x by auto
  have l: "2 ^ height l \<le> ?s ^ 2" and r: "2 ^ height r \<le> ?u ^ 2" using Node x by auto
  have "(?s + ?u) ^ 2 = ?s ^ 2 + ?u ^ 2 + 2 * (?s * ?u)" by (simp add: power2_eq_square algebra_simps)
  moreover have "2 ^ height l + 2 ^ height r + 2 * 2 ^ min (height l) (height r) \<le> ?s ^ 2 + ?u ^ 2 + 2 * (?s * ?u)"
  proof -
    have "2 ^ min (height l) (height r) \<le> ?s * ?u"
    proof (cases "?s \<le> ?u")
      case True
      have "(2::nat) ^ min (height l) (height r) \<le> 2 ^ height l" by simp
      also have "\<dots> \<le> ?s * ?s" using l by (simp add: power2_eq_square)
      also have "\<dots> \<le> ?s * ?u" using mult_le_mono2 [OF True, of ?s] .
      finally show ?thesis .
    next
      case False
      have "(2::nat) ^ min (height l) (height r) \<le> 2 ^ height r" by simp
      also have "\<dots> \<le> ?u * ?u" using r by (simp add: power2_eq_square)
      also have "\<dots> \<le> ?s * ?u" using False mult_le_mono1 [of ?u ?s ?u] by linarith
      finally show ?thesis .
    qed
    then show ?thesis using l r by linarith
  qed
  moreover have "(2::nat) ^ height (Node l x r) \<le> 2 ^ height l + 2 ^ height r + 2 * 2 ^ min (height l) (height r)"
  proof -
    have h: "height (Node l x r) = Suc (max (height l) (height r))"
      "max (height l) (height r) \<le> Suc (min (height l) (height r))" using d by auto
    have "(2::nat) ^ max (height l) (height r) \<le> 2 ^ height l + 2 ^ height r" by (simp add: max_def)
    moreover have "(2::nat) ^ max (height l) (height r) \<le> 2 * 2 ^ min (height l) (height r)"
      using power_increasing [OF h(2), of "2::nat"] by simp
    ultimately show ?thesis using h(1) by simp
  qed
  ultimately show ?case by (simp add: algebra_simps)
qed simp


subsection \<open>Witnesses\<close>

definition cmp_nat :: "nat \<Rightarrow> nat \<Rightarrow> int" where
  "cmp_nat x y = (if x < y then - 1 else if x = y then 0 else 1)"

lemma cmp_nat_comparator: "is_comparator cmp_nat"
  unfolding is_comparator_def cmp_nat_def by force

definition ex_nodes :: "nat \<Rightarrow> nat BAVLNode" where
  "ex_nodes _ = \<lparr>n_parent = None, n_link = (\<lambda>_. None), n_balance = 0\<rparr>"

definition ex_index_ops :: "nat index_op list" where
  "ex_index_ops = [Ins 5, Ins 3, Ins 8, Ins 1, Ins 2, Del 5, Ins 3, Del 8]"

lemma ex_index_ops_ok: "index_ok (\<lambda>v x. cmp_nat v (id x) = 0) id {} ex_index_ops"
  by (simp add: ex_index_ops_def cmp_nat_def)

lemma ex_index_ops_set: "foldl (index_spec (\<lambda>v x. cmp_nat v (id x) = 0) id) {} ex_index_ops = {1, 2, 3}"
  by (simp add: ex_index_ops_def cmp_nat_def insert_Diff_if insert_commute)

theorem bavl_refines_set_witness:
  "\<exists>T ys. index_exec (BAVL_Insert (\<lambda>a b. cmp_nat (id a) (id b))) BAVL_Remove (BAVL_Init ex_nodes) ex_index_ops = Some T \<and>
     bavl cmp_nat id T ys \<and> set ys = {1, 2, 3}"
  using bavl_refines_set [OF cmp_nat_comparator ex_index_ops_ok, of ex_nodes] unfolding ex_index_ops_set by blast

lemma ex_tree: "\<exists>T. bavl cmp_nat id T [4, 7]"
proof -
  have 1: "bavl cmp_nat id (BAVL_Init ex_nodes) []" by (rule bavl_init)
  obtain T1 where 2: "bavl cmp_nat id T1 [4]"
    using Insert_new [OF cmp_nat_comparator 1, of 4] by auto
  obtain T2 us vs where 3: "[4] = us @ vs" "bavl cmp_nat id T2 (us @ 7 # vs)"
    using Insert_new [OF cmp_nat_comparator 2, of 7] by (auto simp: cmp_nat_def)
  have "sorted_wrt (\<lambda>x y. cmp_nat (id x) (id y) = - 1) (us @ 7 # vs)" using 3(2) by (simp add: bavl_def)
  then have "us = [4]" "vs = []" using 3(1) by (cases us; force simp: cmp_nat_def)+
  then show ?thesis using 3(2) by auto
qed

theorem bavl_traversal_witness:
  "\<exists>T n. bavl cmp_nat id T [4, 7] \<and> BAVL_GetFirst T = Some n \<and> index_walk BAVL_GetNext T n = Some [4, 7]"
  using ex_tree bavl_traversal [OF cmp_nat_comparator] by blast


end
