(* ===== verification/Fair_Queue.thy ===== *)
theory Fair_Queue
  imports Byteorder "HOL-Library.Monad_Syntax"
begin

text \<open>
  The fair queue of \<^verbatim>\<open>flow/PacketPassFairQueue.c\<close>: packets of many flows share one output, and the
  flow with the smallest virtual time sends next. A flow is named by its address, a natural number,
  and the flow objects are a function from addresses. Times are 64-bit words. The tree of queued
  flows (the generic AVL tree \<^verbatim>\<open>structure/SAvl_impl.h\<close>) is the list of its elements in order; an
  insertion compares with the elements' present times, and a later change of the times does not move
  them. The \<^verbatim>\<open>ASSERT\<close>s of the source are guards, a failed one is the value \<^const>\<open>None\<close>. The calls
  a handler makes on its neighbours are returned in order.
\<close>

subsection \<open>State\<close>

record fq_flow =
  ff_time :: u64
  ff_is_queued :: bool
  ff_data :: nat
  ff_data_len :: int
  ff_handler_busy :: bool

record PacketPassFairQueue =
  fq_output_mtu :: int
  fq_use_cancel :: bool
  fq_packet_weight :: int
  fq_sending_flow :: "nat option"
  fq_sending_len :: int
  fq_previous_flow :: "nat option"
  fq_queued_tree :: "nat list"
  fq_flows_list :: "nat list"
  fq_freeing :: bool
  fq_schedule_job :: bool
  fq_flow :: "nat \<Rightarrow> fq_flow"

datatype fq_out =
    FQ_Send nat int      \<comment> \<open>\<^verbatim>\<open>PacketPassInterface_Sender_Send(m->output, data, data_len)\<close>\<close>
  | FQ_Done nat          \<comment> \<open>\<^verbatim>\<open>PacketPassInterface_Done(&flow->input)\<close>\<close>
  | FQ_Busy nat          \<comment> \<open>the call of the flow's busy handler\<close>
  | FQ_RequestCancel     \<comment> \<open>\<^verbatim>\<open>PacketPassInterface_Sender_RequestCancel(m->output)\<close>\<close>

definition FAIRQUEUE_MAX_TIME :: u64 where
  "FAIRQUEUE_MAX_TIME = - 1"

abbreviation fq_time :: "PacketPassFairQueue \<Rightarrow> nat \<Rightarrow> u64" where
  "fq_time m f \<equiv> ff_time (fq_flow m f)"

definition fq_upd :: "nat \<Rightarrow> (fq_flow \<Rightarrow> fq_flow) \<Rightarrow> PacketPassFairQueue \<Rightarrow> PacketPassFairQueue" where
  "fq_upd f u m = m\<lparr>fq_flow := (fq_flow m)(f := u (fq_flow m f))\<rparr>"

subsection \<open>The tree of queued flows\<close>

definition compare_flows :: "(nat \<Rightarrow> fq_flow) \<Rightarrow> nat \<Rightarrow> nat \<Rightarrow> int" where
  "compare_flows fs f1 f2 =
     (let cmp = B_COMPARE (ff_time (fs f1)) (ff_time (fs f2))
      in if cmp \<noteq> 0 then cmp else B_COMPARE f1 f2)"

definition fq_tree_first :: "nat list \<Rightarrow> nat option" where
  "fq_tree_first t = (case t of [] \<Rightarrow> None | f # _ \<Rightarrow> Some f)"

text \<open>The insertion reports whether there was no equal element.\<close>

fun fq_tree_insert :: "(nat \<Rightarrow> fq_flow) \<Rightarrow> nat \<Rightarrow> nat list \<Rightarrow> nat list \<times> bool" where
  "fq_tree_insert fs f [] = ([f], True)"
| "fq_tree_insert fs f (g # t) =
     (if compare_flows fs f g = 0 then (g # t, False)
      else if compare_flows fs f g < 0 then (f # g # t, True)
      else (let (t', res) = fq_tree_insert fs f t in (g # t', res)))"

definition fq_tree_remove :: "nat \<Rightarrow> nat list \<Rightarrow> nat list" where
  "fq_tree_remove f t = remove1 f t"

subsection \<open>Virtual time\<close>

definition get_current_time :: "PacketPassFairQueue \<Rightarrow> u64" where
  "get_current_time m =
     (case fq_sending_flow m of
        Some s \<Rightarrow> fq_time m s
      | None \<Rightarrow>
          let (time, hav) = (case fq_tree_first (fq_queued_tree m) of
                                Some f \<Rightarrow> (fq_time m f, True)
                              | None \<Rightarrow> (0, False));
              (time, hav) = (case fq_previous_flow m of
                                Some p \<Rightarrow> if \<not> hav \<or> fq_time m p < time then (fq_time m p, True)
                                          else (time, hav)
                              | None \<Rightarrow> (time, hav))
          in if hav then time else 0)"

text \<open>The loop over the list of flows that takes \<open>subtract\<close> from every time.\<close>

fun fq_subtract :: "nat \<Rightarrow> u64 \<Rightarrow> nat list \<Rightarrow> PacketPassFairQueue \<Rightarrow> PacketPassFairQueue option" where
  "fq_subtract flow subtract [] m = Some m"
| "fq_subtract flow subtract (someflow # fs) m =
     (if subtract > fq_time m someflow \<and> someflow \<noteq> flow
      then Option.bind (c_assert (\<not> ff_is_queued (fq_flow m someflow)))
             (\<lambda>_. fq_subtract flow subtract fs (fq_upd someflow (ff_time_update (\<lambda>_. 0)) m))
      else fq_subtract flow subtract fs (fq_upd someflow (ff_time_update (\<lambda>t. t - subtract)) m))"

definition increment_sent_flow :: "PacketPassFairQueue \<Rightarrow> nat \<Rightarrow> u64 \<Rightarrow> PacketPassFairQueue option" where
  "increment_sent_flow m flow amount =
     do { c_assert (amount \<le> FAIRQUEUE_MAX_TIME);
          c_assert (\<not> ff_is_queued (fq_flow m flow));
          c_assert (fq_sending_flow m = None);
          m \<leftarrow> (if amount > FAIRQUEUE_MAX_TIME - fq_time m flow
                then (case fq_tree_first (fq_queued_tree m) of
                        None \<Rightarrow> fq_subtract flow (fq_time m flow) (fq_flows_list m) m
                      | Some first_flow \<Rightarrow>
                          do { c_assert (ff_is_queued (fq_flow m first_flow));
                               fq_subtract flow (fq_time m first_flow) (fq_flows_list m) m })
                else Some m);
          Some (fq_upd flow (ff_time_update (\<lambda>t. t + amount)) m) }"

subsection \<open>Handlers\<close>

definition fq_schedule :: "PacketPassFairQueue \<Rightarrow> (PacketPassFairQueue \<times> fq_out list) option" where
  "fq_schedule m =
     do { c_assert (fq_sending_flow m = None);
          c_assert (fq_previous_flow m = None);
          c_assert (\<not> fq_freeing m);
          qflow \<leftarrow> fq_tree_first (fq_queued_tree m);
          c_assert (ff_is_queued (fq_flow m qflow));
          let m = m\<lparr>fq_queued_tree := fq_tree_remove qflow (fq_queued_tree m)\<rparr>;
              m = fq_upd qflow (ff_is_queued_update (\<lambda>_. False)) m;
              q = fq_flow m qflow
          in Some (m\<lparr>fq_sending_flow := Some qflow, fq_sending_len := ff_data_len q\<rparr>,
                   [FQ_Send (ff_data q) (ff_data_len q)]) }"

definition schedule_job_handler :: "PacketPassFairQueue \<Rightarrow> (PacketPassFairQueue \<times> fq_out list) option" where
  "schedule_job_handler m =
     do { c_assert (fq_sending_flow m = None);
          c_assert (\<not> fq_freeing m);
          let m = m\<lparr>fq_previous_flow := None\<rparr>
          in if fq_queued_tree m \<noteq> [] then fq_schedule m else Some (m, []) }"

definition fq_input_handler_send ::
  "PacketPassFairQueue \<Rightarrow> nat \<Rightarrow> nat \<Rightarrow> int \<Rightarrow> (PacketPassFairQueue \<times> fq_out list) option" where
  "fq_input_handler_send m flow data data_len =
     do { c_assert (fq_sending_flow m \<noteq> Some flow);
          c_assert (\<not> ff_is_queued (fq_flow m flow));
          c_assert (\<not> fq_freeing m);
          let m = (if fq_previous_flow m = Some flow then m\<lparr>fq_previous_flow := None\<rparr>
                   else fq_upd flow (ff_time_update (\<lambda>t. bmax_uint64 t (get_current_time m))) m);
              m = fq_upd flow (\<lambda>q. q\<lparr>ff_data := data, ff_data_len := data_len\<rparr>) m;
              (t, res) = fq_tree_insert (fq_flow m) flow (fq_queued_tree m)
          in do { c_assert res;
                  let m = fq_upd flow (ff_is_queued_update (\<lambda>_. True)) (m\<lparr>fq_queued_tree := t\<rparr>)
                  in if fq_sending_flow m = None \<and> \<not> fq_schedule_job m then fq_schedule m
                     else Some (m, []) } }"

definition fq_output_handler_done :: "PacketPassFairQueue \<Rightarrow> (PacketPassFairQueue \<times> fq_out list) option" where
  "fq_output_handler_done m =
     do { flow \<leftarrow> fq_sending_flow m;
          c_assert (fq_previous_flow m = None);
          c_assert (\<not> fq_schedule_job m);
          c_assert (\<not> fq_freeing m);
          c_assert (\<not> ff_is_queued (fq_flow m flow));
          let m = m\<lparr>fq_sending_flow := None, fq_previous_flow := Some flow\<rparr>
          in do { m \<leftarrow> increment_sent_flow m flow (word_of_int (fq_packet_weight m) + word_of_int (fq_sending_len m));
                  let m = m\<lparr>fq_schedule_job := True\<rparr>
                  in if ff_handler_busy (fq_flow m flow)
                     then Some (fq_upd flow (ff_handler_busy_update (\<lambda>_. False)) m, [FQ_Done flow, FQ_Busy flow])
                     else Some (m, [FQ_Done flow]) } }"

subsection \<open>Life cycle\<close>

text \<open>The flow objects that exist before their initialisation hold any values.\<close>

definition PacketPassFairQueue_Init ::
  "int \<Rightarrow> bool \<Rightarrow> int \<Rightarrow> (nat \<Rightarrow> fq_flow) \<Rightarrow> PacketPassFairQueue option" where
  "PacketPassFairQueue_Init mtu use_cancel packet_weight mem =
     (if mtu \<le> uint FAIRQUEUE_MAX_TIME \<and> packet_weight \<le> uint FAIRQUEUE_MAX_TIME - mtu
      then Some \<lparr>fq_output_mtu = mtu, fq_use_cancel = use_cancel, fq_packet_weight = packet_weight,
                 fq_sending_flow = None, fq_sending_len = 0, fq_previous_flow = None,
                 fq_queued_tree = [], fq_flows_list = [], fq_freeing = False,
                 fq_schedule_job = False, fq_flow = mem\<rparr>
      else None)"

definition PacketPassFairQueue_Free :: "PacketPassFairQueue \<Rightarrow> PacketPassFairQueue option" where
  "PacketPassFairQueue_Free m =
     do { c_assert (fq_flows_list m = []);
          c_assert (fq_queued_tree m = []);
          c_assert (fq_previous_flow m = None);
          c_assert (fq_sending_flow m = None);
          Some (m\<lparr>fq_schedule_job := False\<rparr>) }"

definition PacketPassFairQueue_PrepareFree :: "PacketPassFairQueue \<Rightarrow> PacketPassFairQueue" where
  "PacketPassFairQueue_PrepareFree m = m\<lparr>fq_freeing := True\<rparr>"

definition PacketPassFairQueue_GetMTU :: "PacketPassFairQueue \<Rightarrow> int" where
  "PacketPassFairQueue_GetMTU m = fq_output_mtu m"

definition PacketPassFairQueueFlow_Init :: "PacketPassFairQueue \<Rightarrow> nat \<Rightarrow> PacketPassFairQueue option" where
  "PacketPassFairQueueFlow_Init m flow =
     do { c_assert (\<not> fq_freeing m);
          Some (fq_upd flow (\<lambda>q. q\<lparr>ff_handler_busy := False, ff_time := 0, ff_is_queued := False\<rparr>)
                  (m\<lparr>fq_flows_list := fq_flows_list m @ [flow]\<rparr>)) }"

definition PacketPassFairQueueFlow_Free :: "PacketPassFairQueue \<Rightarrow> nat \<Rightarrow> PacketPassFairQueue option" where
  "PacketPassFairQueueFlow_Free m flow =
     do { c_assert (fq_freeing m \<or> fq_sending_flow m \<noteq> Some flow);
          let m = (if fq_sending_flow m = Some flow then m\<lparr>fq_sending_flow := None\<rparr> else m);
              m = (if fq_previous_flow m = Some flow then m\<lparr>fq_previous_flow := None\<rparr> else m);
              m = (if ff_is_queued (fq_flow m flow)
                   then m\<lparr>fq_queued_tree := fq_tree_remove flow (fq_queued_tree m)\<rparr> else m)
          in Some (m\<lparr>fq_flows_list := remove1 flow (fq_flows_list m)\<rparr>) }"

definition PacketPassFairQueueFlow_IsBusy :: "PacketPassFairQueue \<Rightarrow> nat \<Rightarrow> bool" where
  "PacketPassFairQueueFlow_IsBusy m flow = (fq_sending_flow m = Some flow)"

definition PacketPassFairQueueFlow_RequestCancel ::
  "PacketPassFairQueue \<Rightarrow> nat \<Rightarrow> (PacketPassFairQueue \<times> fq_out list) option" where
  "PacketPassFairQueueFlow_RequestCancel m flow =
     do { c_assert (fq_sending_flow m = Some flow);
          c_assert (fq_use_cancel m);
          c_assert (\<not> fq_freeing m);
          c_assert (\<not> fq_schedule_job m);
          Some (m, [FQ_RequestCancel]) }"

text \<open>The handler is a null pointer or a function.\<close>

definition PacketPassFairQueueFlow_SetBusyHandler ::
  "PacketPassFairQueue \<Rightarrow> nat \<Rightarrow> bool \<Rightarrow> PacketPassFairQueue option" where
  "PacketPassFairQueueFlow_SetBusyHandler m flow handler =
     do { c_assert (fq_sending_flow m = Some flow);
          c_assert (\<not> fq_freeing m);
          Some (fq_upd flow (ff_handler_busy_update (\<lambda>_. handler)) m) }"

end
