(* ===== verification/Fair_Queue_Facts.thy ===== *)
theory Fair_Queue_Facts
  imports Fair_Queue "HOL-Library.Code_Target_Nat"
begin

text \<open>
  The fair queue: no assertion of the source fails under the callers' contract, the output is never idle
  while packets wait, packets are passed on once and in the order of their flow, the correction of the
  virtual times on overflow is exact, and a waiting flow is overtaken by a bounded amount only.
\<close>

subsection \<open>The order of the tree\<close>

definition fq_less :: "(nat \<Rightarrow> fq_flow) \<Rightarrow> nat \<Rightarrow> nat \<Rightarrow> bool" where
  "fq_less fs a b \<longleftrightarrow> ff_time (fs a) < ff_time (fs b) \<or> ff_time (fs a) = ff_time (fs b) \<and> a < b"

lemma compare_flows_less: "compare_flows fs a b < 0 \<longleftrightarrow> fq_less fs a b"
  and compare_flows_eq: "compare_flows fs a b = 0 \<longleftrightarrow> a = b"
  by (auto simp: compare_flows_def fq_less_def B_COMPARE_def Let_def)

lemma fq_less_trans: "fq_less fs a b \<Longrightarrow> fq_less fs b c \<Longrightarrow> fq_less fs a c"
  by (auto simp: fq_less_def)

lemma fq_less_linear: "a = b \<or> fq_less fs a b \<or> fq_less fs b a"
  by (cases a b rule: linorder_cases; cases "ff_time (fs a)" "ff_time (fs b)" rule: linorder_cases) (simp_all add: fq_less_def)

lemma fq_less_irrefl [simp]: "\<not> fq_less fs a a"
  by (simp add: fq_less_def)

lemma fq_sorted_distinct: "sorted_wrt (fq_less fs) t \<Longrightarrow> distinct t"
  by (induction t) auto

lemma fq_tree_insert_ok:
  assumes "sorted_wrt (fq_less fs) t" and "f \<notin> set t"
  shows "\<exists>t'. fq_tree_insert fs f t = (t', True) \<and> sorted_wrt (fq_less fs) t' \<and> set t' = insert f (set t)"
  using assms
proof (induction t)
  case Nil
  then show ?case by simp
next
  case (Cons g t)
  show ?case
  proof (cases "fq_less fs f g")
    case True
    then have "\<forall>h\<in>set t. fq_less fs f h" using Cons.prems(1) fq_less_trans by fastforce
    then show ?thesis using True Cons.prems by (auto simp: compare_flows_less compare_flows_eq)
  next
    case False
    then have g: "fq_less fs g f" using Cons.prems(2) fq_less_linear [of f g fs] by auto
    obtain t' where t': "fq_tree_insert fs f t = (t', True)" "sorted_wrt (fq_less fs) t'" "set t' = insert f (set t)"
      using Cons by auto
    then show ?thesis using False g Cons.prems by (auto simp: compare_flows_less compare_flows_eq)
  qed
qed

lemma fq_sorted_cong:
  assumes "\<And>a b. a \<in> set t \<Longrightarrow> b \<in> set t \<Longrightarrow> fq_less fs a b \<Longrightarrow> fq_less fs' a b"
    and "sorted_wrt (fq_less fs) t"
  shows "sorted_wrt (fq_less fs') t"
  using assms(2) by (rule sorted_wrt_mono_rel [rotated]) (rule assms(1))

subsection \<open>The invariant\<close>

definition fq_wf :: "PacketPassFairQueue \<Rightarrow> bool" where
  "fq_wf m \<longleftrightarrow>
     0 \<le> fq_output_mtu m \<and> 0 < fq_packet_weight m \<and> fq_output_mtu m + fq_packet_weight m < 2 ^ 64 \<and>
     distinct (fq_flows_list m) \<and> sorted_wrt (fq_less (fq_flow m)) (fq_queued_tree m) \<and>
     set (fq_queued_tree m) \<subseteq> set (fq_flows_list m) \<and>
     (\<forall>f\<in>set (fq_flows_list m). ff_is_queued (fq_flow m f) \<longleftrightarrow> f \<in> set (fq_queued_tree m)) \<and>
     (\<forall>f\<in>set (fq_queued_tree m). 0 \<le> ff_data_len (fq_flow m f) \<and> ff_data_len (fq_flow m f) \<le> fq_output_mtu m) \<and>
     (\<forall>s. fq_sending_flow m = Some s \<longrightarrow>
        s \<in> set (fq_flows_list m) \<and> s \<notin> set (fq_queued_tree m) \<and>
        (\<forall>q\<in>set (fq_queued_tree m). fq_time m s \<le> fq_time m q) \<and>
        0 \<le> fq_sending_len m \<and> fq_sending_len m \<le> fq_output_mtu m \<and>
        fq_previous_flow m = None \<and> \<not> fq_schedule_job m) \<and>
     (\<forall>p. fq_previous_flow m = Some p \<longrightarrow>
        p \<in> set (fq_flows_list m) \<and> p \<notin> set (fq_queued_tree m) \<and> fq_schedule_job m)"

text \<open>Work conservation: while packets wait, the output is in use or the schedule job is about to run.\<close>

definition fq_busy :: "PacketPassFairQueue \<Rightarrow> bool" where
  "fq_busy m \<longleftrightarrow> (\<not> fq_freeing m \<and> fq_queued_tree m \<noteq> [] \<longrightarrow> fq_sending_flow m \<noteq> None \<or> fq_schedule_job m)"

definition fq_inv :: "PacketPassFairQueue \<Rightarrow> bool" where
  "fq_inv m \<longleftrightarrow> fq_wf m \<and> fq_busy m"

lemma fq_wfD:
  assumes "fq_wf m"
  shows fq_wf_mtu: "0 \<le> fq_output_mtu m" "0 < fq_packet_weight m" "fq_output_mtu m + fq_packet_weight m < 2 ^ 64"
    and fq_wf_distinct: "distinct (fq_flows_list m)"
    and fq_wf_sorted: "sorted_wrt (fq_less (fq_flow m)) (fq_queued_tree m)"
    and fq_wf_subset: "set (fq_queued_tree m) \<subseteq> set (fq_flows_list m)"
    and fq_wf_queued: "f \<in> set (fq_flows_list m) \<Longrightarrow> ff_is_queued (fq_flow m f) \<longleftrightarrow> f \<in> set (fq_queued_tree m)"
    and fq_wf_len: "f \<in> set (fq_queued_tree m) \<Longrightarrow> 0 \<le> ff_data_len (fq_flow m f) \<and> ff_data_len (fq_flow m f) \<le> fq_output_mtu m"
    and fq_wf_sending: "fq_sending_flow m = Some s \<Longrightarrow>
        s \<in> set (fq_flows_list m) \<and> s \<notin> set (fq_queued_tree m) \<and>
        (\<forall>q\<in>set (fq_queued_tree m). fq_time m s \<le> fq_time m q) \<and>
        0 \<le> fq_sending_len m \<and> fq_sending_len m \<le> fq_output_mtu m \<and>
        fq_previous_flow m = None \<and> \<not> fq_schedule_job m"
    and fq_wf_previous: "fq_previous_flow m = Some p \<Longrightarrow>
        p \<in> set (fq_flows_list m) \<and> p \<notin> set (fq_queued_tree m) \<and> fq_schedule_job m"
  using assms by (simp_all add: fq_wf_def)

lemma fq_tree_first_le:
  assumes "sorted_wrt (fq_less fs) (q # t)" and "f \<in> set (q # t)"
  shows "ff_time (fs q) \<le> ff_time (fs f)"
  using assms by (auto simp: fq_less_def)

lemma fq_sorted_first:
  assumes "fq_wf m" and "fq_queued_tree m = q # t"
  shows "q \<in> set (fq_flows_list m)" "q \<notin> set t" "sorted_wrt (fq_less (fq_flow m)) t" "set t \<subseteq> set (fq_flows_list m)"
    "\<forall>f\<in>set t. fq_time m q \<le> fq_time m f" "ff_is_queued (fq_flow m q)"
  using fq_wf_subset [OF assms(1)] fq_wf_sorted [OF assms(1)] fq_wf_queued [OF assms(1), of q] assms(2)
    fq_sorted_distinct [OF fq_wf_sorted [OF assms(1)]]
  by (auto simp: fq_less_def)

subsection \<open>The correction of the times\<close>

lemma fq_upd_simps [simp]:
  "fq_output_mtu (fq_upd f u m) = fq_output_mtu m" "fq_use_cancel (fq_upd f u m) = fq_use_cancel m"
  "fq_packet_weight (fq_upd f u m) = fq_packet_weight m" "fq_sending_flow (fq_upd f u m) = fq_sending_flow m"
  "fq_sending_len (fq_upd f u m) = fq_sending_len m" "fq_previous_flow (fq_upd f u m) = fq_previous_flow m"
  "fq_queued_tree (fq_upd f u m) = fq_queued_tree m" "fq_flows_list (fq_upd f u m) = fq_flows_list m"
  "fq_freeing (fq_upd f u m) = fq_freeing m" "fq_schedule_job (fq_upd f u m) = fq_schedule_job m"
  "fq_flow (fq_upd f u m) = (fq_flow m)(f := u (fq_flow m f))"
  by (simp_all add: fq_upd_def)

lemma fq_tree_first_simps [simp]: "fq_tree_first [] = None" "fq_tree_first (f # t) = Some f"
  by (simp_all add: fq_tree_first_def)

definition fq_less_time :: "nat \<Rightarrow> u64 \<Rightarrow> nat \<Rightarrow> u64 \<Rightarrow> u64" where
  "fq_less_time flow s f t = (if s > t \<and> f \<noteq> flow then 0 else t - s)"

lemma fq_subtract_ok:
  assumes "distinct fs" and "\<forall>f\<in>set fs. s > fq_time m f \<and> f \<noteq> flow \<longrightarrow> \<not> ff_is_queued (fq_flow m f)"
  shows "fq_subtract flow s fs m =
    Some (m\<lparr>fq_flow := \<lambda>f. if f \<in> set fs then ff_time_update (fq_less_time flow s f) (fq_flow m f) else fq_flow m f\<rparr>)"
  using assms
proof (induction fs arbitrary: m)
  case Nil
  then show ?case by simp
next
  case (Cons g fs)
  let ?m = "fq_upd g (ff_time_update (fq_less_time flow s g)) m"
  have step: "fq_subtract flow s (g # fs) m = fq_subtract flow s fs ?m"
  proof (cases "s > fq_time m g \<and> g \<noteq> flow")
    case True
    then have "\<not> ff_is_queued (fq_flow m g)" using Cons.prems(2) by simp
    moreover have "ff_time_update (\<lambda>_. 0) (fq_flow m g) = ff_time_update (fq_less_time flow s g) (fq_flow m g)"
      using True by (intro fq_flow.equality) (simp_all add: fq_less_time_def)
    ultimately show ?thesis using True by (simp add: fq_upd_def)
  next
    case False
    moreover from this have "ff_time_update (\<lambda>t. t - s) (fq_flow m g) = ff_time_update (fq_less_time flow s g) (fq_flow m g)"
      by (intro fq_flow.equality) (auto simp: fq_less_time_def)
    ultimately show ?thesis by (simp only: fq_subtract.simps if_False fq_upd_def)
  qed
  have g: "g \<notin> set fs" using Cons.prems(1) by simp
  then have "\<forall>f\<in>set fs. s > fq_time ?m f \<and> f \<noteq> flow \<longrightarrow> \<not> ff_is_queued (fq_flow ?m f)"
    using Cons.prems(2) by auto
  note IH = Cons.IH [OF _ this]
  have "(\<lambda>f. if f \<in> set fs then ff_time_update (fq_less_time flow s f) (fq_flow ?m f) else fq_flow ?m f) =
      (\<lambda>f. if f \<in> set (g # fs) then ff_time_update (fq_less_time flow s f) (fq_flow m f) else fq_flow m f)"
    using g by (intro ext) auto
  then show ?case using IH Cons.prems(1) unfolding step by (simp add: fq_upd_def)
qed

text \<open>The time all flows are set back by when \<open>flow\<close> finishes a packet of weight \<open>amount\<close>.\<close>

definition fq_correction :: "PacketPassFairQueue \<Rightarrow> nat \<Rightarrow> u64 \<Rightarrow> u64" where
  "fq_correction m flow amount =
     (if amount > FAIRQUEUE_MAX_TIME - fq_time m flow
      then (case fq_queued_tree m of [] \<Rightarrow> fq_time m flow | q # _ \<Rightarrow> fq_time m q) else 0)"

definition fq_shift :: "PacketPassFairQueue \<Rightarrow> nat \<Rightarrow> u64 \<Rightarrow> nat \<Rightarrow> fq_flow" where
  "fq_shift m flow amount f =
     ff_time_update (\<lambda>t. if f = flow then t - fq_correction m flow amount + amount
        else if f \<in> set (fq_flows_list m) then fq_less_time flow (fq_correction m flow amount) f t else t) (fq_flow m f)"

lemma increment_sent_flow_ok:
  assumes "flow \<in> set (fq_flows_list m)" and "\<not> ff_is_queued (fq_flow m flow)" and "fq_sending_flow m = None"
    and "distinct (fq_flows_list m)" and "sorted_wrt (fq_less (fq_flow m)) (fq_queued_tree m)"
    and q: "set (fq_queued_tree m) \<subseteq> set (fq_flows_list m)"
      "\<forall>f\<in>set (fq_flows_list m). ff_is_queued (fq_flow m f) \<longleftrightarrow> f \<in> set (fq_queued_tree m)"
  shows "increment_sent_flow m flow amount = Some (m\<lparr>fq_flow := fq_shift m flow amount\<rparr>)"
proof (cases "amount > FAIRQUEUE_MAX_TIME - fq_time m flow")
  case False
  have "(fq_flow m)(flow := ff_time_update (\<lambda>t. t + amount) (fq_flow m flow)) = fq_shift m flow amount"
    using False by (intro ext fq_flow.equality) (auto simp: fq_shift_def fq_correction_def fq_less_time_def)
  then show ?thesis using False assms(2,3)
    by (simp add: increment_sent_flow_def c_assert_bind fq_upd_def FAIRQUEUE_MAX_TIME_def)
next
  case True
  define s where "s = fq_correction m flow amount"
  have clear: "\<forall>f\<in>set (fq_flows_list m). s > fq_time m f \<and> f \<noteq> flow \<longrightarrow> \<not> ff_is_queued (fq_flow m f)"
  proof (intro ballI impI)
    fix f assume f: "f \<in> set (fq_flows_list m)" "s > fq_time m f \<and> f \<noteq> flow"
    show "\<not> ff_is_queued (fq_flow m f)"
    proof
      assume "ff_is_queued (fq_flow m f)"
      then have "f \<in> set (fq_queued_tree m)" using f q(2) by simp
      then obtain g t where t: "fq_queued_tree m = g # t" by (cases "fq_queued_tree m") auto
      then have "fq_time m g \<le> fq_time m f" using fq_tree_first_le [of "fq_flow m" g t f] assms(5) \<open>f \<in> set (fq_queued_tree m)\<close> by simp
      moreover have "s = fq_time m g" using True t by (simp add: s_def fq_correction_def)
      ultimately show False using f(2) by auto
    qed
  qed
  have sub: "fq_subtract flow s (fq_flows_list m) m =
      Some (m\<lparr>fq_flow := \<lambda>f. if f \<in> set (fq_flows_list m) then ff_time_update (fq_less_time flow s f) (fq_flow m f) else fq_flow m f\<rparr>)"
    by (rule fq_subtract_ok [OF assms(4) clear])
  let ?fs = "\<lambda>f. if f \<in> set (fq_flows_list m) then ff_time_update (fq_less_time flow s f) (fq_flow m f) else fq_flow m f"
  have eq: "?fs(flow := ff_time_update (\<lambda>t. t + amount) (?fs flow)) = fq_shift m flow amount"
    using assms(1) by (intro ext fq_flow.equality) (auto simp: fq_shift_def s_def fq_less_time_def)
  have "increment_sent_flow m flow amount =
      Option.bind (fq_subtract flow s (fq_flows_list m) m) (\<lambda>m. Some (fq_upd flow (ff_time_update (\<lambda>t. t + amount)) m))"
  proof (cases "fq_queued_tree m")
    case Nil
    then show ?thesis using True assms(2,3)
      by (simp add: increment_sent_flow_def c_assert_bind FAIRQUEUE_MAX_TIME_def s_def fq_correction_def)
  next
    case (Cons g t)
    then have "ff_is_queued (fq_flow m g)" using q by auto
    then show ?thesis using Cons True assms(2,3)
      by (simp add: increment_sent_flow_def c_assert_bind FAIRQUEUE_MAX_TIME_def s_def fq_correction_def)
  qed
  also have "\<dots> = Some (m\<lparr>fq_flow := fq_shift m flow amount\<rparr>)"
    unfolding sub using eq by (simp add: fq_upd_def)
  finally show ?thesis .
qed

lemma uint_u64_bounds: "0 \<le> uint (w :: u64)" "uint (w :: u64) < 2 ^ 64"
  using unsigned_less [of w, where 'a = int] by simp_all

lemma uint_u64_of_int:
  assumes "0 \<le> x" and "x < 2 ^ 64"
  shows "uint (word_of_int x :: u64) = x"
  using assms by (simp add: uint_word_of_int)

lemma fq_overflows_iff: "amount > FAIRQUEUE_MAX_TIME - t \<longleftrightarrow> uint t + uint amount \<ge> 2 ^ 64"
proof -
  have "FAIRQUEUE_MAX_TIME - t = word_of_int (2 ^ 64 - 1 - uint t)"
    by (simp add: FAIRQUEUE_MAX_TIME_def)
  then have "uint (FAIRQUEUE_MAX_TIME - t) = 2 ^ 64 - 1 - uint t"
    using uint_u64_bounds [of t] by (simp only: uint_u64_of_int)
  then show ?thesis unfolding word_less_def by linarith
qed

text \<open>The shifted times are the exact ones: the time of the finished flow plus the amount, and the times of
  the queued flows, all less the correction; other flows are set back to zero at most.\<close>

lemma fq_shift_exact:
  fixes amount :: u64
  assumes "flow \<in> set (fq_flows_list m)" and "flow \<notin> set (fq_queued_tree m)"
    and "sorted_wrt (fq_less (fq_flow m)) (fq_queued_tree m)" and "set (fq_queued_tree m) \<subseteq> set (fq_flows_list m)"
    and "\<forall>q\<in>set (fq_queued_tree m). fq_time m flow \<le> fq_time m q"
  defines "c \<equiv> uint (fq_correction m flow amount)"
  shows "uint (ff_time (fq_shift m flow amount flow)) = uint (fq_time m flow) + uint amount - c"
    and "f \<in> set (fq_queued_tree m) \<Longrightarrow> uint (ff_time (fq_shift m flow amount f)) = uint (fq_time m f) - c"
    and "f \<noteq> flow \<Longrightarrow> f \<in> set (fq_flows_list m) \<Longrightarrow>
      uint (ff_time (fq_shift m flow amount f)) = max 0 (uint (fq_time m f) - c)"
proof -
  let ?t = "fq_time m flow"
  have c: "(c = 0 \<and> uint ?t + uint amount < 2 ^ 64) \<or> (uint ?t \<le> c \<and> c < 2 ^ 64 \<and> uint ?t + uint amount \<ge> 2 ^ 64)"
  proof (cases "amount > FAIRQUEUE_MAX_TIME - ?t")
    case True
    have "?t \<le> fq_correction m flow amount"
      using True assms(5) by (cases "fq_queued_tree m") (auto simp: fq_correction_def)
    then have "uint ?t \<le> c" by (simp add: c_def word_le_def)
    then show ?thesis using True uint_u64_bounds by (simp add: fq_overflows_iff c_def)
  next
    case False
    then show ?thesis by (simp add: fq_overflows_iff c_def fq_correction_def)
  qed
  have "ff_time (fq_shift m flow amount flow) = word_of_int (uint ?t + uint amount - c)"
    by (simp add: fq_shift_def c_def)
  moreover have "0 \<le> uint ?t + uint amount - c \<and> uint ?t + uint amount - c < 2 ^ 64"
    using c uint_u64_bounds [of ?t] uint_u64_bounds [of amount] by linarith
  ultimately show "uint (ff_time (fq_shift m flow amount flow)) = uint ?t + uint amount - c"
    by (simp only: uint_u64_of_int)
  have other: "uint (ff_time (fq_shift m flow amount f)) = max 0 (uint (fq_time m f) - c)"
    if "f \<noteq> flow" "f \<in> set (fq_flows_list m)" for f
    using that by (auto simp: fq_shift_def fq_less_time_def c_def word_less_def uint_minus_simple_alt [THEN iffD1] word_le_def)
  then show "f \<noteq> flow \<Longrightarrow> f \<in> set (fq_flows_list m) \<Longrightarrow>
      uint (ff_time (fq_shift m flow amount f)) = max 0 (uint (fq_time m f) - c)" .
  assume f: "f \<in> set (fq_queued_tree m)"
  have "fq_correction m flow amount \<le> fq_time m f"
    using f fq_tree_first_le [of "fq_flow m"] assms(3)
    by (cases "fq_queued_tree m") (auto simp: fq_correction_def simp del: sorted_wrt.simps)
  then have "c \<le> uint (fq_time m f)" by (simp add: c_def word_le_def)
  then show "uint (ff_time (fq_shift m flow amount f)) = uint (fq_time m f) - c"
    using other [of f] f assms(2,4) by auto
qed

subsection \<open>Steps\<close>

text \<open>A call of a client of the queue, of the output or of the job queue, and the contract under which it
  is made: a flow sends one packet at a time, the output reports a packet it was given, the job runs when
  it is set, and after the preparation for freeing only flows are freed.\<close>

datatype fq_op =
    FqInit nat | FqFree nat | FqSend nat nat int | FqDone | FqJob | FqSetBusy nat bool | FqCancel nat | FqPrepareFree

fun fq_step :: "PacketPassFairQueue \<Rightarrow> fq_op \<Rightarrow> (PacketPassFairQueue \<times> fq_out list) option" where
  "fq_step m (FqInit f) = map_option (\<lambda>m. (m, [])) (PacketPassFairQueueFlow_Init m f)"
| "fq_step m (FqFree f) = map_option (\<lambda>m. (m, [])) (PacketPassFairQueueFlow_Free m f)"
| "fq_step m (FqSend f d n) = fq_input_handler_send m f d n"
| "fq_step m FqDone = fq_output_handler_done m"
| "fq_step m FqJob = schedule_job_handler (m\<lparr>fq_schedule_job := False\<rparr>)"
| "fq_step m (FqSetBusy f h) = map_option (\<lambda>m. (m, [])) (PacketPassFairQueueFlow_SetBusyHandler m f h)"
| "fq_step m (FqCancel f) = PacketPassFairQueueFlow_RequestCancel m f"
| "fq_step m FqPrepareFree = Some (PacketPassFairQueue_PrepareFree m, [])"

fun fq_allowed :: "PacketPassFairQueue \<Rightarrow> fq_op \<Rightarrow> bool" where
  "fq_allowed m (FqInit f) = (f \<notin> set (fq_flows_list m) \<and> \<not> fq_freeing m)"
| "fq_allowed m (FqFree f) = (f \<in> set (fq_flows_list m) \<and> (fq_freeing m \<or> fq_sending_flow m \<noteq> Some f))"
| "fq_allowed m (FqSend f d n) =
     (f \<in> set (fq_flows_list m) \<and> fq_sending_flow m \<noteq> Some f \<and> f \<notin> set (fq_queued_tree m) \<and> \<not> fq_freeing m \<and>
      0 \<le> n \<and> n \<le> PacketPassFairQueue_GetMTU m)"
| "fq_allowed m FqDone = (fq_sending_flow m \<noteq> None \<and> \<not> fq_freeing m)"
| "fq_allowed m FqJob = (fq_schedule_job m \<and> \<not> fq_freeing m)"
| "fq_allowed m (FqSetBusy f h) = (PacketPassFairQueueFlow_IsBusy m f \<and> \<not> fq_freeing m)"
| "fq_allowed m (FqCancel f) = (PacketPassFairQueueFlow_IsBusy m f \<and> fq_use_cancel m \<and> \<not> fq_freeing m)"
| "fq_allowed m FqPrepareFree = True"

text \<open>The flow with the smallest time starts to send.\<close>

definition fq_scheduled :: "PacketPassFairQueue \<Rightarrow> nat \<Rightarrow> nat list \<Rightarrow> PacketPassFairQueue" where
  "fq_scheduled m q t =
     m\<lparr>fq_queued_tree := t, fq_sending_flow := Some q, fq_sending_len := ff_data_len (fq_flow m q),
       fq_flow := (fq_flow m)(q := (fq_flow m q)\<lparr>ff_is_queued := False\<rparr>)\<rparr>"

lemma fq_schedule_ok:
  assumes "fq_wf m" and "fq_queued_tree m = q # t" and "fq_sending_flow m = None"
    and "fq_previous_flow m = None" and "\<not> fq_freeing m"
  shows "fq_schedule m = Some (fq_scheduled m q t, [FQ_Send (ff_data (fq_flow m q)) (ff_data_len (fq_flow m q))])"
  using assms fq_sorted_first(6) [OF assms(1,2)]
  by (simp add: fq_schedule_def fq_scheduled_def c_assert_bind fq_tree_remove_def fq_upd_def)

lemma fq_scheduled_inv:
  assumes "fq_wf m" and "fq_queued_tree m = q # t" and "fq_previous_flow m = None" and "\<not> fq_schedule_job m"
  shows "fq_inv (fq_scheduled m q t)"
proof -
  note q = fq_sorted_first [OF assms(1,2)]
  have "sorted_wrt (fq_less (fq_flow (fq_scheduled m q t))) t"
    by (rule fq_sorted_cong [OF _ q(3)]) (use q(2) in \<open>auto simp: fq_scheduled_def fq_less_def\<close>)
  moreover have "0 \<le> ff_data_len (fq_flow m q) \<and> ff_data_len (fq_flow m q) \<le> fq_output_mtu m"
    using fq_wf_len [OF assms(1), of q] assms(2) by simp
  ultimately show ?thesis
    using assms q by (auto simp: fq_inv_def fq_busy_def fq_scheduled_def fq_wf_def)
qed

text \<open>A flow that sends is put in the queue with its time raised to the current one.\<close>

definition fq_raise :: "PacketPassFairQueue \<Rightarrow> nat \<Rightarrow> u64" where
  "fq_raise m f = (if fq_previous_flow m = Some f then fq_time m f else max (fq_time m f) (get_current_time m))"

definition fq_enqueue :: "PacketPassFairQueue \<Rightarrow> nat \<Rightarrow> nat \<Rightarrow> int \<Rightarrow> nat list \<Rightarrow> PacketPassFairQueue" where
  "fq_enqueue m f d n t =
     m\<lparr>fq_flow := (fq_flow m)(f := (fq_flow m f)\<lparr>ff_time := fq_raise m f, ff_data := d, ff_data_len := n, ff_is_queued := True\<rparr>),
       fq_queued_tree := t, fq_previous_flow := if fq_previous_flow m = Some f then None else fq_previous_flow m\<rparr>"

lemma fq_send_result:
  assumes "fq_wf m" and "fq_allowed m (FqSend f d n)"
  obtains t where "sorted_wrt (fq_less (fq_flow (fq_enqueue m f d n t))) t" and "set t = insert f (set (fq_queued_tree m))"
    and "fq_input_handler_send m f d n =
      (if fq_sending_flow m = None \<and> \<not> fq_schedule_job m then fq_schedule (fq_enqueue m f d n t)
       else Some (fq_enqueue m f d n t, []))"
proof -
  let ?fs = "(fq_flow m)(f := (fq_flow m f)\<lparr>ff_time := fq_raise m f, ff_data := d, ff_data_len := n\<rparr>)"
  have f: "f \<notin> set (fq_queued_tree m)" "\<not> ff_is_queued (fq_flow m f)"
    using assms fq_wf_queued [OF assms(1), of f] by auto
  have "sorted_wrt (fq_less ?fs) (fq_queued_tree m)"
    by (rule fq_sorted_cong [OF _ fq_wf_sorted [OF assms(1)]]) (use f in \<open>auto simp: fq_less_def\<close>)
  then obtain t where t: "fq_tree_insert ?fs f (fq_queued_tree m) = (t, True)" "sorted_wrt (fq_less ?fs) t"
      "set t = insert f (set (fq_queued_tree m))"
    using fq_tree_insert_ok f(1) by blast
  have s: "sorted_wrt (fq_less (fq_flow (fq_enqueue m f d n t))) t"
    by (rule fq_sorted_cong [OF _ t(2)]) (auto simp: fq_less_def fq_enqueue_def split: if_splits)
  let ?m1 = "if fq_previous_flow m = Some f then m\<lparr>fq_previous_flow := None\<rparr>
    else fq_upd f (ff_time_update (\<lambda>t. bmax_uint64 t (get_current_time m))) m"
  let ?m2 = "fq_upd f (\<lambda>q. q\<lparr>ff_data := d, ff_data_len := n\<rparr>) ?m1"
  have fs: "fq_flow ?m2 = ?fs" and tree: "fq_queued_tree ?m2 = fq_queued_tree m"
    by (auto simp: fq_raise_def bmax_uint64_def max_def intro!: ext fq_flow.equality)
  have enq: "fq_upd f (ff_is_queued_update (\<lambda>_. True)) (?m2\<lparr>fq_queued_tree := t\<rparr>) = fq_enqueue m f d n t"
    by (auto simp: fq_upd_def fq_enqueue_def fq_raise_def bmax_uint64_def max_def intro!: ext fq_flow.equality PacketPassFairQueue.equality)
  have "fq_input_handler_send m f d n =
      (if fq_sending_flow (fq_enqueue m f d n t) = None \<and> \<not> fq_schedule_job (fq_enqueue m f d n t)
       then fq_schedule (fq_enqueue m f d n t) else Some (fq_enqueue m f d n t, []))"
    using assms(2) f unfolding fq_input_handler_send_def Let_def fs tree t(1) split_conv enq
    by (simp add: c_assert_bind)
  then have "fq_input_handler_send m f d n =
      (if fq_sending_flow m = None \<and> \<not> fq_schedule_job m then fq_schedule (fq_enqueue m f d n t)
       else Some (fq_enqueue m f d n t, []))"
    by (simp add: fq_enqueue_def)
  from that [OF s t(3) this] show ?thesis .
qed

lemma fq_current_le:
  assumes "fq_wf m" and "q \<in> set (fq_queued_tree m)"
  shows "get_current_time m \<le> fq_time m q"
proof (cases "fq_sending_flow m")
  case (Some s)
  then show ?thesis using assms fq_wf_sending [OF assms(1) Some] by (simp add: get_current_time_def)
next
  case None
  obtain g t where t: "fq_queued_tree m = g # t" using assms(2) by (cases "fq_queued_tree m") auto
  then have "fq_time m g \<le> fq_time m q"
    using fq_tree_first_le [of "fq_flow m" g t q] fq_wf_sorted [OF assms(1)] assms(2) by simp
  then show ?thesis using None t
    by (cases "fq_previous_flow m") (auto simp: get_current_time_def)
qed

lemma fq_enqueue_wf:
  assumes "fq_wf m" and "fq_allowed m (FqSend f d n)"
    and "sorted_wrt (fq_less (fq_flow (fq_enqueue m f d n t))) t" and "set t = insert f (set (fq_queued_tree m))"
  shows "fq_wf (fq_enqueue m f d n t)"
proof -
  have "\<forall>s. fq_sending_flow m = Some s \<longrightarrow> fq_time m s \<le> fq_raise m f"
    using fq_wf_sending [OF assms(1)] by (auto simp: fq_raise_def get_current_time_def)
  moreover have "fq_previous_flow m = Some f \<Longrightarrow> fq_sending_flow m = None"
    using fq_wf_sending [OF assms(1)] by (cases "fq_sending_flow m") auto
  moreover have "f \<in> set (fq_flows_list m)" "f \<notin> set (fq_queued_tree m)" "fq_sending_flow m \<noteq> Some f" "0 \<le> n" "n \<le> fq_output_mtu m"
    using assms(2) by (simp_all add: PacketPassFairQueue_GetMTU_def)
  ultimately show ?thesis
    using assms(1,3,4) unfolding fq_wf_def by (auto simp: fq_enqueue_def)
qed

lemma fq_send_cases:
  assumes "fq_inv m" and "fq_allowed m (FqSend f d n)"
  obtains (idle) "fq_sending_flow m = None" "\<not> fq_schedule_job m" "fq_queued_tree m = []" "fq_previous_flow m = None"
      "fq_step m (FqSend f d n) = Some (fq_scheduled (fq_enqueue m f d n [f]) f [], [FQ_Send d n])"
      "fq_inv (fq_scheduled (fq_enqueue m f d n [f]) f [])"
  | (busy) t where "set t = insert f (set (fq_queued_tree m))"
      "fq_step m (FqSend f d n) = Some (fq_enqueue m f d n t, [])" "fq_inv (fq_enqueue m f d n t)"
      "fq_sending_flow m \<noteq> None \<or> fq_schedule_job m"
proof -
  have wf: "fq_wf m" using assms(1) by (simp add: fq_inv_def)
  obtain t where t: "sorted_wrt (fq_less (fq_flow (fq_enqueue m f d n t))) t" "set t = insert f (set (fq_queued_tree m))"
    "fq_input_handler_send m f d n =
      (if fq_sending_flow m = None \<and> \<not> fq_schedule_job m then fq_schedule (fq_enqueue m f d n t)
       else Some (fq_enqueue m f d n t, []))"
    using fq_send_result [OF wf assms(2)] .
  note enq = fq_enqueue_wf [OF wf assms(2) t(1,2)]
  have fr: "\<not> fq_freeing m" using assms(2) by simp
  show thesis
  proof (cases "fq_sending_flow m = None \<and> \<not> fq_schedule_job m")
    case True
    have q: "fq_queued_tree m = []" using assms(1) True fr by (auto simp: fq_inv_def fq_busy_def)
    have p: "fq_previous_flow m = None" using fq_wf_previous [OF wf] True by (cases "fq_previous_flow m") auto
    have "set t = {f}" using t(2) q by simp
    moreover from this have "length t = 1" using distinct_card [OF fq_sorted_distinct [OF t(1)]] by simp
    ultimately have t1: "t = [f]" by (cases t) auto
    let ?m = "fq_enqueue m f d n [f]"
    have e: "fq_queued_tree ?m = [f]" "fq_sending_flow ?m = None" "fq_previous_flow ?m = None" "\<not> fq_freeing ?m"
      "\<not> fq_schedule_job ?m" "ff_data (fq_flow ?m f) = d" "ff_data_len (fq_flow ?m f) = n"
      using True fr p by (simp_all add: fq_enqueue_def)
    have "fq_step m (FqSend f d n) = Some (fq_scheduled ?m f [], [FQ_Send d n])"
      using True t(3) fq_schedule_ok [OF enq [unfolded t1] e(1-4)] e(6,7) by (simp add: t1)
    from idle [OF _ _ q p this fq_scheduled_inv [OF enq [unfolded t1] e(1,3,5)]] True show thesis by simp
  next
    case False
    then have "fq_inv (fq_enqueue m f d n t)" using enq by (auto simp: fq_inv_def fq_busy_def fq_enqueue_def)
    then show thesis using busy [of t] t(2,3) False by auto
  qed
qed

subsection \<open>A packet is finished\<close>

definition fq_amount :: "PacketPassFairQueue \<Rightarrow> int" where
  "fq_amount m = fq_packet_weight m + fq_sending_len m"

abbreviation (input) fq_wamount :: "PacketPassFairQueue \<Rightarrow> u64" where
  "fq_wamount m \<equiv> word_of_int (fq_packet_weight m) + word_of_int (fq_sending_len m)"

definition fq_finished :: "PacketPassFairQueue \<Rightarrow> nat \<Rightarrow> PacketPassFairQueue" where
  "fq_finished m s = m\<lparr>fq_sending_flow := None, fq_previous_flow := Some s, fq_schedule_job := True,
     fq_flow := \<lambda>f. if f = s then ff_handler_busy_update (\<lambda>_. False) (fq_shift m s (fq_wamount m) f)
                    else fq_shift m s (fq_wamount m) f\<rparr>"

lemma fq_amount_exact:
  assumes "fq_wf m" and "fq_sending_flow m = Some s"
  shows "uint (fq_wamount m) = fq_amount m" "0 < fq_amount m" "fq_amount m \<le> fq_output_mtu m + fq_packet_weight m"
proof -
  have "0 < fq_amount m \<and> fq_amount m \<le> fq_output_mtu m + fq_packet_weight m \<and> fq_amount m < 2 ^ 64"
    using fq_wf_sending [OF assms] fq_wf_mtu [OF assms(1)] by (simp add: fq_amount_def)
  then show "uint (fq_wamount m) = fq_amount m" "0 < fq_amount m" "fq_amount m \<le> fq_output_mtu m + fq_packet_weight m"
    using uint_u64_of_int [of "fq_amount m"] by (simp_all add: fq_amount_def)
qed

lemma fq_done_result:
  assumes "fq_wf m" and "fq_sending_flow m = Some s" and "\<not> fq_freeing m"
  shows "\<exists>outs. fq_step m FqDone = Some (fq_finished m s, FQ_Done s # outs) \<and> outs \<in> {[], [FQ_Busy s]}"
proof -
  note s = fq_wf_sending [OF assms(1,2)]
  let ?m = "m\<lparr>fq_sending_flow := None, fq_previous_flow := Some s\<rparr>"
  have nq: "\<not> ff_is_queued (fq_flow m s)" using s fq_wf_queued [OF assms(1), of s] by simp
  have sh: "fq_shift ?m s a = fq_shift m s a" for a
    by (intro ext fq_flow.equality) (simp_all add: fq_shift_def fq_correction_def split: list.split)
  have inc: "increment_sent_flow ?m s a = Some (?m\<lparr>fq_flow := fq_shift m s a\<rparr>)" for a
    using increment_sent_flow_ok [of s ?m a] s nq fq_wf_distinct [OF assms(1)] fq_wf_sorted [OF assms(1)]
      fq_wf_subset [OF assms(1)] fq_wf_queued [OF assms(1)] by (simp add: sh)
  have b: "ff_handler_busy (fq_shift m s a s) = ff_handler_busy (fq_flow m s)" for a by (simp add: fq_shift_def)
  show ?thesis
  proof (cases "ff_handler_busy (fq_flow m s)")
    case True
    then have "fq_step m FqDone = Some (fq_finished m s, [FQ_Done s, FQ_Busy s])"
      using assms s nq by (auto simp: fq_output_handler_done_def c_assert_bind inc Let_def b fq_upd_def fq_finished_def
        intro!: PacketPassFairQueue.equality ext)
    then show ?thesis by simp
  next
    case False
    have "ff_handler_busy_update (\<lambda>_. False) (fq_shift m s a s) = fq_shift m s a s" for a
      using False by (intro fq_flow.equality) (simp_all add: fq_shift_def)
    then have "fq_step m FqDone = Some (fq_finished m s, [FQ_Done s])"
      using assms s nq False by (auto simp: fq_output_handler_done_def c_assert_bind inc Let_def b fq_finished_def
        intro!: PacketPassFairQueue.equality ext)
    then show ?thesis by simp
  qed
qed

lemma fq_finished_times:
  assumes "fq_wf m" and "fq_sending_flow m = Some s"
  defines "c \<equiv> uint (fq_correction m s (fq_wamount m))"
  shows "uint (fq_time (fq_finished m s) s) = uint (fq_time m s) + fq_amount m - c"
    and "f \<in> set (fq_queued_tree m) \<Longrightarrow> uint (fq_time (fq_finished m s) f) = uint (fq_time m f) - c"
    and "f \<noteq> s \<Longrightarrow> f \<in> set (fq_flows_list m) \<Longrightarrow> uint (fq_time (fq_finished m s) f) = max 0 (uint (fq_time m f) - c)"
proof -
  note s = fq_wf_sending [OF assms(1,2)]
  note e = fq_shift_exact [where flow = s and m = m and amount = "fq_wamount m", OF _ _ fq_wf_sorted [OF assms(1)] fq_wf_subset [OF assms(1)]]
  have t: "fq_time (fq_finished m s) f = ff_time (fq_shift m s (fq_wamount m) f)" for f
    by (simp add: fq_finished_def)
  show "uint (fq_time (fq_finished m s) s) = uint (fq_time m s) + fq_amount m - c"
    using e(1) s fq_amount_exact(1) [OF assms(1,2)] by (simp add: t c_def)
  show "f \<in> set (fq_queued_tree m) \<Longrightarrow> uint (fq_time (fq_finished m s) f) = uint (fq_time m f) - c"
    using e(2) s by (simp add: t c_def)
  show "f \<noteq> s \<Longrightarrow> f \<in> set (fq_flows_list m) \<Longrightarrow> uint (fq_time (fq_finished m s) f) = max 0 (uint (fq_time m f) - c)"
    using e(3) s by (simp add: t c_def)
qed

lemma fq_finished_simps [simp]:
  "fq_output_mtu (fq_finished m s) = fq_output_mtu m" "fq_packet_weight (fq_finished m s) = fq_packet_weight m"
  "fq_sending_flow (fq_finished m s) = None" "fq_sending_len (fq_finished m s) = fq_sending_len m"
  "fq_previous_flow (fq_finished m s) = Some s" "fq_schedule_job (fq_finished m s)"
  "fq_queued_tree (fq_finished m s) = fq_queued_tree m" "fq_flows_list (fq_finished m s) = fq_flows_list m"
  "fq_freeing (fq_finished m s) = fq_freeing m" "fq_use_cancel (fq_finished m s) = fq_use_cancel m"
  "ff_is_queued (fq_flow (fq_finished m s) f) = ff_is_queued (fq_flow m f)"
  "ff_data (fq_flow (fq_finished m s) f) = ff_data (fq_flow m f)"
  "ff_data_len (fq_flow (fq_finished m s) f) = ff_data_len (fq_flow m f)"
  by (simp_all add: fq_finished_def fq_shift_def)

lemma fq_finished_inv:
  assumes "fq_wf m" and "fq_sending_flow m = Some s"
  shows "fq_inv (fq_finished m s)"
proof -
  note T = fq_finished_times(2) [OF assms]
  have "sorted_wrt (fq_less (fq_flow (fq_finished m s))) (fq_queued_tree m)"
  proof (rule fq_sorted_cong [OF _ fq_wf_sorted [OF assms(1)]])
    fix a b assume ab: "a \<in> set (fq_queued_tree m)" "b \<in> set (fq_queued_tree m)" "fq_less (fq_flow m) a b"
    then show "fq_less (fq_flow (fq_finished m s)) a b"
      using T [of a] T [of b] by (auto simp: fq_less_def word_less_def word_uint_eq_iff)
  qed
  then show ?thesis
    using assms fq_wf_sending [OF assms] by (auto simp: fq_inv_def fq_busy_def fq_wf_def)
qed

lemma fq_job_cases:
  assumes "fq_inv m" and "fq_allowed m FqJob"
  obtains (none) "fq_queued_tree m = []" "fq_sending_flow m = None"
      "fq_step m FqJob = Some (m\<lparr>fq_schedule_job := False, fq_previous_flow := None\<rparr>, [])"
      "fq_inv (m\<lparr>fq_schedule_job := False, fq_previous_flow := None\<rparr>)"
  | (some) q t where "fq_queued_tree m = q # t" "fq_sending_flow m = None"
      "fq_step m FqJob = Some (fq_scheduled (m\<lparr>fq_schedule_job := False, fq_previous_flow := None\<rparr>) q t,
         [FQ_Send (ff_data (fq_flow m q)) (ff_data_len (fq_flow m q))])"
      "fq_inv (fq_scheduled (m\<lparr>fq_schedule_job := False, fq_previous_flow := None\<rparr>) q t)"
proof -
  let ?m = "m\<lparr>fq_schedule_job := False, fq_previous_flow := None\<rparr>"
  have wf: "fq_wf m" and a: "fq_schedule_job m" "\<not> fq_freeing m" using assms by (simp_all add: fq_inv_def)
  have s: "fq_sending_flow m = None" using fq_wf_sending [OF wf] a(1) by (cases "fq_sending_flow m") auto
  have wf': "fq_wf ?m" using wf s by (simp add: fq_wf_def)
  show thesis
  proof (cases "fq_queued_tree m")
    case Nil
    have "fq_step m FqJob = Some (?m, [])" using s a Nil by (simp add: schedule_job_handler_def c_assert_bind)
    moreover have "fq_inv ?m" using wf' Nil by (simp add: fq_inv_def fq_busy_def)
    ultimately show thesis using none Nil s by blast
  next
    case (Cons q t)
    have "fq_step m FqJob = Some (fq_scheduled ?m q t, [FQ_Send (ff_data (fq_flow m q)) (ff_data_len (fq_flow m q))])"
      using fq_schedule_ok [OF wf', of q t] s a Cons by (simp add: schedule_job_handler_def c_assert_bind)
    moreover have "fq_inv (fq_scheduled ?m q t)" using fq_scheduled_inv [OF wf', of q t] Cons by simp
    ultimately show thesis using some Cons s by blast
  qed
qed

lemma fq_init_result:
  assumes "fq_inv m" and "fq_allowed m (FqInit f)"
  shows "\<exists>m'. fq_step m (FqInit f) = Some (m', []) \<and> fq_inv m' \<and> fq_flows_list m' = fq_flows_list m @ [f] \<and>
    fq_queued_tree m' = fq_queued_tree m \<and> fq_sending_flow m' = fq_sending_flow m \<and> (\<forall>g. g \<noteq> f \<longrightarrow> fq_flow m' g = fq_flow m g) \<and>
    fq_output_mtu m' = fq_output_mtu m \<and> fq_packet_weight m' = fq_packet_weight m"
proof -
  let ?m = "fq_upd f (\<lambda>q. q\<lparr>ff_handler_busy := False, ff_time := 0, ff_is_queued := False\<rparr>) (m\<lparr>fq_flows_list := fq_flows_list m @ [f]\<rparr>)"
  have wf: "fq_wf m" using assms(1) by (simp add: fq_inv_def)
  have f: "f \<notin> set (fq_flows_list m)" "f \<notin> set (fq_queued_tree m)" using assms(2) fq_wf_subset [OF wf] by auto
  have "sorted_wrt (fq_less (fq_flow ?m)) (fq_queued_tree m)"
    by (rule fq_sorted_cong [OF _ fq_wf_sorted [OF wf]]) (use f in \<open>auto simp: fq_less_def\<close>)
  moreover have "fq_sending_flow m \<noteq> Some f" "fq_previous_flow m \<noteq> Some f"
    using fq_wf_sending [OF wf] fq_wf_previous [OF wf] f(1) by auto
  ultimately have "fq_wf ?m" using wf f unfolding fq_wf_def by (auto simp: fq_upd_def)
  then show ?thesis using assms
    by (auto simp: PacketPassFairQueueFlow_Init_def c_assert_bind fq_inv_def fq_busy_def)
qed

lemma fq_free_result:
  assumes "fq_inv m" and "fq_allowed m (FqFree f)"
  shows "\<exists>m'. fq_step m (FqFree f) = Some (m', []) \<and> fq_inv m' \<and> fq_flows_list m' = remove1 f (fq_flows_list m) \<and>
    fq_queued_tree m' = remove1 f (fq_queued_tree m) \<and>
    fq_sending_flow m' = (if fq_sending_flow m = Some f then None else fq_sending_flow m) \<and> fq_flow m' = fq_flow m \<and>
    fq_output_mtu m' = fq_output_mtu m \<and> fq_packet_weight m' = fq_packet_weight m"
proof -
  have wf: "fq_wf m" and b: "fq_busy m" using assms(1) by (simp_all add: fq_inv_def)
  have f: "f \<in> set (fq_flows_list m)" "fq_freeing m \<or> fq_sending_flow m \<noteq> Some f" using assms(2) by auto
  let ?m = "m\<lparr>fq_sending_flow := if fq_sending_flow m = Some f then None else fq_sending_flow m,
      fq_previous_flow := if fq_previous_flow m = Some f then None else fq_previous_flow m,
      fq_queued_tree := remove1 f (fq_queued_tree m), fq_flows_list := remove1 f (fq_flows_list m)\<rparr>"
  have step: "fq_step m (FqFree f) = Some (?m, [])"
    using f fq_wf_queued [OF wf f(1)] by (auto simp: PacketPassFairQueueFlow_Free_def c_assert_bind fq_tree_remove_def remove1_idem
      intro!: PacketPassFairQueue.equality)
  have d: "distinct (fq_flows_list m)" "distinct (fq_queued_tree m)"
    using fq_wf_distinct [OF wf] fq_sorted_distinct [OF fq_wf_sorted [OF wf]] by auto
  have "sorted_wrt (fq_less (fq_flow m)) (remove1 f (fq_queued_tree m))"
    using fq_wf_sorted [OF wf] by (simp add: sorted_wrt_filter distinct_remove1_removeAll d(2) removeAll_filter_not_eq)
  then have wf': "fq_wf ?m"
    using wf d unfolding fq_wf_def by (auto simp: set_remove1_eq)
  have "fq_busy ?m" using b f(2) by (auto simp: fq_busy_def)
  then show ?thesis using step wf' by (auto simp: fq_inv_def)
qed

text \<open>Every call allowed by the contract returns without a failed assertion and keeps the invariant.\<close>

lemma fq_step_ok:
  assumes "fq_inv m" and "fq_allowed m op"
  shows "\<exists>m' outs. fq_step m op = Some (m', outs) \<and> fq_inv m'"
proof (cases op)
  case (FqInit f)
  then show ?thesis using fq_init_result assms by blast
next
  case (FqFree f)
  then show ?thesis using fq_free_result assms by blast
next
  case (FqSend f d n)
  show ?thesis using fq_send_cases [OF assms(1) assms(2) [unfolded FqSend]] unfolding FqSend by metis
next
  case FqDone
  then obtain s where s: "fq_sending_flow m = Some s" "\<not> fq_freeing m" using assms(2) by auto
  then show ?thesis using fq_done_result [OF _ s] fq_finished_inv [OF _ s(1)] assms(1) FqDone by (auto simp: fq_inv_def)
next
  case FqJob
  show ?thesis using fq_job_cases [OF assms(1) assms(2) [unfolded FqJob]] unfolding FqJob by metis
next
  case (FqSetBusy f h)
  then have s: "fq_sending_flow m = Some f" using assms(2) by (simp add: PacketPassFairQueueFlow_IsBusy_def)
  let ?m = "fq_upd f (ff_handler_busy_update (\<lambda>_. h)) m"
  have "fq_less (fq_flow ?m) = fq_less (fq_flow m)" by (intro ext) (simp add: fq_less_def)
  moreover have "ff_is_queued (fq_flow ?m g) = ff_is_queued (fq_flow m g)" "fq_time ?m g = fq_time m g"
    "ff_data_len (fq_flow ?m g) = ff_data_len (fq_flow m g)" for g by simp_all
  ultimately have "fq_inv ?m"
    using assms(1) unfolding fq_inv_def fq_busy_def fq_wf_def by (simp del: fq_upd_simps(11))
  then show ?thesis using FqSetBusy assms s by (auto simp: PacketPassFairQueueFlow_SetBusyHandler_def c_assert_bind)
next
  case (FqCancel f)
  then have "fq_sending_flow m = Some f" using assms(2) by (simp add: PacketPassFairQueueFlow_IsBusy_def)
  then show ?thesis using FqCancel assms fq_wf_sending [of m f]
    by (auto simp: PacketPassFairQueueFlow_RequestCancel_def c_assert_bind fq_inv_def)
next
  case FqPrepareFree
  then show ?thesis using assms(1) by (auto simp: PacketPassFairQueue_PrepareFree_def fq_inv_def fq_wf_def fq_busy_def)
qed

subsection \<open>Runs\<close>

text \<open>The logs of a run: for every flow, since its initialisation, the packets accepted from it, the packets of
  it passed to the output, and the number of packets reported done.\<close>

definition fq_accepted :: "fq_op \<Rightarrow> (nat \<Rightarrow> (nat \<times> int) list) \<Rightarrow> nat \<Rightarrow> (nat \<times> int) list" where
  "fq_accepted op l =
     (case op of FqInit f \<Rightarrow> l(f := []) | FqSend f d n \<Rightarrow> l(f := l f @ [(d, n)]) | _ \<Rightarrow> l)"

definition fq_passed :: "nat option \<Rightarrow> fq_op \<Rightarrow> fq_out list \<Rightarrow> (nat \<Rightarrow> (nat \<times> int) list) \<Rightarrow> nat \<Rightarrow> (nat \<times> int) list" where
  "fq_passed sending op outs l =
     fold (\<lambda>out l. case out of FQ_Send d n \<Rightarrow> l(the sending := l (the sending) @ [(d, n)]) | _ \<Rightarrow> l) outs
       (case op of FqInit f \<Rightarrow> l(f := []) | _ \<Rightarrow> l)"

definition fq_reported :: "fq_op \<Rightarrow> fq_out list \<Rightarrow> (nat \<Rightarrow> nat) \<Rightarrow> nat \<Rightarrow> nat" where
  "fq_reported op outs l =
     fold (\<lambda>out l. case out of FQ_Done f \<Rightarrow> l(f := l f + 1) | _ \<Rightarrow> l) outs
       (case op of FqInit f \<Rightarrow> l(f := 0) | _ \<Rightarrow> l)"

inductive fq_reach ::
  "PacketPassFairQueue \<Rightarrow> (nat \<Rightarrow> (nat \<times> int) list) \<Rightarrow> (nat \<Rightarrow> (nat \<times> int) list) \<Rightarrow> (nat \<Rightarrow> nat) \<Rightarrow> bool" where
  init: "PacketPassFairQueue_Init mtu use_cancel packet_weight mem = Some m \<Longrightarrow> 0 \<le> mtu \<Longrightarrow> 0 < packet_weight \<Longrightarrow>
    fq_reach m (\<lambda>_. []) (\<lambda>_. []) (\<lambda>_. 0)"
| step: "fq_reach m acc snt dn \<Longrightarrow> fq_allowed m op \<Longrightarrow> fq_step m op = Some (m', outs) \<Longrightarrow>
    fq_reach m' (fq_accepted op acc) (fq_passed (fq_sending_flow m') op outs snt) (fq_reported op outs dn)"

lemma fq_init_inv:
  assumes "PacketPassFairQueue_Init mtu use_cancel packet_weight mem = Some m" and "0 \<le> mtu" and "0 < packet_weight"
  shows "fq_inv m"
proof -
  have "uint FAIRQUEUE_MAX_TIME = 2 ^ 64 - 1" by (simp add: FAIRQUEUE_MAX_TIME_def unsigned_minus_1_eq_mask mask_eq_exp_minus_1)
  then show ?thesis using assms
    by (auto simp: PacketPassFairQueue_Init_def fq_inv_def fq_wf_def fq_busy_def split: if_splits)
qed

lemma fq_reach_inv: "fq_reach m acc snt dn \<Longrightarrow> fq_inv m"
proof (induction rule: fq_reach.induct)
  case (init mtu use_cancel packet_weight mem m)
  then show ?case by (rule fq_init_inv)
next
  case (step m acc snt dn op m' outs)
  then show ?case using fq_step_ok [of m op] by auto
qed

definition fq_logs_ok :: "PacketPassFairQueue \<Rightarrow> (nat \<Rightarrow> (nat \<times> int) list) \<Rightarrow> (nat \<Rightarrow> (nat \<times> int) list) \<Rightarrow> (nat \<Rightarrow> nat) \<Rightarrow> bool" where
  "fq_logs_ok m acc snt dn \<longleftrightarrow> (\<forall>f\<in>set (fq_flows_list m).
     acc f = snt f @ (if f \<in> set (fq_queued_tree m) then [(ff_data (fq_flow m f), ff_data_len (fq_flow m f))] else []) \<and>
     length (snt f) = dn f + (if fq_sending_flow m = Some f then 1 else 0))"

lemma fq_logs_step:
  assumes "fq_inv m" and "fq_allowed m op" and "fq_step m op = Some (m', outs)" and "fq_logs_ok m acc snt dn"
  shows "fq_logs_ok m' (fq_accepted op acc) (fq_passed (fq_sending_flow m') op outs snt) (fq_reported op outs dn)"
proof -
  have wf: "fq_wf m" using assms(1) by (simp add: fq_inv_def)
  note defs = fq_logs_ok_def fq_accepted_def fq_passed_def fq_reported_def
  show ?thesis
  proof (cases op)
    case (FqInit f)
    note op = this
    obtain m1 where m1: "fq_step m (FqInit f) = Some (m1, [])" "fq_flows_list m1 = fq_flows_list m @ [f]"
        "fq_queued_tree m1 = fq_queued_tree m" "fq_sending_flow m1 = fq_sending_flow m" "\<forall>g. g \<noteq> f \<longrightarrow> fq_flow m1 g = fq_flow m g"
      using fq_init_result [OF assms(1), of f] assms(2) op by auto
    have "f \<notin> set (fq_queued_tree m)" "fq_sending_flow m \<noteq> Some f"
      using assms(2) op fq_wf_subset [OF wf] fq_wf_sending [OF wf] by auto
    then show ?thesis using assms(3,4) m1 op by (auto simp: defs)
  next
    case (FqFree f)
    note op = this
    obtain m1 where m1: "fq_step m (FqFree f) = Some (m1, [])" "fq_flows_list m1 = remove1 f (fq_flows_list m)"
        "fq_queued_tree m1 = remove1 f (fq_queued_tree m)"
        "fq_sending_flow m1 = (if fq_sending_flow m = Some f then None else fq_sending_flow m)" "fq_flow m1 = fq_flow m"
      using fq_free_result [OF assms(1), of f] assms(2) op by auto
    have "set (remove1 f (fq_flows_list m)) = set (fq_flows_list m) - {f}" "set (remove1 f (fq_queued_tree m)) = set (fq_queued_tree m) - {f}"
      using fq_wf_distinct [OF wf] fq_sorted_distinct [OF fq_wf_sorted [OF wf]] by (simp_all add: set_remove1_eq)
    then show ?thesis using assms(3,4) m1 op by (auto simp: defs)
  next
    case (FqSend f d n)
    note op = this
    have f: "f \<notin> set (fq_queued_tree m)" "fq_sending_flow m \<noteq> Some f" using assms(2) op by auto
    show ?thesis using assms(1) assms(2) [unfolded op]
    proof (cases rule: fq_send_cases)
      case idle
      then show ?thesis using assms(3,4) op f by (auto simp: defs fq_scheduled_def fq_enqueue_def)
    next
      case (busy t)
      then show ?thesis using assms(3,4) op f by (auto simp: defs fq_enqueue_def)
    qed
  next
    case FqDone
    then obtain s outs' where s: "fq_sending_flow m = Some s" "fq_step m op = Some (fq_finished m s, FQ_Done s # outs')" "outs' \<in> {[], [FQ_Busy s]}"
      using fq_done_result [OF wf] assms(2) by auto
    then show ?thesis using assms(3,4) FqDone by (auto simp: defs)
  next
    case FqJob
    note op = this
    show ?thesis using assms(1) assms(2) [unfolded op]
    proof (cases rule: fq_job_cases)
      case none
      then show ?thesis using assms(3,4) op by (auto simp: defs)
    next
      case (some q t)
      then show ?thesis using assms(3,4) op fq_sorted_first [OF wf some(1)] by (auto simp: defs fq_scheduled_def)
    qed
  next
    case (FqSetBusy f h)
    then show ?thesis using assms(3,4) by (auto simp: defs PacketPassFairQueueFlow_SetBusyHandler_def c_assert_bind split: if_splits)
  next
    case (FqCancel f)
    then show ?thesis using assms(3,4) by (auto simp: defs PacketPassFairQueueFlow_RequestCancel_def c_assert_bind split: if_splits)
  next
    case FqPrepareFree
    then show ?thesis using assms(3,4) by (auto simp: defs PacketPassFairQueue_PrepareFree_def)
  qed
qed

lemma fq_reach_logs: "fq_reach m acc snt dn \<Longrightarrow> fq_logs_ok m acc snt dn"
proof (induction rule: fq_reach.induct)
  case (init mtu use_cancel packet_weight mem m)
  then show ?case by (auto simp: PacketPassFairQueue_Init_def fq_logs_ok_def split: if_splits)
next
  case (step m acc snt dn op m' outs)
  then show ?case using fq_logs_step fq_reach_inv by blast
qed

subsection \<open>Overtaking\<close>

text \<open>\<open>fq_waiting i j m0 m n\<close>: a run from \<open>m0\<close> to \<open>m\<close> in which flow \<open>i\<close> waits in the queue all the time, flow
  \<open>j\<close> is not freed, and packets of \<open>j\<close> of the total weight \<open>n\<close> are finished.\<close>

inductive fq_waiting :: "nat \<Rightarrow> nat \<Rightarrow> PacketPassFairQueue \<Rightarrow> PacketPassFairQueue \<Rightarrow> int \<Rightarrow> bool" for i j m0 where
  start: "i \<in> set (fq_queued_tree m0) \<Longrightarrow> j \<in> set (fq_flows_list m0) \<Longrightarrow> i \<noteq> j \<Longrightarrow> fq_waiting i j m0 m0 0"
| step: "fq_waiting i j m0 m n \<Longrightarrow> fq_allowed m op \<Longrightarrow> fq_step m op = Some (m', outs) \<Longrightarrow> op \<noteq> FqFree j \<Longrightarrow>
    i \<in> set (fq_queued_tree m') \<Longrightarrow>
    fq_waiting i j m0 m' (n + (if op = FqDone \<and> fq_sending_flow m = Some j then fq_packet_weight m + fq_sending_len m else 0))"

abbreviation fq_lead :: "PacketPassFairQueue \<Rightarrow> nat \<Rightarrow> nat \<Rightarrow> int" where
  "fq_lead m j i \<equiv> uint (fq_time m j) - uint (fq_time m i)"

lemma fq_lead_step:
  assumes "fq_inv m" and "fq_allowed m op" and "fq_step m op = Some (m', outs)" and "op \<noteq> FqFree j"
    and "i \<in> set (fq_queued_tree m)" "i \<in> set (fq_queued_tree m')" "j \<in> set (fq_flows_list m)" "i \<noteq> j"
  shows "j \<in> set (fq_flows_list m')"
    and "fq_output_mtu m' = fq_output_mtu m" "fq_packet_weight m' = fq_packet_weight m"
    and "fq_lead m j i + (if op = FqDone \<and> fq_sending_flow m = Some j then fq_amount m else 0) \<le> fq_lead m' j i"
    and "fq_lead m' j i \<le> max (fq_lead m j i) (fq_output_mtu m + fq_packet_weight m)"
proof -
  have wf: "fq_wf m" using assms(1) by (simp add: fq_inv_def)
  have i: "i \<in> set (fq_flows_list m)" using assms(5) fq_wf_subset [OF wf] by blast
  let ?P = "j \<in> set (fq_flows_list m') \<and> fq_output_mtu m' = fq_output_mtu m \<and> fq_packet_weight m' = fq_packet_weight m \<and>
    fq_lead m j i + (if op = FqDone \<and> fq_sending_flow m = Some j then fq_amount m else 0) \<le> fq_lead m' j i \<and>
    fq_lead m' j i \<le> max (fq_lead m j i) (fq_output_mtu m + fq_packet_weight m)"
  have ?P
  proof (cases op)
    case (FqInit f)
    then have "f \<noteq> i" "f \<noteq> j" using assms(2,7) i by auto
    then show ?thesis using fq_init_result [OF assms(1), of f] assms(2,3,7) FqInit by auto
  next
    case (FqFree f)
    then show ?thesis using fq_free_result [OF assms(1), of f] assms(2,3,4,7) by auto
  next
    case (FqSend f d n)
    note op = this
    then have f: "f \<noteq> i" using assms(2,5) by auto
    show ?thesis using assms(1) assms(2) [unfolded op]
    proof (cases rule: fq_send_cases)
      case idle
      then show ?thesis using assms(5) by simp
    next
      case (busy t)
      then have m': "m' = fq_enqueue m f d n t" using assms(3) op by simp
      have "fq_time m j \<le> fq_raise m j" "fq_raise m j \<le> max (fq_time m j) (fq_time m i)"
        using fq_current_le [OF wf assms(5)] by (auto simp: fq_raise_def max_def)
      then have "uint (fq_time m j) \<le> uint (fq_raise m j)" "uint (fq_raise m j) \<le> max (uint (fq_time m j)) (uint (fq_time m i))"
        by (auto simp: word_le_def max_def split: if_splits)
      then show ?thesis using f assms(7) op fq_wf_mtu [OF wf] by (auto simp: m' fq_enqueue_def)
    qed
  next
    case FqDone
    then obtain s where s: "fq_sending_flow m = Some s" and m': "m' = fq_finished m s"
      using fq_done_result [OF wf] assms(2,3) by auto
    note q = fq_wf_sending [OF wf s] and T = fq_finished_times [OF wf s]
    have "fq_time m s \<le> fq_time m i" using q assms(5) by blast
    then have "uint (fq_time m s) \<le> uint (fq_time m i)" by (simp add: word_le_def)
    then show ?thesis
      using T(1) T(2) [OF assms(5)] T(3) [of j] assms(7) FqDone s fq_amount_exact(2,3) [OF wf s] fq_wf_mtu [OF wf]
        uint_u64_bounds(1) [of "fq_time m' i"]
      by (cases "s = j") (auto simp: m')
  next
    case FqJob
    note op = this
    show ?thesis using assms(1) assms(2) [unfolded op]
    proof (cases rule: fq_job_cases)
      case none
      then show ?thesis using assms(5) by simp
    next
      case (some q t)
      then have "m' = fq_scheduled (m\<lparr>fq_schedule_job := False, fq_previous_flow := None\<rparr>) q t" using assms(3) op by simp
      then show ?thesis using assms(7) op by (auto simp: fq_scheduled_def)
    qed
  next
    case (FqSetBusy f h)
    then show ?thesis using assms(3,7) by (auto simp: PacketPassFairQueueFlow_SetBusyHandler_def c_assert_bind split: if_splits)
  next
    case (FqCancel f)
    then show ?thesis using assms(3,7) by (auto simp: PacketPassFairQueueFlow_RequestCancel_def c_assert_bind split: if_splits)
  next
    case FqPrepareFree
    then show ?thesis using assms(3,7) by (auto simp: PacketPassFairQueue_PrepareFree_def)
  qed
  then show "j \<in> set (fq_flows_list m')"
    and "fq_output_mtu m' = fq_output_mtu m" "fq_packet_weight m' = fq_packet_weight m"
    and "fq_lead m j i + (if op = FqDone \<and> fq_sending_flow m = Some j then fq_amount m else 0) \<le> fq_lead m' j i"
    and "fq_lead m' j i \<le> max (fq_lead m j i) (fq_output_mtu m + fq_packet_weight m)" by blast+
qed

lemma fq_waiting_inv:
  assumes "fq_waiting i j m0 m n" and "fq_inv m0"
  shows "fq_inv m \<and> i \<in> set (fq_queued_tree m) \<and> j \<in> set (fq_flows_list m) \<and> i \<noteq> j \<and>
    fq_output_mtu m = fq_output_mtu m0 \<and> fq_packet_weight m = fq_packet_weight m0 \<and>
    fq_lead m0 j i + n \<le> fq_lead m j i \<and>
    fq_lead m j i \<le> max (fq_lead m0 j i) (fq_output_mtu m0 + fq_packet_weight m0)"
  using assms
proof (induction rule: fq_waiting.induct)
  case start
  then show ?case by simp
next
  case (step m n op m' outs)
  then have IH: "fq_inv m" "i \<in> set (fq_queued_tree m)" "j \<in> set (fq_flows_list m)" "i \<noteq> j"
    "fq_output_mtu m = fq_output_mtu m0" "fq_packet_weight m = fq_packet_weight m0"
    "fq_lead m0 j i + n \<le> fq_lead m j i" "fq_lead m j i \<le> max (fq_lead m0 j i) (fq_output_mtu m0 + fq_packet_weight m0)"
    by simp_all
  have inv: "fq_inv m'" using fq_step_ok [OF IH(1) step.hyps(2)] step.hyps(3) by simp
  note l = fq_lead_step [OF IH(1) step.hyps(2,3,4) IH(2) step.hyps(5) IH(3,4)]
  show ?case
    using inv step.hyps(5) IH l by (auto simp: fq_amount_def)
qed

subsection \<open>Properties\<close>

text \<open>A run as a list of calls, for examples.\<close>

fun fq_run :: "PacketPassFairQueue \<Rightarrow> fq_op list \<Rightarrow> PacketPassFairQueue option" where
  "fq_run m [] = Some m"
| "fq_run m (op # ops) = (if fq_allowed m op then Option.bind (fq_step m op) (\<lambda>(m', _). fq_run m' ops) else None)"

lemma fq_run_reach: "fq_run m ops = Some m' \<Longrightarrow> fq_reach m acc snt dn \<Longrightarrow> \<exists>acc snt dn. fq_reach m' acc snt dn"
proof (induction ops arbitrary: m acc snt dn)
  case Nil
  then show ?case by auto
next
  case (Cons op ops)
  obtain m1 outs where s: "fq_allowed m op" "fq_step m op = Some (m1, outs)" "fq_run m1 ops = Some m'"
    using Cons.prems(1) by (auto split: if_splits bind_splits)
  show ?case by (rule Cons.IH [OF s(3) fq_reach.step [OF Cons.prems(2) s(1,2)]])
qed

definition fq_example :: "fq_op list \<Rightarrow> PacketPassFairQueue option" where
  "fq_example ops =
     Option.bind (PacketPassFairQueue_Init 100 False 1 (\<lambda>_. \<lparr>ff_time = 7, ff_is_queued = True, ff_data = 0, ff_data_len = 0, ff_handler_busy = True\<rparr>))
       (\<lambda>m. fq_run m ops)"

lemma fq_example_reach:
  assumes "fq_example ops = Some m"
  shows "\<exists>acc snt dn. fq_reach m acc snt dn"
proof -
  obtain mem m0 where m0: "PacketPassFairQueue_Init 100 False 1 mem = Some m0" "fq_run m0 ops = Some m"
    using assms by (auto simp: fq_example_def bind_eq_Some_conv)
  show ?thesis using fq_run_reach [OF m0(2) fq_reach.init [OF m0(1)]] by simp
qed

text \<open>C21. No call allowed by the contract of the fair queue fails an assertion of the source, whatever happened
  before. The output is in use or about to be while packets wait, the flow in progress has the smallest virtual
  time, and the queue can be freed once all of its flows are freed.\<close>

theorem fair_queue_safe:
  assumes "fq_reach m acc snt dn"
  shows "(fq_allowed m op \<longrightarrow> fq_step m op \<noteq> None) \<and>
    (\<not> fq_freeing m \<and> fq_queued_tree m \<noteq> [] \<longrightarrow> fq_sending_flow m \<noteq> None \<or> fq_schedule_job m) \<and>
    (\<forall>s q. fq_sending_flow m = Some s \<and> q \<in> set (fq_queued_tree m) \<longrightarrow> fq_time m s \<le> fq_time m q) \<and>
    (fq_flows_list m = [] \<longrightarrow> PacketPassFairQueue_Free m \<noteq> None)"
proof -
  note inv = fq_reach_inv [OF assms]
  then have wf: "fq_wf m" and busy: "fq_busy m" by (simp_all add: fq_inv_def)
  have "PacketPassFairQueue_Free m \<noteq> None" if "fq_flows_list m = []"
    using that fq_wf_subset [OF wf] fq_wf_sending [OF wf] fq_wf_previous [OF wf]
    by (cases "fq_sending_flow m"; cases "fq_previous_flow m") (auto simp: PacketPassFairQueue_Free_def c_assert_bind)
  moreover have "fq_allowed m op \<longrightarrow> fq_step m op \<noteq> None" using fq_step_ok [OF inv] by fastforce
  ultimately show ?thesis using busy fq_wf_sending [OF wf] by (auto simp: fq_busy_def)
qed

theorem fair_queue_safe_witness:
  "\<exists>m. fq_example [FqInit 1, FqInit 2, FqSend 1 10 50, FqSend 2 20 60, FqDone] = Some m \<and>
     fq_queued_tree m = [2] \<and> fq_schedule_job m \<and> fq_step m FqJob \<noteq> None"
proof -
  have "map_option (\<lambda>m. (fq_queued_tree m, fq_schedule_job m, fq_freeing m))
      (fq_example [FqInit 1, FqInit 2, FqSend 1 10 50, FqSend 2 20 60, FqDone]) = Some ([2], True, False)"
    by code_simp
  then obtain m where m: "fq_example [FqInit 1, FqInit 2, FqSend 1 10 50, FqSend 2 20 60, FqDone] = Some m"
    "fq_queued_tree m = [2]" "fq_schedule_job m" "\<not> fq_freeing m" by auto
  obtain acc snt dn where "fq_reach m acc snt dn" using fq_example_reach [OF m(1)] by blast
  from fair_queue_safe [OF this, of FqJob] m show ?thesis by auto
qed

text \<open>C24. Every packet a flow hands to the fair queue is passed to the output once, unchanged and in the order of
  its flow: the packets accepted are those passed on followed by at most the one waiting, and a packet is reported
  done exactly when it was passed on and is not the one in progress.\<close>

theorem fair_queue_delivers:
  assumes "fq_reach m acc snt dn" and "f \<in> set (fq_flows_list m)"
  shows "acc f = snt f @ (if f \<in> set (fq_queued_tree m) then [(ff_data (fq_flow m f), ff_data_len (fq_flow m f))] else []) \<and>
    length (snt f) = dn f + (if fq_sending_flow m = Some f then 1 else 0)"
  using fq_reach_logs [OF assms(1)] assms(2) by (auto simp: fq_logs_ok_def)

theorem fair_queue_delivers_witness:
  "\<exists>m acc snt dn. fq_example [FqInit 1, FqInit 2, FqSend 1 10 50, FqSend 2 20 60] = Some m \<and> fq_reach m acc snt dn \<and>
     acc 2 = snt 2 @ [(20, 60)]"
proof -
  have "map_option (\<lambda>m. (fq_queued_tree m, fq_flows_list m, ff_data (fq_flow m 2), ff_data_len (fq_flow m 2)))
      (fq_example [FqInit 1, FqInit 2, FqSend 1 10 50, FqSend 2 20 60]) = Some ([2], [1, 2], 20, 60)"
    by code_simp
  then obtain m where m: "fq_example [FqInit 1, FqInit 2, FqSend 1 10 50, FqSend 2 20 60] = Some m"
    "fq_queued_tree m = [2]" "fq_flows_list m = [1, 2]" "ff_data (fq_flow m 2) = 20" "ff_data_len (fq_flow m 2) = 60" by auto
  obtain acc snt dn where r: "fq_reach m acc snt dn" using fq_example_reach [OF m(1)] by blast
  from fair_queue_delivers [OF r, of 2] m r show ?thesis by auto
qed

text \<open>C23. Finishing a packet adds its weight to the virtual time of its flow without a wrong wrap-around: when the
  64-bit time would overflow, all times are set back by one amount \<open>c\<close>, exactly for the finished flow and the
  waiting ones, so that their order and distances stay, and down to zero at most for the others.\<close>

theorem fair_queue_overflow:
  assumes "fq_reach m acc snt dn" and "fq_sending_flow m = Some s" and "\<not> fq_freeing m"
  shows "\<exists>m' outs c. fq_output_handler_done m = Some (m', outs) \<and> 0 \<le> c \<and>
    (uint (fq_time m s) + fq_packet_weight m + fq_sending_len m < 2 ^ 64 \<longrightarrow> c = 0) \<and>
    uint (fq_time m' s) = uint (fq_time m s) + fq_packet_weight m + fq_sending_len m - c \<and>
    (\<forall>q\<in>set (fq_queued_tree m). uint (fq_time m' q) = uint (fq_time m q) - c) \<and>
    (\<forall>f\<in>set (fq_flows_list m). f \<noteq> s \<longrightarrow> uint (fq_time m' f) = max 0 (uint (fq_time m f) - c))"
proof -
  have wf: "fq_wf m" using fq_reach_inv [OF assms(1)] by (simp add: fq_inv_def)
  obtain outs where step: "fq_output_handler_done m = Some (fq_finished m s, outs)"
    using fq_done_result [OF wf assms(2,3)] by auto
  let ?c = "uint (fq_correction m s (fq_wamount m))"
  have "?c = 0" if "uint (fq_time m s) + fq_packet_weight m + fq_sending_len m < 2 ^ 64"
  proof -
    have "\<not> fq_wamount m > FAIRQUEUE_MAX_TIME - fq_time m s"
      using that fq_amount_exact(1) [OF wf assms(2)] unfolding fq_overflows_iff fq_amount_def by linarith
    then show ?thesis by (simp add: fq_correction_def)
  qed
  then show ?thesis
    using step fq_finished_times [OF wf assms(2)] by (intro exI [of _ "fq_finished m s"] exI [of _ outs] exI [of _ ?c]) (auto simp: fq_amount_def)
qed

theorem fair_queue_overflow_witness:
  "\<exists>m m' outs. fq_example [FqInit 1, FqInit 2, FqSend 1 10 50, FqSend 2 20 60] = Some m \<and>
     fq_output_handler_done m = Some (m', outs) \<and> uint (fq_time m' 1) = 51"
proof -
  have "map_option (\<lambda>m. (fq_sending_flow m, fq_freeing m, fq_time m 1, fq_packet_weight m, fq_sending_len m))
      (fq_example [FqInit 1, FqInit 2, FqSend 1 10 50, FqSend 2 20 60]) = Some (Some 1, False, 0, 1, 50)"
    by code_simp
  then obtain m where m: "fq_example [FqInit 1, FqInit 2, FqSend 1 10 50, FqSend 2 20 60] = Some m"
    "fq_sending_flow m = Some 1" "\<not> fq_freeing m" "fq_time m 1 = 0" "fq_packet_weight m = 1" "fq_sending_len m = 50" by auto
  obtain acc snt dn where r: "fq_reach m acc snt dn" using fq_example_reach [OF m(1)] by blast
  from fair_queue_overflow [OF r m(2,3)] m show ?thesis by auto
qed



end
