(* ===== verification/Addr_Order.thy ===== *)
theory Addr_Order
  imports Net_Addr Bavl_Index
begin

text \<open>
  The comparison functions of the tunnel are comparators in the sense the AVL tree needs: those built from
  \<^verbatim>\<open>B_COMPARE\<close>, \<^verbatim>\<open>memcmp\<close> and the comparison of addresses, alone or one after another.
\<close>

definition cmp_lex :: "('a \<Rightarrow> 'a \<Rightarrow> int) \<Rightarrow> ('a \<Rightarrow> 'a \<Rightarrow> int) \<Rightarrow> 'a \<Rightarrow> 'a \<Rightarrow> int" where
  "cmp_lex c d x y = (if c x y \<noteq> 0 then c x y else d x y)"

lemma is_comparator_lex:
  assumes "is_comparator c" and "is_comparator d"
  shows "is_comparator (cmp_lex c d)"
proof -
  note C = is_comparatorD [OF assms(1)] and D = is_comparatorD [OF assms(2)]
  have tri: "cmp_lex c d x y = - 1 \<or> cmp_lex c d x y = 0 \<or> cmp_lex c d x y = 1" for x y
    using C(1) [of x y] D(1) [of x y] by (auto simp: cmp_lex_def)
  have neg: "cmp_lex c d y x = - cmp_lex c d x y" for x y
    using C(2) [of y x] D(2) [of y x] by (auto simp: cmp_lex_def)
  have trans: "cmp_lex c d x z = - 1" if "cmp_lex c d x y = - 1" "cmp_lex c d y z = - 1" for x y z
  proof (cases "c x y = 0")
    case True
    then show ?thesis using that C(4) [of x y z] D(3) [of x y z] by (auto simp: cmp_lex_def split: if_splits)
  next
    case False
    then have xy: "c x y = - 1" using that(1) by (simp add: cmp_lex_def)
    show ?thesis
    proof (cases "c y z = 0")
      case True
      then have "c z x = c y x" using C(4) [of y z x] by simp
      then show ?thesis using xy C(2) [of y x] C(2) [of z x] by (simp add: cmp_lex_def)
    next
      case False
      then show ?thesis using xy that(2) C(3) [of x y z] by (simp add: cmp_lex_def)
    qed
  qed
  have eq: "cmp_lex c d x z = cmp_lex c d y z" if "cmp_lex c d x y = 0" for x y z
    using that C(4) [of x y z] D(4) [of x y z] by (simp add: cmp_lex_def split: if_splits)
  show ?thesis unfolding is_comparator_def using tri neg trans eq by blast
qed

lemma is_comparator_image: "is_comparator c \<Longrightarrow> is_comparator (\<lambda>x y. c (f x) (f y))"
  unfolding is_comparator_def by blast

lemma is_comparator_B_COMPARE: "is_comparator (B_COMPARE :: 'k :: linorder \<Rightarrow> 'k \<Rightarrow> int)"
proof -
  have eq: "B_COMPARE = (\<lambda>(x :: 'k) y. if x < y then - 1 else if x = y then 0 else 1)"
    by (intro ext) (auto simp: B_COMPARE_def)
  show ?thesis unfolding eq by (rule is_comparator_sgn)
qed

lemma memcmp_eq: "memcmp xs ys = 0 \<longleftrightarrow> xs = ys"
  by (induction xs ys rule: memcmp.induct) auto

lemma is_comparator_memcmp: "is_comparator memcmp"
proof -
  have tri: "memcmp x y = - 1 \<or> memcmp x y = 0 \<or> memcmp x y = 1" for x y
    by (induction x y rule: memcmp.induct) auto
  have neg: "memcmp y x = - memcmp x y" for x y
    by (induction x y rule: memcmp.induct) auto
  have trans: "memcmp x y = - 1 \<Longrightarrow> memcmp y z = - 1 \<Longrightarrow> memcmp x z = - 1" for x y z
  proof (induction x y arbitrary: z rule: memcmp.induct)
    case (1 a as b bs)
    then show ?case by (cases z) (auto split: if_splits)
  next
    case (3 b bs)
    then show ?case by (cases z) auto
  qed auto
  have eq: "memcmp x z = memcmp y z" if "memcmp x y = 0" for x y z
    using that by (simp add: memcmp_eq)
  show ?thesis unfolding is_comparator_def using tri neg trans eq by blast
qed

fun baddr_ip4 :: "BAddr \<Rightarrow> u32" where
  "baddr_ip4 (BADDR_IPV4 ip port) = ntoh32 ip"
| "baddr_ip4 _ = 0"

fun baddr_ip6 :: "BAddr \<Rightarrow> byte list" where
  "baddr_ip6 (BADDR_IPV6 ip port) = ip"
| "baddr_ip6 _ = []"

fun baddr_port :: "BAddr \<Rightarrow> u16" where
  "baddr_port (BADDR_IPV4 ip port) = ntoh16 port"
| "baddr_port (BADDR_IPV6 ip port) = ntoh16 port"
| "baddr_port _ = 0"

text \<open>The comparison of addresses is lexicographic in the type, the address and the port.\<close>

lemma BAddr_CompareOrder_lex:
  "BAddr_CompareOrder =
     cmp_lex (\<lambda>a b. B_COMPARE (baddr_type a) (baddr_type b))
       (cmp_lex (\<lambda>a b. B_COMPARE (baddr_ip4 a) (baddr_ip4 b))
         (cmp_lex (\<lambda>a b. memcmp (baddr_ip6 a) (baddr_ip6 b)) (\<lambda>a b. B_COMPARE (baddr_port a) (baddr_port b))))"
proof (intro ext)
  have sgn: "of_bool (0 < memcmp xs ys) - of_bool (memcmp xs ys < 0) = memcmp xs ys" for xs ys
    using is_comparatorD(1) [OF is_comparator_memcmp, of xs ys] by auto
  fix a b
  show "BAddr_CompareOrder a b =
     cmp_lex (\<lambda>a b. B_COMPARE (baddr_type a) (baddr_type b))
       (cmp_lex (\<lambda>a b. B_COMPARE (baddr_ip4 a) (baddr_ip4 b))
         (cmp_lex (\<lambda>a b. memcmp (baddr_ip6 a) (baddr_ip6 b)) (\<lambda>a b. B_COMPARE (baddr_port a) (baddr_port b)))) a b"
    by (cases a; cases b) (simp_all add: BAddr_CompareOrder.simps cmp_lex_def sgn B_COMPARE_def Let_def)
qed

lemma is_comparator_BAddr: "is_comparator BAddr_CompareOrder"
  unfolding BAddr_CompareOrder_lex
  by (rule is_comparator_lex [OF is_comparator_image [OF is_comparator_B_COMPARE, of baddr_type]
      is_comparator_lex [OF is_comparator_image [OF is_comparator_B_COMPARE, of baddr_ip4]
        is_comparator_lex [OF is_comparator_image [OF is_comparator_memcmp, of baddr_ip6]
          is_comparator_image [OF is_comparator_B_COMPARE, of baddr_port]]]])

text \<open>Trees depend on the keys of their own nodes only.\<close>

lemma bavl_cong:
  assumes "\<And>x. x \<in> set xs \<Longrightarrow> val x = val' x"
  shows "bavl cmp val T xs \<longleftrightarrow> bavl cmp val' T xs"
proof -
  have "sorted_wrt (\<lambda>x y. cmp (val x) (val y) = - 1) xs \<longleftrightarrow> sorted_wrt (\<lambda>x y. cmp (val' x) (val' y) = - 1) xs"
    by (intro iffI; erule sorted_wrt_mono_rel [rotated]) (simp_all add: assms)
  then show ?thesis by (simp add: bavl_def)
qed

end
