(* ===== verification/Addr_Props.thy ===== *)
theory Addr_Props
  imports Addr_Order "HOL-Library.List_Lexorder"
begin

text \<open>
  The comparison of addresses against a reference: the lexicographic order on a list of numbers that identifies
  the address.
\<close>

fun addr_key :: "BAddr \<Rightarrow> nat list" where
  "addr_key (BADDR_IPV4 ip port) = [1, unat (ntoh32 ip), unat (ntoh16 port)]"
| "addr_key (BADDR_IPV6 ip port) = 2 # map unat ip @ [unat (ntoh16 port)]"
| "addr_key a = [nat (baddr_type a)]"

definition order_sign :: "'a :: linorder \<Rightarrow> 'a \<Rightarrow> int" where
  "order_sign x y = (if x < y then - 1 else if x = y then 0 else 1)"

lemma memcmp_map_less:
  "length xs = length ys \<Longrightarrow> (map unat xs @ us < map unat ys @ vs) \<longleftrightarrow> memcmp xs ys < 0 \<or> memcmp xs ys = 0 \<and> us < vs"
proof (induction xs ys rule: list_induct2)
  case (Cons x xs y ys)
  then show ?case by (auto simp: word_less_nat_alt word_unat_eq_iff)
qed simp

lemma B_COMPARE_order_sign: "B_COMPARE x y = order_sign x y"
  by (auto simp: B_COMPARE_def order_sign_def)

lemma map_unat_eq: "map unat xs = map unat ys \<longleftrightarrow> xs = ys"
  by (rule inj_map_eq_map) (simp add: inj_on_def word_unat_eq_iff)

text \<open>C25. Comparing two IP addresses with their ports field by field, as the code does, is the lexicographic comparison of the lists of
  numbers (type, address, port) in host byte order, and only equal addresses compare as equal.\<close>

theorem addr_order_lexicographic:
  assumes "is_ip_addr a" and "is_ip_addr b"
  shows "BAddr_CompareOrder a b = order_sign (addr_key a) (addr_key b) \<and> (BAddr_CompareOrder a b = 0 \<longleftrightarrow> a = b)"
proof -
  have "BAddr_CompareOrder a b = order_sign (addr_key a) (addr_key b)"
    using assms
  proof (cases rule: ip_addr_cases)
    case (v4 i p j q)
    then show ?thesis by (auto simp: BAddr_cmp B_COMPARE_order_sign order_sign_def word_less_nat_alt word_unat_eq_iff [symmetric])
  next
    case (v6 i p j q)
    consider "memcmp i j = 0" | "memcmp i j = - 1" | "memcmp i j = 1" using is_comparatorD(1) [OF is_comparator_memcmp, of i j] by auto
    then show ?thesis using v6 memcmp_eq [of i j] memcmp_map_less [OF v6(3)]
      by cases (auto simp: BAddr_cmp B_COMPARE_order_sign order_sign_def word_less_nat_alt word_unat_eq_iff [symmetric] map_unat_eq)
  next
    case (v46 i p j q)
    then show ?thesis by (simp add: BAddr_cmp order_sign_def)
  next
    case (v64 i p j q)
    then show ?thesis by (simp add: BAddr_cmp order_sign_def)
  qed
  then show ?thesis using BAddr_CompareOrder_zero [OF assms] by simp
qed

theorem addr_order_lexicographic_witness:
  "BAddr_CompareOrder (BAddr_InitIPv4 (hton32 167772161) (hton16 53)) (BAddr_InitIPv4 (hton32 167772161) (hton16 443)) = - 1"
proof -
  have "order_sign (addr_key (BAddr_InitIPv4 (hton32 167772161) (hton16 53))) (addr_key (BAddr_InitIPv4 (hton32 167772161) (hton16 443))) = - 1"
    by (simp add: order_sign_def BAddr_InitIPv4_def)
  then show ?thesis
    using addr_order_lexicographic [of "BAddr_InitIPv4 (hton32 167772161) (hton16 53)" "BAddr_InitIPv4 (hton32 167772161) (hton16 443)"]
    by (simp add: BAddr_InitIPv4_def)
qed

end
