(* ===== verification/Linked_List.thy ===== *)
theory Linked_List
  imports Main
begin

text \<open>
  The doubly linked list of \<^verbatim>\<open>structure/LinkedList1.h\<close>. It is intrusive: the nodes live inside the user's objects.
  Nodes are named by their address, of type \<open>'a\<close>; the fields of all nodes are a function from addresses,
  kept beside the two ends of the list. \<open>None\<close> is the null pointer. The second part shows that the
  operations are those on a list of addresses.
\<close>

record 'a LinkedList1Node =
  ll_p :: "'a option"
  ll_n :: "'a option"

record 'a LinkedList1 =
  ll_first :: "'a option"
  ll_last :: "'a option"
  ll_node :: "'a \<Rightarrow> 'a LinkedList1Node"

text \<open>Assignments to the fields of a node.\<close>

definition ll_set_p :: "'a \<Rightarrow> 'a option \<Rightarrow> 'a LinkedList1 \<Rightarrow> 'a LinkedList1" where
  "ll_set_p a v l = l\<lparr>ll_node := (ll_node l)(a := (ll_node l a)\<lparr>ll_p := v\<rparr>)\<rparr>"

definition ll_set_n :: "'a \<Rightarrow> 'a option \<Rightarrow> 'a LinkedList1 \<Rightarrow> 'a LinkedList1" where
  "ll_set_n a v l = l\<lparr>ll_node := (ll_node l)(a := (ll_node l a)\<lparr>ll_n := v\<rparr>)\<rparr>"

text \<open>\<^verbatim>\<open>if (a) { a->n = v; } else { list->first = v; }\<close> and the same for \<^verbatim>\<open>p\<close> and \<^verbatim>\<open>last\<close>.\<close>

definition ll_link_n :: "'a option \<Rightarrow> 'a option \<Rightarrow> 'a LinkedList1 \<Rightarrow> 'a LinkedList1" where
  "ll_link_n a v l = (case a of Some x \<Rightarrow> ll_set_n x v l | None \<Rightarrow> l\<lparr>ll_first := v\<rparr>)"

definition ll_link_p :: "'a option \<Rightarrow> 'a option \<Rightarrow> 'a LinkedList1 \<Rightarrow> 'a LinkedList1" where
  "ll_link_p a v l = (case a of Some x \<Rightarrow> ll_set_p x v l | None \<Rightarrow> l\<lparr>ll_last := v\<rparr>)"

subsection \<open>Operations\<close>

definition LinkedList1_Init :: "('a \<Rightarrow> 'a LinkedList1Node) \<Rightarrow> 'a LinkedList1" where
  "LinkedList1_Init nodes = \<lparr>ll_first = None, ll_last = None, ll_node = nodes\<rparr>"

definition LinkedList1_IsEmpty :: "'a LinkedList1 \<Rightarrow> bool" where
  "LinkedList1_IsEmpty l = (ll_first l = None)"

definition LinkedList1_GetFirst :: "'a LinkedList1 \<Rightarrow> 'a option" where
  "LinkedList1_GetFirst l = ll_first l"

definition LinkedList1_GetLast :: "'a LinkedList1 \<Rightarrow> 'a option" where
  "LinkedList1_GetLast l = ll_last l"

definition LinkedList1_Prepend :: "'a LinkedList1 \<Rightarrow> 'a \<Rightarrow> 'a LinkedList1" where
  "LinkedList1_Prepend l node =
     (let l = ll_set_p node None l;
          l = ll_set_n node (ll_first l) l;
          l = ll_link_p (ll_first l) (Some node) l
      in l\<lparr>ll_first := Some node\<rparr>)"

definition LinkedList1_Append :: "'a LinkedList1 \<Rightarrow> 'a \<Rightarrow> 'a LinkedList1" where
  "LinkedList1_Append l node =
     (let l = ll_set_p node (ll_last l) l;
          l = ll_set_n node None l;
          l = ll_link_n (ll_last l) (Some node) l
      in l\<lparr>ll_last := Some node\<rparr>)"

definition LinkedList1_InsertBefore :: "'a LinkedList1 \<Rightarrow> 'a \<Rightarrow> 'a \<Rightarrow> 'a LinkedList1" where
  "LinkedList1_InsertBefore l node target =
     (let l = ll_set_p node (ll_p (ll_node l target)) l;
          l = ll_set_n node (Some target) l;
          l = ll_link_n (ll_p (ll_node l target)) (Some node) l
      in ll_set_p target (Some node) l)"

definition LinkedList1_InsertAfter :: "'a LinkedList1 \<Rightarrow> 'a \<Rightarrow> 'a \<Rightarrow> 'a LinkedList1" where
  "LinkedList1_InsertAfter l node target =
     (let l = ll_set_p node (Some target) l;
          l = ll_set_n node (ll_n (ll_node l target)) l;
          l = ll_link_p (ll_n (ll_node l target)) (Some node) l
      in ll_set_n target (Some node) l)"

definition LinkedList1_Remove :: "'a LinkedList1 \<Rightarrow> 'a \<Rightarrow> 'a LinkedList1" where
  "LinkedList1_Remove l node =
     (let l = ll_link_n (ll_p (ll_node l node)) (ll_n (ll_node l node)) l
      in ll_link_p (ll_n (ll_node l node)) (ll_p (ll_node l node)) l)"

text \<open>The nodes of \<open>ins_list\<close> are in the same memory; only its two ends are passed.\<close>

definition LinkedList1_InsertListAfter ::
  "'a LinkedList1 \<Rightarrow> 'a option \<times> 'a option \<Rightarrow> 'a option \<Rightarrow> 'a LinkedList1" where
  "LinkedList1_InsertListAfter l ins_list target =
     (case ins_list of
        (Some ifirst, Some ilast) \<Rightarrow>
          (let t_next = (case target of Some t \<Rightarrow> ll_n (ll_node l t) | None \<Rightarrow> ll_first l);
               l = ll_set_p ifirst target l;
               l = ll_set_n ilast t_next l;
               l = ll_link_n target (Some ifirst) l
           in ll_link_p t_next (Some ilast) l)
      | _ \<Rightarrow> l)"

definition LinkedList1Node_Next :: "'a LinkedList1 \<Rightarrow> 'a \<Rightarrow> 'a option" where
  "LinkedList1Node_Next l node = ll_n (ll_node l node)"

definition LinkedList1Node_Prev :: "'a LinkedList1 \<Rightarrow> 'a \<Rightarrow> 'a option" where
  "LinkedList1Node_Prev l node = ll_p (ll_node l node)"

subsection \<open>Representation of lists\<close>

fun hd_or :: "'a option \<Rightarrow> 'a list \<Rightarrow> 'a option" where
  "hd_or q [] = q"
| "hd_or q (x # _) = Some x"

definition last_or :: "'a option \<Rightarrow> 'a list \<Rightarrow> 'a option" where
  "last_or p xs = (if xs = [] then p else Some (last xs))"

lemma last_or_simps [simp]: "last_or p [] = p" "last_or p (xs @ [x]) = Some x" "last_or p (x # xs) = last_or (Some x) xs"
  "last_or p (xs @ ys) = last_or (last_or p xs) ys"
  by (simp_all add: last_or_def)

lemma hd_or_append [simp]: "hd_or q (xs @ ys) = hd_or (hd_or q ys) xs"
  by (cases xs) simp_all

text \<open>\<open>ll_linked h p xs q\<close>: the nodes \<open>xs\<close> are linked in order, with \<open>p\<close> before and \<open>q\<close> after them.\<close>

fun ll_linked :: "('a \<Rightarrow> 'a LinkedList1Node) \<Rightarrow> 'a option \<Rightarrow> 'a list \<Rightarrow> 'a option \<Rightarrow> bool" where
  "ll_linked h p [] q = True"
| "ll_linked h p (x # xs) q \<longleftrightarrow> ll_p (h x) = p \<and> ll_n (h x) = hd_or q xs \<and> ll_linked h (Some x) xs q"

definition is_list :: "'a LinkedList1 \<Rightarrow> 'a list \<Rightarrow> bool" where
  "is_list l xs \<longleftrightarrow> distinct xs \<and> ll_linked (ll_node l) None xs None \<and>
     ll_first l = hd_or None xs \<and> ll_last l = last_or None xs"

lemma ll_linked_append [simp]:
  "ll_linked h p (xs @ ys) q \<longleftrightarrow> ll_linked h p xs (hd_or q ys) \<and> ll_linked h (last_or p xs) ys q"
  by (induction xs arbitrary: p) auto

lemma ll_linked_frame [simp]: "x \<notin> set xs \<Longrightarrow> ll_linked (h(x := v)) p xs q \<longleftrightarrow> ll_linked h p xs q"
  by (induction xs arbitrary: p) auto

lemmas ll_defs = is_list_def Let_def ll_set_p_def ll_set_n_def ll_link_n_def ll_link_p_def

lemma Init_list: "is_list (LinkedList1_Init nodes) []"
  by (simp add: is_list_def LinkedList1_Init_def)

lemma IsEmpty_list: "is_list l xs \<Longrightarrow> LinkedList1_IsEmpty l \<longleftrightarrow> xs = []"
  by (cases xs) (simp_all add: is_list_def LinkedList1_IsEmpty_def)

lemma GetFirst_list: "is_list l xs \<Longrightarrow> LinkedList1_GetFirst l = hd_or None xs"
  by (simp add: is_list_def LinkedList1_GetFirst_def)

lemma GetLast_list: "is_list l xs \<Longrightarrow> LinkedList1_GetLast l = last_or None xs"
  by (simp add: is_list_def LinkedList1_GetLast_def)

lemma Prepend_list: "is_list l xs \<Longrightarrow> x \<notin> set xs \<Longrightarrow> is_list (LinkedList1_Prepend l x) (x # xs)"
  by (cases xs) (auto simp: ll_defs LinkedList1_Prepend_def)

lemma Append_list: "is_list l xs \<Longrightarrow> x \<notin> set xs \<Longrightarrow> is_list (LinkedList1_Append l x) (xs @ [x])"
  by (cases xs rule: rev_cases) (auto simp: ll_defs LinkedList1_Append_def)

lemma InsertBefore_list:
  "is_list l (us @ t # vs) \<Longrightarrow> x \<notin> set (us @ t # vs) \<Longrightarrow> is_list (LinkedList1_InsertBefore l x t) (us @ x # t # vs)"
  by (cases us rule: rev_cases) (auto simp: ll_defs LinkedList1_InsertBefore_def)

lemma InsertAfter_list:
  "is_list l (us @ t # vs) \<Longrightarrow> x \<notin> set (us @ t # vs) \<Longrightarrow> is_list (LinkedList1_InsertAfter l x t) (us @ t # x # vs)"
  by (cases vs) (auto simp: ll_defs LinkedList1_InsertAfter_def)

lemma Remove_list: "is_list l (us @ x # vs) \<Longrightarrow> is_list (LinkedList1_Remove l x) (us @ vs)"
  by (cases us rule: rev_cases; cases vs) (auto simp: ll_defs LinkedList1_Remove_def)

lemma InsertListAfter_list:
  assumes "is_list l (us @ vs)" and "ll_linked (ll_node l) None ys None" and "distinct ys" and "set ys \<inter> set (us @ vs) = {}"
  shows "is_list (LinkedList1_InsertListAfter l (hd_or None ys, last_or None ys) (last_or None us)) (us @ ys @ vs)"
proof (cases ys rule: rev_cases)
  case Nil
  then show ?thesis using assms(1) by (simp add: LinkedList1_InsertListAfter_def)
next
  case (snoc ys' z)
  note z = this
  show ?thesis
  proof (cases ys')
    case Nil
    then show ?thesis using assms z
      by (cases us rule: rev_cases; cases vs) (auto simp: ll_defs LinkedList1_InsertListAfter_def)
  next
    case (Cons y ys'')
    then show ?thesis using assms z
      by (cases us rule: rev_cases; cases vs) (auto simp: ll_defs LinkedList1_InsertListAfter_def)
  qed
qed

lemma Next_list: "is_list l (us @ x # vs) \<Longrightarrow> LinkedList1Node_Next l x = hd_or None vs"
  by (simp add: is_list_def LinkedList1Node_Next_def)

lemma Prev_list: "is_list l (us @ x # vs) \<Longrightarrow> LinkedList1Node_Prev l x = last_or None us"
  by (simp add: is_list_def LinkedList1Node_Prev_def)

lemma is_list_unique:
  assumes "is_list l xs" and "is_list l ys"
  shows "xs = ys"
proof -
  have main: "ll_linked h p us q \<Longrightarrow> ll_linked h p vs q \<Longrightarrow> hd_or q us = hd_or q vs \<Longrightarrow> q = None \<Longrightarrow> us = vs" for h p us q vs
  proof (induction us arbitrary: p vs)
    case Nil
    then show ?case by (cases vs) auto
  next
    case (Cons u us)
    then obtain ws where vs: "vs = u # ws" by (cases vs) auto
    then show ?case using Cons.IH [of "Some u" ws] Cons.prems by auto
  qed
  show ?thesis using main [of "ll_node l" None xs None ys] assms by (simp add: is_list_def)
qed

subsection \<open>The interface of a sequence of nodes\<close>

text \<open>What the users of the list rely on when they keep objects in the order of their last use: the first
  node is the least recently used one, and a node is moved to the end by removing and appending it.\<close>

locale node_sequence =
  fixes holds :: "'l \<Rightarrow> 'a list \<Rightarrow> bool" and fst_node :: "'l \<Rightarrow> 'a option"
    and app :: "'l \<Rightarrow> 'a \<Rightarrow> 'l" and del :: "'l \<Rightarrow> 'a \<Rightarrow> 'l"
  assumes seq_distinct: "holds l xs \<Longrightarrow> distinct xs"
    and seq_first: "holds l xs \<Longrightarrow> fst_node l = hd_or None xs"
    and seq_append: "holds l xs \<Longrightarrow> x \<notin> set xs \<Longrightarrow> holds (app l x) (xs @ [x])"
    and seq_remove: "holds l (us @ x # vs) \<Longrightarrow> holds (del l x) (us @ vs)"
begin

lemma seq_del:
  assumes "holds l xs" and "x \<in> set xs"
  shows "holds (del l x) (remove1 x xs)"
proof -
  obtain us vs where xs: "xs = us @ x # vs" and "x \<notin> set us" using assms(2) by (metis split_list_first)
  then have "remove1 x xs = us @ vs" by (simp add: remove1_append)
  then show ?thesis using seq_remove assms(1) xs by metis
qed

lemma seq_touch:
  assumes "holds l xs" and "x \<in> set xs"
  shows "holds (app (del l x) x) (remove1 x xs @ [x])"
  using seq_append [OF seq_del [OF assms], of x] seq_distinct [OF assms(1)] by simp

end

interpretation linked_list: node_sequence is_list LinkedList1_GetFirst LinkedList1_Append LinkedList1_Remove
  by unfold_locales (fact Append_list Remove_list GetFirst_list | simp add: is_list_def)+

subsection \<open>Property\<close>

text \<open>C26. The doubly linked list is a list of its nodes: on every well-formed list the pointer operations give a well-formed list of
  the expected sequence, in both directions, and a well-formed structure stands for one sequence only.\<close>

theorem linked_list_refines:
  assumes "is_list l xs"
  shows "(\<forall>ys. is_list l ys \<longrightarrow> ys = xs) \<and> (LinkedList1_IsEmpty l \<longleftrightarrow> xs = []) \<and>
    (xs \<noteq> [] \<longrightarrow> LinkedList1_GetFirst l = Some (hd xs) \<and> LinkedList1_GetLast l = Some (last xs)) \<and>
    (\<forall>x. x \<notin> set xs \<longrightarrow> is_list (LinkedList1_Prepend l x) (x # xs) \<and> is_list (LinkedList1_Append l x) (xs @ [x])) \<and>
    (\<forall>us t vs x. xs = us @ t # vs \<and> x \<notin> set xs \<longrightarrow>
       is_list (LinkedList1_InsertBefore l x t) (us @ x # t # vs) \<and> is_list (LinkedList1_InsertAfter l x t) (us @ t # x # vs)) \<and>
    (\<forall>us t u vs. xs = us @ t # u # vs \<longrightarrow> LinkedList1Node_Next l t = Some u \<and> LinkedList1Node_Prev l u = Some t) \<and>
    (\<forall>us t vs. xs = us @ t # vs \<longrightarrow> is_list (LinkedList1_Remove l t) (us @ vs)) \<and>
    (\<forall>us vs ins ys. xs = us @ vs \<and> is_list ins ys \<and> ll_node ins = ll_node l \<and> set ys \<inter> set xs = {} \<longrightarrow>
       is_list (LinkedList1_InsertListAfter l (ll_first ins, ll_last ins) (if us = [] then None else Some (last us))) (us @ ys @ vs))"
proof -
  have ends: "LinkedList1_GetFirst l = Some (hd xs) \<and> LinkedList1_GetLast l = Some (last xs)" if "xs \<noteq> []"
    using GetFirst_list [OF assms] GetLast_list [OF assms] that by (cases xs) (simp_all add: last_or_def)
  have links: "LinkedList1Node_Next l t = Some u \<and> LinkedList1Node_Prev l u = Some t" if "xs = us @ t # u # vs" for us t u vs
    using Next_list [of l us t "u # vs"] Prev_list [of l "us @ [t]" u vs] assms that by simp
  have ins: "is_list (LinkedList1_InsertListAfter l (ll_first ins, ll_last ins) (if us = [] then None else Some (last us))) (us @ ys @ vs)"
    if "xs = us @ vs \<and> is_list ins ys \<and> ll_node ins = ll_node l \<and> set ys \<inter> set xs = {}" for us vs ins ys
    using InsertListAfter_list [of l us vs ys] assms that by (auto simp: is_list_def last_or_def)
  have mid: "is_list (LinkedList1_InsertBefore l x t) (us @ x # t # vs) \<and> is_list (LinkedList1_InsertAfter l x t) (us @ t # x # vs)"
    if "xs = us @ t # vs \<and> x \<notin> set xs" for us t vs x
    using InsertBefore_list [of l us t vs x] InsertAfter_list [of l us t vs x] assms that by auto
  have rem: "is_list (LinkedList1_Remove l t) (us @ vs)" if "xs = us @ t # vs" for us t vs
    using Remove_list [of l us t vs] assms that by simp
  have uniq: "ys = xs" if "is_list l ys" for ys by (rule is_list_unique [OF that assms])
  show ?thesis
    by (intro conjI allI impI; (rule IsEmpty_list [OF assms] | erule uniq rem ins ends [THEN conjunct1] ends [THEN conjunct2]
      links [THEN conjunct1] links [THEN conjunct2] mid [THEN conjunct1] mid [THEN conjunct2] Prepend_list [OF assms] Append_list [OF assms]))
qed

theorem linked_list_refines_witness:
  "is_list (LinkedList1_Append (LinkedList1_Prepend (LinkedList1_Init (\<lambda>_. \<lparr>ll_p = None, ll_n = None\<rparr>)) (1 :: nat)) 2) [1, 2] \<and>
   is_list (LinkedList1_Remove (LinkedList1_Append (LinkedList1_Prepend (LinkedList1_Init (\<lambda>_. \<lparr>ll_p = None, ll_n = None\<rparr>)) (1 :: nat)) 2) 1) [2]"
proof -
  let ?l = "LinkedList1_Append (LinkedList1_Prepend (LinkedList1_Init (\<lambda>_. \<lparr>ll_p = None, ll_n = None\<rparr>)) (1 :: nat)) 2"
  have l: "is_list ?l [1, 2]"
    by (simp add: LinkedList1_Init_def LinkedList1_Prepend_def LinkedList1_Append_def ll_defs)
  then have "is_list (LinkedList1_Remove ?l 1) ([] @ [2])" using linked_list_refines [OF l] by blast
  then show ?thesis using l by simp
qed

end
