(* ===== verification/Udpgw_Client.thy ===== *)
theory Udpgw_Client
  imports Net_Addr Bavl Linked_List Flow_Nodes Fair_Queue
begin

text \<open>
  The client of the UDP gateway: the messages of \<^verbatim>\<open>protocol/udpgw_proto.h\<close> and the connection table of
  \<^verbatim>\<open>udpgw_client/UdpGwClient.c\<close>. Connections are named by their address, a positive number; a connection
  is in two AVL trees, by its addresses and by its number, and in a list in the order of last use. Its
  outgoing messages are written in place into its own framing flow, whose output is a flow of the fair
  queue. The flow of the keep-alive packets is named 0. Memory the client is given (a packet of the
  device, the buffer of the decoder) is a block and an offset in it. A handler is \<^const>\<open>None\<close> when it
  accesses memory out of bounds, follows a null pointer, does not return or fails an assertion;
  otherwise it is the new state and the calls made, in order.
\<close>

subsection \<open>Messages\<close>

definition UDPGW_CLIENT_FLAG_KEEPALIVE :: byte where "UDPGW_CLIENT_FLAG_KEEPALIVE = 1"
definition UDPGW_CLIENT_FLAG_REBIND :: byte where "UDPGW_CLIENT_FLAG_REBIND = 2"
definition UDPGW_CLIENT_FLAG_DNS :: byte where "UDPGW_CLIENT_FLAG_DNS = 4"
definition UDPGW_CLIENT_FLAG_IPV6 :: byte where "UDPGW_CLIENT_FLAG_IPV6 = 8"

record udpgw_header =
  ug_flags :: byte
  ug_conid :: u16

text \<open>The two directions of \<^verbatim>\<open>memcpy\<close> between the packed structures and bytes.\<close>

definition udpgw_header_bytes :: "udpgw_header \<Rightarrow> byte list" where
  "udpgw_header_bytes h = ug_flags h # le_bytes 2 (ug_conid h)"

definition udpgw_header_of_bytes :: "byte list \<Rightarrow> udpgw_header" where
  "udpgw_header_of_bytes d = \<lparr>ug_flags = d ! 0, ug_conid = le_word (take 2 (drop 1 d))\<rparr>"

definition udpgw_addr_ipv4_bytes :: "u32 \<Rightarrow> u16 \<Rightarrow> byte list" where
  "udpgw_addr_ipv4_bytes ip port = le_bytes 4 ip @ le_bytes 2 port"

definition udpgw_addr_ipv6_bytes :: "byte list \<Rightarrow> u16 \<Rightarrow> byte list" where
  "udpgw_addr_ipv6_bytes ip port = take 16 ip @ le_bytes 2 port"

abbreviation (input) UDPGW_HEADER :: nat where "UDPGW_HEADER \<equiv> 3"
abbreviation (input) UDPGW_ADDR_IPV4 :: nat where "UDPGW_ADDR_IPV4 \<equiv> 6"
abbreviation (input) UDPGW_ADDR_IPV6 :: nat where "UDPGW_ADDR_IPV6 \<equiv> 18"

definition udpgw_compute_mtu :: "nat \<Rightarrow> int \<Rightarrow> int" where
  "udpgw_compute_mtu size_max dgram_mtu =
     (let bs = bsize_add size_max (bsize_fromsize UDPGW_HEADER)
            (bsize_add size_max
              (bsize_max (bsize_fromsize UDPGW_ADDR_IPV4) (bsize_fromsize UDPGW_ADDR_IPV6))
              (bsize_fromint size_max dgram_mtu))
      in case bsize_toint bs of None \<Rightarrow> - 1 | Some s \<Rightarrow> s)"

subsection \<open>State\<close>

record UdpGwClient_conaddr =
  ca_local_addr :: BAddr
  ca_remote_addr :: BAddr

record UdpGwClient_connection =
  con_conaddr :: UdpGwClient_conaddr
  con_first_flags :: byte
  con_first_data :: nat
  con_first_data_len :: int
  con_conid :: u16
  con_first_job :: bool
  con_send_ppflow :: PacketProtoFlow

record UdpGwClient =
  uc_udp_mtu :: int
  uc_max_connections :: int
  uc_send_buffer_size :: int
  uc_udpgw_mtu :: int
  uc_pp_mtu :: int
  uc_connections_tree_by_conaddr :: "nat BAVL"
  uc_connections_tree_by_conid :: "nat BAVL"
  uc_connections_list :: "nat LinkedList1"
  uc_num_connections :: int
  uc_next_conid :: int
  uc_send_queue :: PacketPassFairQueue
  uc_send_monitor :: PacketPassInactivityMonitor
  uc_send_connector :: "unit PacketPassConnector"
  uc_keepalive_packet :: "byte list"
  uc_keepalive_sending :: bool
  uc_have_server :: bool
  uc_send_sender :: PacketStreamSender
  uc_recv_decoder :: PacketProtoDecoder
  uc_con :: "nat \<Rightarrow> UdpGwClient_connection"

definition uc_upd :: "nat \<Rightarrow> (UdpGwClient_connection \<Rightarrow> UdpGwClient_connection) \<Rightarrow> UdpGwClient \<Rightarrow> UdpGwClient" where
  "uc_upd c u o' = o'\<lparr>uc_con := (uc_con o')(c := u (uc_con o' c))\<rparr>"

datatype uc_out =
    UC_EndPacket nat nat              \<comment> \<open>\<^verbatim>\<open>BufferWriter_EndPacket\<close> reports a packet of this length written\<close>
  | UC_Flow nat "pb_out list"         \<comment> \<open>the calls of \<^verbatim>\<open>PacketProtoFlow_Init\<close> for a connection\<close>
  | UC_FreeFlow nat                   \<comment> \<open>\<^verbatim>\<open>PacketProtoFlow_Free\<close>\<close>
  | UC_FreeCon nat                    \<comment> \<open>\<^verbatim>\<open>free(con)\<close>\<close>
  | UC_RecvDone                       \<comment> \<open>\<^verbatim>\<open>PacketPassInterface_Done(&o->recv_if)\<close>\<close>
  | UC_Received BAddr BAddr nat int   \<comment> \<open>the user's \<^verbatim>\<open>handler_received\<close>\<close>
  | UC_ServerError                    \<comment> \<open>the user's \<^verbatim>\<open>handler_servererror\<close>\<close>
  | UC_KeepaliveSend "byte list"      \<comment> \<open>\<^verbatim>\<open>PacketPassInterface_Sender_Send\<close> on \<^verbatim>\<open>keepalive_if\<close>\<close>
  | UC_Connector "unit ppc_out list"  \<comment> \<open>the calls of the connector\<close>
  | UC_Decoder "ppd_out list"         \<comment> \<open>the calls of the decoder\<close>
  | UC_FreeSender | UC_FreeDecoder | UC_FreeRecvIf | UC_FreeMonitor | UC_FreeConnector

text \<open>The environment of a call: the addresses and blocks \<^verbatim>\<open>malloc\<close> returns, and \<^verbatim>\<open>SIZE_MAX\<close>.\<close>

record uc_env =
  ue_con :: "nat option"
  ue_malloc :: "nat \<Rightarrow> byte list option"
  ue_size_max :: nat

type_synonym uc_result = "(UdpGwClient \<times> uc_out list) option"

subsection \<open>Lookup\<close>

definition uint16_comparator :: "u16 \<Rightarrow> u16 \<Rightarrow> int" where
  "uint16_comparator v1 v2 = B_COMPARE v1 v2"

definition conaddr_comparator :: "UdpGwClient_conaddr \<Rightarrow> UdpGwClient_conaddr \<Rightarrow> int" where
  "conaddr_comparator v1 v2 =
     (let r = BAddr_CompareOrder (ca_remote_addr v1) (ca_remote_addr v2)
      in if r \<noteq> 0 then r else BAddr_CompareOrder (ca_local_addr v1) (ca_local_addr v2))"

abbreviation (input) key_conaddr :: "UdpGwClient \<Rightarrow> nat \<Rightarrow> UdpGwClient_conaddr" where
  "key_conaddr o' c \<equiv> con_conaddr (uc_con o' c)"

abbreviation (input) key_conid :: "UdpGwClient \<Rightarrow> nat \<Rightarrow> u16" where
  "key_conid o' c \<equiv> con_conid (uc_con o' c)"

definition find_connection_by_conaddr :: "UdpGwClient \<Rightarrow> UdpGwClient_conaddr \<Rightarrow> nat option option" where
  "find_connection_by_conaddr o' conaddr =
     BAVL_LookupExact (\<lambda>v c. conaddr_comparator v (key_conaddr o' c)) (uc_connections_tree_by_conaddr o') conaddr"

definition find_connection_by_conid :: "UdpGwClient \<Rightarrow> u16 \<Rightarrow> nat option option" where
  "find_connection_by_conid o' conid =
     BAVL_LookupExact (\<lambda>v c. uint16_comparator v (key_conid o' c)) (uc_connections_tree_by_conid o') conid"

partial_function (option) find_unused_conid_loop :: "UdpGwClient \<Rightarrow> (UdpGwClient \<times> u16) option" where
  "find_unused_conid_loop o' = do {
     r \<leftarrow> find_connection_by_conid o' (word_of_int (uc_next_conid o'));
     case r of
       None \<Rightarrow> Some (o', word_of_int (uc_next_conid o'))
     | Some _ \<Rightarrow>
         find_unused_conid_loop (o'\<lparr>uc_next_conid :=
           if uc_next_conid o' = uc_max_connections o' - 1 then 0 else uc_next_conid o' + 1\<rparr>) }"

definition find_unused_conid :: "UdpGwClient \<Rightarrow> (UdpGwClient \<times> u16) option" where
  "find_unused_conid o' = do {
     c_assert (uc_num_connections o' < uc_max_connections o');
     find_unused_conid_loop o' }"

subsection \<open>Connections\<close>

text \<open>\<^verbatim>\<open>ASSERT_EXECUTE(BAVL_Insert(...))\<close>\<close>

definition tree_insert :: "(nat \<Rightarrow> nat \<Rightarrow> int) \<Rightarrow> nat BAVL \<Rightarrow> nat \<Rightarrow> nat BAVL option" where
  "tree_insert cmp T c = do { (ok, _, T) \<leftarrow> BAVL_Insert cmp T c; c_assert ok; Some T }"

definition connection_init ::
  "uc_env \<Rightarrow> UdpGwClient \<Rightarrow> UdpGwClient_conaddr \<Rightarrow> byte \<Rightarrow> nat \<Rightarrow> int \<Rightarrow> uc_result" where
  "connection_init env o' conaddr flags data data_len = do {
     c_assert (uc_num_connections o' < uc_max_connections o');
     r \<leftarrow> find_connection_by_conaddr o' conaddr;
     c_assert (r = None);
     c_assert (0 \<le> data_len \<and> data_len \<le> uc_udp_mtu o');
     case ue_con env of
       None \<Rightarrow> Some (o', [])
     | Some c \<Rightarrow> do {
         let o' = uc_upd c (\<lambda>con. con\<lparr>con_conaddr := conaddr, con_first_flags := flags,
                                     con_first_data := data, con_first_data_len := data_len\<rparr>) o';
         (o', conid) \<leftarrow> find_unused_conid o';
         let o' = uc_upd c (con_conid_update (\<lambda>_. conid)) o';
         let o' = uc_upd c (con_first_job_update (\<lambda>_. True)) o';
         q \<leftarrow> PacketPassFairQueueFlow_Init (uc_send_queue o') c;
         case PacketProtoFlow_Init (ue_size_max env) (ue_malloc env) (nat (uc_udpgw_mtu o')) (nat (uc_send_buffer_size o')) of
           None \<Rightarrow> do {
             q \<leftarrow> PacketPassFairQueueFlow_Free q c;
             let o' = uc_upd c (con_first_job_update (\<lambda>_. False)) o';
             Some (o'\<lparr>uc_send_queue := q\<rparr>, [UC_FreeCon c]) }
         | Some (flow, outs) \<Rightarrow> do {
             let o' = uc_upd c (con_send_ppflow_update (\<lambda>_. flow)) (o'\<lparr>uc_send_queue := q\<rparr>);
             t1 \<leftarrow> tree_insert (\<lambda>a b. conaddr_comparator (key_conaddr o' a) (key_conaddr o' b))
                    (uc_connections_tree_by_conaddr o') c;
             t2 \<leftarrow> tree_insert (\<lambda>a b. uint16_comparator (key_conid o' a) (key_conid o' b))
                    (uc_connections_tree_by_conid o') c;
             Some (o'\<lparr>uc_connections_tree_by_conaddr := t1, uc_connections_tree_by_conid := t2,
                      uc_connections_list := LinkedList1_Append (uc_connections_list o') c,
                      uc_num_connections := uc_num_connections o' + 1\<rparr>, [UC_Flow c outs]) } } }"

definition connection_free :: "UdpGwClient \<Rightarrow> nat \<Rightarrow> uc_result" where
  "connection_free o' c = do {
     let q = uc_send_queue o';
     c_assert (fq_freeing q \<or> fq_sending_flow q \<noteq> Some c);
     let o' = o'\<lparr>uc_num_connections := uc_num_connections o' - 1,
                uc_connections_list := LinkedList1_Remove (uc_connections_list o') c\<rparr>;
     t2 \<leftarrow> BAVL_Remove (uc_connections_tree_by_conid o') c;
     t1 \<leftarrow> BAVL_Remove (uc_connections_tree_by_conaddr o') c;
     q \<leftarrow> PacketPassFairQueueFlow_Free q c;
     let o' = uc_upd c (con_first_job_update (\<lambda>_. False)) o';
     Some (o'\<lparr>uc_connections_tree_by_conid := t2, uc_connections_tree_by_conaddr := t1, uc_send_queue := q\<rparr>,
           [UC_FreeFlow c, UC_FreeCon c]) }"

text \<open>The packet is written at \<open>out\<close>, in the memory of the connection's packet buffer.\<close>

definition connection_send ::
  "byte list \<Rightarrow> UdpGwClient \<Rightarrow> nat \<Rightarrow> byte \<Rightarrow> nat \<Rightarrow> int \<Rightarrow> uc_result" where
  "connection_send mem o' c flags data data_len = do {
     c_assert (0 \<le> data_len \<and> data_len \<le> uc_udp_mtu o');
     let flow = con_send_ppflow (uc_con o' c);
     let remote = ca_remote_addr (con_conaddr (uc_con o' c));
     case BufferWriter_StartPacket (ppf_ainput flow) of
       None \<Rightarrow> Some (o', [])
     | Some out \<Rightarrow> do {
         let flags = (if baddr_type remote = 2 then flags OR UDPGW_CLIENT_FLAG_IPV6 else flags);
         let buf = pb_buf (ppf_buffer flow);
         m \<leftarrow> write_at (cb_mem buf) out
                (udpgw_header_bytes \<lparr>ug_flags = ltoh8 flags, ug_conid = ltoh16 (con_conid (uc_con o' c))\<rparr>);
         let out_pos = UDPGW_HEADER;
         (m, out_pos) \<leftarrow> (case remote of
              BADDR_IPV4 ip port \<Rightarrow>
                map_option (\<lambda>m. (m, out_pos + UDPGW_ADDR_IPV4)) (write_at m (out + out_pos) (udpgw_addr_ipv4_bytes ip port))
            | BADDR_IPV6 ip port \<Rightarrow>
                map_option (\<lambda>m. (m, out_pos + UDPGW_ADDR_IPV6)) (write_at m (out + out_pos) (udpgw_addr_ipv6_bytes ip port))
            | _ \<Rightarrow> Some (m, out_pos));
         bs \<leftarrow> read_at mem data (nat data_len);
         m \<leftarrow> write_at m (out + out_pos) bs;
         let out_pos = out_pos + nat data_len;
         let (w, n) = BufferWriter_EndPacket (ppf_ainput flow) out_pos;
         let flow = flow\<lparr>ppf_ainput := w, ppf_buffer := (ppf_buffer flow)\<lparr>pb_buf := buf\<lparr>cb_mem := m\<rparr>\<rparr>\<rparr>;
         Some (uc_upd c (con_send_ppflow_update (\<lambda>_. flow)) o', [UC_EndPacket c n]) } }"

text \<open>Run when the job is taken from the queue of pending jobs, which unsets it.\<close>

definition connection_first_job_handler :: "byte list \<Rightarrow> UdpGwClient \<Rightarrow> nat \<Rightarrow> uc_result" where
  "connection_first_job_handler mem o' c =
     (let con = uc_con o' c
      in connection_send mem o' c (UDPGW_CLIENT_FLAG_REBIND OR con_first_flags con) (con_first_data con) (con_first_data_len con))"

definition reuse_connection :: "UdpGwClient \<Rightarrow> UdpGwClient_conaddr \<Rightarrow> (UdpGwClient \<times> nat) option" where
  "reuse_connection o' conaddr = do {
     r \<leftarrow> find_connection_by_conaddr o' conaddr;
     c_assert (r = None);
     c_assert (uc_num_connections o' > 0);
     c \<leftarrow> LinkedList1_GetFirst (uc_connections_list o');
     t \<leftarrow> BAVL_Remove (uc_connections_tree_by_conaddr o') c;
     let o' = uc_upd c (con_conaddr_update (\<lambda>_. conaddr)) o';
     t \<leftarrow> tree_insert (\<lambda>a b. conaddr_comparator (key_conaddr o' a) (key_conaddr o' b)) t c;
     Some (o'\<lparr>uc_connections_tree_by_conaddr := t\<rparr>, c) }"

text \<open>Remove a connection from the list and append it.\<close>

definition uc_touch :: "UdpGwClient \<Rightarrow> nat \<Rightarrow> UdpGwClient" where
  "uc_touch o' c =
     o'\<lparr>uc_connections_list := LinkedList1_Append (LinkedList1_Remove (uc_connections_list o') c) c\<rparr>"

subsection \<open>Handlers\<close>

definition decoder_handler_error :: "UdpGwClient \<Rightarrow> uc_result" where
  "decoder_handler_error o' = do { c_assert (uc_have_server o'); Some (o', [UC_ServerError]) }"

text \<open>The address of a message: \<^const>\<open>None\<close> inside when it is missing; else the address and the number of its bytes.\<close>

definition recv_address :: "byte list \<Rightarrow> byte \<Rightarrow> nat \<Rightarrow> int \<Rightarrow> (BAddr \<times> nat) option option" where
  "recv_address mem flags data data_len =
     (if flags AND UDPGW_CLIENT_FLAG_IPV6 \<noteq> 0
      then if data_len < int UDPGW_ADDR_IPV6 then Some None
           else do {
             a \<leftarrow> read_at mem data UDPGW_ADDR_IPV6;
             Some (Some (BAddr_InitIPv6 (take 16 a) (le_word (drop 16 a)), UDPGW_ADDR_IPV6)) }
      else if data_len < int UDPGW_ADDR_IPV4 then Some None
           else do {
             a \<leftarrow> read_at mem data UDPGW_ADDR_IPV4;
             Some (Some (BAddr_InitIPv4 (le_word (take 4 a)) (le_word (drop 4 a)), UDPGW_ADDR_IPV4)) })"

definition recv_interface_handler_send :: "byte list \<Rightarrow> UdpGwClient \<Rightarrow> nat \<Rightarrow> int \<Rightarrow> uc_result" where
  "recv_interface_handler_send mem o' data data_len = do {
     c_assert (uc_have_server o');
     c_assert (0 \<le> data_len \<and> data_len \<le> uc_udpgw_mtu o');
     if data_len < int UDPGW_HEADER then Some (o', [UC_RecvDone])
     else do {
       h \<leftarrow> read_at mem data UDPGW_HEADER;
       let header = udpgw_header_of_bytes h;
       let data = data + UDPGW_HEADER;
       let data_len = data_len - int UDPGW_HEADER;
       let flags = ltoh8 (ug_flags header);
       let conid = ltoh16 (ug_conid header);
       a \<leftarrow> recv_address mem flags data data_len;
       case a of
         None \<Rightarrow> Some (o', [UC_RecvDone])
       | Some (remote_addr, n) \<Rightarrow> do {
           let data = data + n;
           let data_len = data_len - int n;
           if data_len > uc_udp_mtu o' then Some (o', [UC_RecvDone])
           else do {
             r \<leftarrow> find_connection_by_conid o' conid;
             case r of
               None \<Rightarrow> Some (o', [UC_RecvDone])
             | Some c \<Rightarrow>
                 if BAddr_CompareOrder (ca_remote_addr (con_conaddr (uc_con o' c))) remote_addr \<noteq> 0
                 then Some (o', [UC_RecvDone])
                 else let o' = uc_touch o' c; ca = con_conaddr (uc_con o' c)
                      in Some (o', [UC_RecvDone, UC_Received (ca_local_addr ca) (ca_remote_addr ca) data data_len]) } } } }"

definition send_monitor_handler :: "UdpGwClient \<Rightarrow> UdpGwClient \<times> uc_out list" where
  "send_monitor_handler o' =
     (if uc_keepalive_sending o' then (o', [])
      else (o'\<lparr>uc_keepalive_sending := True\<rparr>, [UC_KeepaliveSend (uc_keepalive_packet o')]))"

definition keepalive_if_handler_done :: "UdpGwClient \<Rightarrow> UdpGwClient option" where
  "keepalive_if_handler_done o' = do {
     c_assert (uc_keepalive_sending o');
     Some (o'\<lparr>uc_keepalive_sending := False\<rparr>) }"

subsection \<open>Interface\<close>

definition free_server :: "UdpGwClient \<Rightarrow> UdpGwClient \<times> uc_out list" where
  "free_server o' =
     (o'\<lparr>uc_send_connector := PacketPassConnector_DisconnectOutput (uc_send_connector o')\<rparr>,
      [UC_FreeSender, UC_FreeDecoder, UC_FreeRecvIf])"

text \<open>The objects that the initialisation does not set (the connections, the sender, the decoder and the nodes
  of the trees, the list and the queue) hold what was in the memory before: \<open>junk\<close>. The outer
  \<^const>\<open>None\<close> is a failed assertion, the inner one the result 0.\<close>

definition UdpGwClient_Init :: "nat \<Rightarrow> int \<Rightarrow> int \<Rightarrow> int \<Rightarrow> UdpGwClient \<Rightarrow> UdpGwClient option option" where
  "UdpGwClient_Init size_max udp_mtu max_connections send_buffer_size junk = do {
     c_assert (udp_mtu \<ge> 0);
     c_assert (udpgw_compute_mtu size_max udp_mtu \<ge> 0);
     c_assert (udpgw_compute_mtu size_max udp_mtu \<le> PACKETPROTO_MAXPAYLOAD);
     c_assert (max_connections > 0);
     c_assert (send_buffer_size > 0);
     let udpgw_mtu = udpgw_compute_mtu size_max udp_mtu;
     let pp_mtu = udpgw_mtu + int PP_HEADER;
     case PacketPassFairQueue_Init pp_mtu False 1 (fq_flow (uc_send_queue junk)) of
       None \<Rightarrow> Some None
     | Some q \<Rightarrow> do {
         q \<leftarrow> PacketPassFairQueueFlow_Init q 0;
         Some (Some
           \<lparr>uc_udp_mtu = udp_mtu,
            uc_max_connections = (if max_connections > UINT16_MAX + 1 then UINT16_MAX + 1 else max_connections),
            uc_send_buffer_size = send_buffer_size, uc_udpgw_mtu = udpgw_mtu, uc_pp_mtu = pp_mtu,
            uc_connections_tree_by_conaddr = BAVL_Init (b_node (uc_connections_tree_by_conaddr junk)),
            uc_connections_tree_by_conid = BAVL_Init (b_node (uc_connections_tree_by_conid junk)),
            uc_connections_list = LinkedList1_Init (ll_node (uc_connections_list junk)),
            uc_num_connections = 0, uc_next_conid = 0, uc_send_queue = q,
            uc_send_monitor = PacketPassInactivityMonitor_Init False True,
            uc_send_connector = PacketPassConnector_Init pp_mtu,
            uc_keepalive_packet = le_bytes 2 (3 :: u16) @
              udpgw_header_bytes \<lparr>ug_flags = UDPGW_CLIENT_FLAG_KEEPALIVE, ug_conid = 0\<rparr>,
            uc_keepalive_sending = False, uc_have_server = False,
            uc_send_sender = uc_send_sender junk, uc_recv_decoder = uc_recv_decoder junk, uc_con = uc_con junk\<rparr>) } }"

text \<open>The loop of \<^verbatim>\<open>UdpGwClient_Free\<close>.\<close>

partial_function (option) free_connections_loop :: "UdpGwClient \<Rightarrow> uc_out list \<Rightarrow> uc_result" where
  "free_connections_loop o' outs =
     (if LinkedList1_IsEmpty (uc_connections_list o') then Some (o', outs)
      else do {
        c \<leftarrow> LinkedList1_GetFirst (uc_connections_list o');
        (o', os) \<leftarrow> connection_free o' c;
        free_connections_loop o' (outs @ os) })"

definition UdpGwClient_Free :: "UdpGwClient \<Rightarrow> uc_result" where
  "UdpGwClient_Free o' = do {
     let o' = o'\<lparr>uc_send_queue := PacketPassFairQueue_PrepareFree (uc_send_queue o')\<rparr>;
     (o', outs) \<leftarrow> free_connections_loop o' [];
     let (o', os) = (if uc_have_server o' then free_server o' else (o', []));
     q \<leftarrow> PacketPassFairQueueFlow_Free (uc_send_queue o') 0;
     q \<leftarrow> PacketPassFairQueue_Free q;
     Some (o'\<lparr>uc_send_queue := q, uc_send_monitor := PacketPassInactivityMonitor_Free (uc_send_monitor o')\<rparr>,
           outs @ os @ [UC_FreeMonitor, UC_FreeConnector]) }"

definition UdpGwClient_SubmitPacket ::
  "uc_env \<Rightarrow> byte list \<Rightarrow> UdpGwClient \<Rightarrow> BAddr \<Rightarrow> BAddr \<Rightarrow> bool \<Rightarrow> nat \<Rightarrow> int \<Rightarrow> uc_result" where
  "UdpGwClient_SubmitPacket env mem o' local_addr remote_addr is_dns data data_len = do {
     c_assert (baddr_type local_addr = 1 \<or> baddr_type local_addr = 2);
     c_assert (baddr_type remote_addr = 1 \<or> baddr_type remote_addr = 2);
     c_assert (0 \<le> data_len \<and> data_len \<le> uc_udp_mtu o');
     let conaddr = \<lparr>ca_local_addr = local_addr, ca_remote_addr = remote_addr\<rparr>;
     con \<leftarrow> find_connection_by_conaddr o' conaddr;
     let flags = (if is_dns then 0 OR UDPGW_CLIENT_FLAG_DNS else 0);
     (o', con, flags) \<leftarrow> (if con = None \<and> uc_num_connections o' = uc_max_connections o'
        then do { (o', c) \<leftarrow> reuse_connection o' conaddr; Some (o', Some c, flags OR UDPGW_CLIENT_FLAG_REBIND) }
        else Some (o', con, flags));
     case con of
       None \<Rightarrow> connection_init env o' conaddr flags data data_len
     | Some c \<Rightarrow> connection_send mem (uc_touch o' c) c flags data data_len }"

text \<open>The inner \<^const>\<open>None\<close> is the result 0.\<close>

definition UdpGwClient_ConnectServer :: "(nat \<Rightarrow> byte list option) \<Rightarrow> UdpGwClient \<Rightarrow> (UdpGwClient \<times> uc_out list) option option" where
  "UdpGwClient_ConnectServer malloc o' = do {
     c_assert (\<not> uc_have_server o');
     case PacketProtoDecoder_Init malloc (nat (uc_udpgw_mtu o')) of
       None \<Rightarrow> Some None
     | Some (decoder, outs) \<Rightarrow> do {
         let (connector, os) = PacketPassConnector_ConnectOutput (uc_send_connector o') ();
         Some (Some (o'\<lparr>uc_recv_decoder := decoder, uc_send_sender := PacketStreamSender_Init,
                       uc_send_connector := connector, uc_have_server := True\<rparr>,
                     [UC_Decoder outs, UC_Connector os])) } }"

definition UdpGwClient_DisconnectServer :: "UdpGwClient \<Rightarrow> uc_result" where
  "UdpGwClient_DisconnectServer o' = do {
     c_assert (uc_have_server o');
     let (o', outs) = free_server o';
     Some (o'\<lparr>uc_have_server := False\<rparr>, outs) }"

end
