(* ===== verification/Socks_Udpgw.thy ===== *)
theory Socks_Udpgw
  imports Socks_Client Udpgw_Client
begin

text \<open>
  The UDP gateway client over SOCKS, \<^verbatim>\<open>tun2socks/SocksUdpGwClient.c\<close>: it keeps a SOCKS connection to the gateway, connects
  the UDP gateway client to it while it is up, and retries after every failure when a timer expires. The
  handlers are \<^const>\<open>None\<close> when an assertion fails.
\<close>

record SocksUdpGwClient =
  su_udp_mtu :: int
  su_socks_server_addr :: BAddr
  su_auth_info :: "auth_info list"
  su_remote_udpgw_addr :: BAddr
  su_udpgw_client :: UdpGwClient
  su_reconnect_timer :: bool        \<comment> \<open>the timer is running\<close>
  su_have_socks :: bool
  su_socks_client :: BSocksClient
  su_socks_up :: bool

datatype su_out =
    SU_Udpgw "uc_out list"          \<comment> \<open>the calls of the UDP gateway client\<close>
  | SU_Socks socks_out              \<comment> \<open>a call of the SOCKS client on its connection\<close>
  | SU_FreeSocks "socks_free list"  \<comment> \<open>\<^verbatim>\<open>BSocksClient_Free\<close>\<close>
  | SU_SetTimer                     \<comment> \<open>\<^verbatim>\<open>BReactor_SetTimer\<close>\<close>
  | SU_RemoveTimer                  \<comment> \<open>\<^verbatim>\<open>BReactor_RemoveTimer\<close>\<close>
  | SU_Received BAddr BAddr nat int \<comment> \<open>the user's \<^verbatim>\<open>handler_received\<close>\<close>

text \<open>The platform under the SOCKS client, and \<^verbatim>\<open>malloc\<close>.\<close>

record su_env =
  se_sc :: sc_env
  se_malloc :: "nat \<Rightarrow> byte list option"

type_synonym su_result = "(SocksUdpGwClient \<times> su_out list) option"

definition free_socks :: "SocksUdpGwClient \<Rightarrow> su_result" where
  "free_socks o' = do {
     c_assert (su_have_socks o');
     (o', outs) \<leftarrow> (if su_socks_up o'
       then do {
         (u, outs) \<leftarrow> UdpGwClient_DisconnectServer (su_udpgw_client o');
         Some (o'\<lparr>su_udpgw_client := u\<rparr>, [SU_Udpgw outs]) }
       else Some (o', []));
     Some (o'\<lparr>su_have_socks := False\<rparr>, outs @ [SU_FreeSocks (BSocksClient_Free (su_socks_client o'))]) }"

text \<open>\<^verbatim>\<open>BReactor_SetTimer(o->reactor, &o->reconnect_timer)\<close>\<close>

definition su_set_timer :: "SocksUdpGwClient \<Rightarrow> SocksUdpGwClient \<times> su_out list" where
  "su_set_timer o' = (o'\<lparr>su_reconnect_timer := True\<rparr>, [SU_SetTimer])"

definition try_connect :: "su_env \<Rightarrow> SocksUdpGwClient \<Rightarrow> su_result" where
  "try_connect env o' = do {
     c_assert (\<not> su_have_socks o');
     c_assert (\<not> su_reconnect_timer o');
     case BSocksClient_Init (se_sc env) (su_auth_info o') (su_remote_udpgw_addr o') of
       None \<Rightarrow> Some (su_set_timer o')
     | Some s \<Rightarrow> Some (o'\<lparr>su_socks_client := s, su_have_socks := True, su_socks_up := False\<rparr>, []) }"

text \<open>The reactor stops the timer before it calls the handler.\<close>

definition reconnect_timer_handler :: "su_env \<Rightarrow> SocksUdpGwClient \<Rightarrow> su_result" where
  "reconnect_timer_handler env o' = do {
     c_assert (\<not> su_have_socks o');
     try_connect env o' }"

definition free_and_retry :: "SocksUdpGwClient \<Rightarrow> su_result" where
  "free_and_retry o' = do {
     (o', outs) \<leftarrow> free_socks o';
     let (o', os) = su_set_timer o';
     Some (o', outs @ os) }"

definition socks_client_handler :: "su_env \<Rightarrow> SocksUdpGwClient \<Rightarrow> socks_event \<Rightarrow> su_result" where
  "socks_client_handler env o' event = do {
     c_assert (su_have_socks o');
     case event of
       EVENT_UP \<Rightarrow> do {
         c_assert (\<not> su_socks_up o');
         r \<leftarrow> UdpGwClient_ConnectServer (se_malloc env) (su_udpgw_client o');
         case r of
           None \<Rightarrow> free_and_retry o'
         | Some (u, outs) \<Rightarrow> Some (o'\<lparr>su_udpgw_client := u, su_socks_up := True\<rparr>, [SU_Udpgw outs]) }
     | EVENT_ERROR \<Rightarrow> free_and_retry o'
     | EVENT_ERROR_CLOSED \<Rightarrow> free_and_retry o' }"

definition udpgw_handler_servererror :: "SocksUdpGwClient \<Rightarrow> su_result" where
  "udpgw_handler_servererror o' = do {
     c_assert (su_have_socks o');
     c_assert (su_socks_up o');
     free_and_retry o' }"

definition udpgw_handler_received ::
  "SocksUdpGwClient \<Rightarrow> BAddr \<Rightarrow> BAddr \<Rightarrow> nat \<Rightarrow> int \<Rightarrow> SocksUdpGwClient \<times> su_out list" where
  "udpgw_handler_received o' local_addr remote_addr data data_len =
     (o', [SU_Received local_addr remote_addr data data_len])"

text \<open>What the initialisation does not set is what was in the memory before: \<open>old\<close>. The inner \<^const>\<open>None\<close> is the result 0.\<close>

definition SocksUdpGwClient_Init ::
  "su_env \<Rightarrow> SocksUdpGwClient \<Rightarrow> int \<Rightarrow> int \<Rightarrow> int \<Rightarrow> BAddr \<Rightarrow> auth_info list \<Rightarrow> BAddr \<Rightarrow>
   (SocksUdpGwClient \<times> su_out list) option option" where
  "SocksUdpGwClient_Init env old udp_mtu max_connections send_buffer_size socks_server_addr auth_info remote_udpgw_addr = do {
     c_assert (\<not> BAddr_IsInvalid socks_server_addr);
     c_assert (baddr_type remote_udpgw_addr = 1 \<or> baddr_type remote_udpgw_addr = 2);
     r \<leftarrow> UdpGwClient_Init (env_size_max (se_sc env)) udp_mtu max_connections send_buffer_size (su_udpgw_client old);
     case r of
       None \<Rightarrow> Some None
     | Some u \<Rightarrow> do {
         r \<leftarrow> try_connect env
            \<lparr>su_udp_mtu = udp_mtu, su_socks_server_addr = socks_server_addr, su_auth_info = auth_info,
             su_remote_udpgw_addr = remote_udpgw_addr, su_udpgw_client = u, su_reconnect_timer = False,
             su_have_socks = False, su_socks_client = su_socks_client old, su_socks_up = su_socks_up old\<rparr>;
         Some (Some r) } }"

definition SocksUdpGwClient_Free :: "SocksUdpGwClient \<Rightarrow> su_result" where
  "SocksUdpGwClient_Free o' = do {
     (o', outs) \<leftarrow> (if su_have_socks o' then free_socks o' else Some (o', []));
     let o' = o'\<lparr>su_reconnect_timer := False\<rparr>;
     (u, os) \<leftarrow> UdpGwClient_Free (su_udpgw_client o');
     Some (o'\<lparr>su_udpgw_client := u\<rparr>, outs @ [SU_RemoveTimer, SU_Udpgw os]) }"

definition SocksUdpGwClient_SubmitPacket ::
  "uc_env \<Rightarrow> byte list \<Rightarrow> SocksUdpGwClient \<Rightarrow> BAddr \<Rightarrow> BAddr \<Rightarrow> bool \<Rightarrow> nat \<Rightarrow> int \<Rightarrow> su_result" where
  "SocksUdpGwClient_SubmitPacket env mem o' local_addr remote_addr is_dns data data_len = do {
     (u, outs) \<leftarrow> UdpGwClient_SubmitPacket env mem (su_udpgw_client o') local_addr remote_addr is_dns data data_len;
     Some (o'\<lparr>su_udpgw_client := u\<rparr>, [SU_Udpgw outs]) }"

end
