(* ===== verification/Tun_Device.thy ===== *)
theory Tun_Device
  imports Ip_Proto Socks_Udpgw
begin

text \<open>
  The device side of \<^verbatim>\<open>tun2socks/tun2socks.c\<close>: what is done with a packet read from the tun device (the DNS redirection with its
  table of connections, the UDP path to the gateway client, the rest to lwIP), and how packets are written to
  the device. A handler is \<^const>\<open>None\<close> when it accesses memory out of bounds, follows a null pointer, does
  not return or fails an assertion.
\<close>

subsection \<open>State\<close>

record Connection =
  cn_local_addr :: BAddr
  cn_remote_addr :: BAddr
  cn_port :: u16
  cn_count :: int

text \<open>The global variables these functions use. \<open>ts_udpgw_remote\<close> is the address of the option
  \<^verbatim>\<open>udpgw_remote_server_addr\<close>, if it is given; \<open>ts_dns_init\<close> is the static variable \<^verbatim>\<open>init\<close> of \<^verbatim>\<open>process_device_dns_packet\<close>.\<close>

record Tun2socks =
  ts_udpgw_remote :: "BAddr option"
  ts_transparent_dns :: bool
  ts_netif_ipaddr :: u32
  ts_netif_ip6addr :: bool
  ts_mtu :: int
  ts_udp_mtu :: int
  ts_device_write_buf :: "byte list"
  ts_udpgw_client :: SocksUdpGwClient
  ts_connections_tree :: "nat BAVL"
  ts_con :: "nat \<Rightarrow> Connection"
  ts_dns_init :: bool
  ts_quitting :: bool

datatype td_out =
    TD_Done                  \<comment> \<open>\<^verbatim>\<open>PacketPassInterface_Done(&device_read_interface)\<close>\<close>
  | TD_Send "byte list"      \<comment> \<open>\<^verbatim>\<open>BTap_Send\<close>\<close>
  | TD_FreeCon nat           \<comment> \<open>\<^verbatim>\<open>free(con)\<close>\<close>
  | TD_Udpgw "su_out list"   \<comment> \<open>the calls of the UDP gateway client\<close>
  | TD_Input "byte list"     \<comment> \<open>the packet passed to the netif's input function\<close>
  | TD_IpInput "byte list" | TD_Ip6Input "byte list"
  | TD_PbufFree

text \<open>The environment of a call: the address \<^verbatim>\<open>malloc\<close> returns for a connection, the environment of the gateway client, the
  value of the uninitialised variable \<^verbatim>\<open>is_dns\<close>, whether \<^verbatim>\<open>pbuf_alloc\<close> succeeds and whether lwIP takes the packet.\<close>

record td_env =
  tn_con :: "nat option"
  tn_udpgw :: uc_env
  tn_is_dns :: bool
  tn_pbuf :: bool
  tn_input :: bool

subsection \<open>Start and end\<close>

text \<open>The part of \<^verbatim>\<open>run\<close> that sets up this state, before the event loop: \<open>mtu\<close> is the MTU of the device, \<open>buf\<close> what \<^verbatim>\<open>BAlloc\<close> returned.
  \<^const>\<open>None\<close> is \<^verbatim>\<open>goto fail4a\<close>. The call that would create \<^verbatim>\<open>udpgw_client\<close> is commented out in the code, so the client keeps the value it has.\<close>

definition device_udp_mtu :: "bool \<Rightarrow> int \<Rightarrow> int" where
  "device_udp_mtu ip6 mtu =
     (let udp_mtu = mtu - int (sizeof_ipv4_header + sizeof_udp_header);
          udp_ip6_mtu = mtu - int (sizeof_ipv6_header + sizeof_udp_header);
          udp_mtu = (if ip6 \<and> udp_mtu < udp_ip6_mtu then udp_ip6_mtu else udp_mtu)
      in if udp_mtu < 0 then 0 else udp_mtu)"

definition device_init :: "nat \<Rightarrow> Tun2socks \<Rightarrow> int \<Rightarrow> byte list \<Rightarrow> Tun2socks option" where
  "device_init size_max s mtu buf =
     (let s = s\<lparr>ts_quitting := False, ts_mtu := mtu\<rparr>
      in if ts_udpgw_remote s \<noteq> None \<and> \<not> ts_transparent_dns s
         then (let udp_mtu = device_udp_mtu (ts_netif_ip6addr s) mtu;
                   udpgw_mtu = udpgw_compute_mtu size_max udp_mtu
               in if udpgw_mtu < 0 \<or> udpgw_mtu > PACKETPROTO_MAXPAYLOAD then None
                  else Some (s\<lparr>ts_udp_mtu := udp_mtu, ts_device_write_buf := buf\<rparr>))
         else Some (s\<lparr>ts_device_write_buf := buf\<rparr>))"

definition terminate :: "Tun2socks \<Rightarrow> Tun2socks option" where
  "terminate s = do { c_assert (\<not> ts_quitting s); Some (s\<lparr>ts_quitting := True\<rparr>) }"

definition device_error_handler :: "Tun2socks \<Rightarrow> Tun2socks option" where
  "device_error_handler s = do { c_assert (\<not> ts_quitting s); terminate s }"

subsection \<open>The table of DNS connections\<close>

definition port_comparator :: "u16 \<Rightarrow> u16 \<Rightarrow> int" where
  "port_comparator v1 v2 = (if v1 = v2 then 0 else if v1 > v2 then 1 else - 1)"

definition find_connection :: "Tun2socks \<Rightarrow> u16 \<Rightarrow> nat option option" where
  "find_connection s port =
     BAVL_LookupExact (\<lambda>v c. port_comparator v (cn_port (ts_con s c))) (ts_connections_tree s) port"

definition remove_connection :: "Tun2socks \<Rightarrow> nat \<Rightarrow> (Tun2socks \<times> td_out list) option" where
  "remove_connection s c =
     (let con = (ts_con s c)\<lparr>cn_count := cn_count (ts_con s c) - 1\<rparr>;
          s = s\<lparr>ts_con := (ts_con s)(c := con)\<rparr>
      in if cn_count con \<le> 0
         then do {
           t \<leftarrow> BAVL_Remove (ts_connections_tree s) c;
           Some (s\<lparr>ts_connections_tree := t\<rparr>, [TD_FreeCon c]) }
         else Some (s, []))"

text \<open>The result of \<^verbatim>\<open>malloc\<close> is not checked: without memory the assignments go through a null pointer.\<close>

definition insert_connection :: "td_env \<Rightarrow> Tun2socks \<Rightarrow> BAddr \<Rightarrow> BAddr \<Rightarrow> u16 \<Rightarrow> Tun2socks option" where
  "insert_connection env s local_addr remote_addr port = do {
     con \<leftarrow> find_connection s port;
     case con of
       Some c \<Rightarrow> Some (s\<lparr>ts_con := (ts_con s)(c := (ts_con s c)\<lparr>cn_count := cn_count (ts_con s c) + 1\<rparr>)\<rparr>)
     | None \<Rightarrow> do {
         c \<leftarrow> tn_con env;
         let s = s\<lparr>ts_con := (ts_con s)(c := \<lparr>cn_local_addr = local_addr, cn_remote_addr = remote_addr,
                                            cn_port = port, cn_count = 1\<rparr>)\<rparr>;
         (_, _, t) \<leftarrow> BAVL_Insert (\<lambda>a b. port_comparator (cn_port (ts_con s a)) (cn_port (ts_con s b)))
           (ts_connections_tree s) c;
         Some (s\<lparr>ts_connections_tree := t\<rparr>) } }"

partial_function (option) free_connections :: "Tun2socks \<Rightarrow> Tun2socks option" where
  "free_connections s =
     (if BAVL_IsEmpty (ts_connections_tree s) then Some s
      else do {
        r \<leftarrow> BAVL_GetLast (ts_connections_tree s);
        c \<leftarrow> r;
        t \<leftarrow> BAVL_Remove (ts_connections_tree s) c;
        free_connections (s\<lparr>ts_connections_tree := t\<rparr>) })"

subsection \<open>Parsing\<close>

text \<open>\<^verbatim>\<open>addr.ipv4.ip\<close> and \<^verbatim>\<open>addr.ipv4.port\<close>: the IPv4 member of the union, whatever the type is; a global that holds no IP address is all zero.\<close>

fun baddr_ipv4 :: "BAddr \<Rightarrow> u32 \<times> u16" where
  "baddr_ipv4 (BADDR_IPV4 ip port) = (ip, port)"
| "baddr_ipv4 (BADDR_IPV6 ip port) = (le_word (take 4 ip), le_word (take 2 (drop 4 ip)))"
| "baddr_ipv4 _ = (0, 0)"

definition ip_version :: "byte list \<Rightarrow> byte" where
  "ip_version pkt = (if length pkt > 0 then drop_bit 4 (pkt ! 0) else 0)"

text \<open>A UDP packet with correct checksums: its headers, the checksum of the UDP header set to zero as the code
  does, and the place of its payload. \<^const>\<open>None\<close> is \<^verbatim>\<open>goto fail\<close>.\<close>

definition parse_udp4 :: "byte list \<Rightarrow> (ipv4_header \<times> udp_header \<times> nat \<times> nat) option" where
  "parse_udp4 pkt =
     (if length pkt < sizeof_ipv4_header \<or> pkt ! 9 \<noteq> IPV4_PROTOCOL_UDP then None
      else do {
        (iph, off, len) \<leftarrow> ipv4_check pkt;
        (udph, uoff, ulen) \<leftarrow> udp_check (take len (drop off pkt));
        let checksum_in_packet = udp_checksum_field udph;
        let udph = udph\<lparr>udp_checksum_field := 0\<rparr>;
        let checksum_computed = udp_checksum udph (take ulen (drop (off + uoff) pkt))
              (ip_source_address iph) (ip_destination_address iph);
        if checksum_in_packet \<noteq> checksum_computed then None
        else Some (iph, udph, off + uoff, ulen) })"

definition parse_udp6 :: "byte list \<Rightarrow> (ipv6_header \<times> udp_header \<times> nat \<times> nat) option" where
  "parse_udp6 pkt =
     (if length pkt < sizeof_ipv6_header \<or> pkt ! 6 \<noteq> IPV6_NEXT_UDP then None
      else do {
        (iph, off, len) \<leftarrow> ipv6_check pkt;
        (udph, uoff, ulen) \<leftarrow> udp_check (take len (drop off pkt));
        let checksum_in_packet = udp_checksum_field udph;
        let udph = udph\<lparr>udp_checksum_field := 0\<rparr>;
        let checksum_computed = udp_ip6_checksum udph (take ulen (drop (off + uoff) pkt))
              (ip6_source_address iph) (ip6_destination_address iph);
        if checksum_in_packet \<noteq> checksum_computed then None
        else Some (iph, udph, off + uoff, ulen) })"

subsection \<open>Writing to the device\<close>

text \<open>The three copies into \<^verbatim>\<open>device_write_buf\<close>.\<close>

definition write_packet :: "Tun2socks \<Rightarrow> byte list \<Rightarrow> udp_header \<Rightarrow> byte list \<Rightarrow> Tun2socks option" where
  "write_packet s iph udph data = do {
     m \<leftarrow> write_at (ts_device_write_buf s) 0 iph;
     m \<leftarrow> write_at m (length iph) (udp_header_bytes udph);
     m \<leftarrow> write_at m (length iph + sizeof_udp_header) data;
     Some (s\<lparr>ts_device_write_buf := m\<rparr>) }"

text \<open>\<^verbatim>\<open>BTap_Send(&device, device_write_buf, packet_length)\<close>\<close>

definition send_packet :: "Tun2socks \<Rightarrow> int \<Rightarrow> td_out list option" where
  "send_packet s packet_length = do {
     c_assert (0 \<le> packet_length \<and> packet_length \<le> ts_mtu s);
     bs \<leftarrow> read_at (ts_device_write_buf s) 0 (nat packet_length);
     Some [TD_Send bs] }"

subsection \<open>Packets of the device\<close>

text \<open>The Boolean is the result of the C function.\<close>

definition process_device_dns_packet ::
  "td_env \<Rightarrow> byte list \<Rightarrow> Tun2socks \<Rightarrow> nat \<Rightarrow> int \<Rightarrow> (bool \<times> Tun2socks \<times> td_out list) option" where
  "process_device_dns_packet env mem s data data_len = do {
     c_assert (data_len \<ge> 0);
     pkt \<leftarrow> read_at mem data (nat data_len);
     let fail = Some (False, s, []);
     case ts_udpgw_remote s of
       None \<Rightarrow> fail
     | Some server \<Rightarrow>
         if ip_version pkt \<noteq> 4 then fail
         else case parse_udp4 pkt of
           None \<Rightarrow> fail
         | Some (iph, udph, off, len) \<Rightarrow> do {
             let payload = take len (drop off pkt);
             let to_dns = (udp_dest_port udph = hton16 53);
             let from_dns = (udp_source_port udph = snd (baddr_ipv4 server));
             if \<not> to_dns \<and> \<not> from_dns then fail
             else do {
               r \<leftarrow> (if to_dns
                 then do {
                   let s = (if ts_dns_init s then s
                            else s\<lparr>ts_dns_init := True,
                                   ts_connections_tree := BAVL_Init (b_node (ts_connections_tree s))\<rparr>);
                   s \<leftarrow> insert_connection env s
                     (BAddr_InitIPv4 (ip_source_address iph) (udp_source_port udph))
                     (BAddr_InitIPv4 (ip_destination_address iph) (udp_dest_port udph)) (udp_source_port udph);
                   Some (Some (s, iph\<lparr>ip_destination_address := fst (baddr_ipv4 server),
                                      ip_source_address := ts_netif_ipaddr s\<rparr>,
                               udph\<lparr>udp_dest_port := snd (baddr_ipv4 server)\<rparr>, [])) }
                 else if \<not> ts_dns_init s then Some None
                 else do {
                   con \<leftarrow> find_connection s (udp_dest_port udph);
                   case con of
                     None \<Rightarrow> Some None
                   | Some c \<Rightarrow> do {
                       let remote = baddr_ipv4 (cn_remote_addr (ts_con s c));
                       let local = baddr_ipv4 (cn_local_addr (ts_con s c));
                       (s, outs) \<leftarrow> remove_connection s c;
                       Some (Some (s, iph\<lparr>ip_source_address := fst remote, ip_destination_address := fst local\<rparr>,
                                   udph\<lparr>udp_source_port := snd remote\<rparr>, outs)) } });
               case r of
                 None \<Rightarrow> fail
               | Some (s, iph, udph, outs) \<Rightarrow> do {
                   let iph = iph\<lparr>ip_checksum := hton16 0\<rparr>;
                   let iph = iph\<lparr>ip_checksum := ipv4_checksum iph []\<rparr>;
                   let udph = udph\<lparr>udp_checksum_field := hton16 0\<rparr>;
                   let udph = udph\<lparr>udp_checksum_field :=
                         udp_checksum udph payload (ip_source_address iph) (ip_destination_address iph)\<rparr>;
                   s \<leftarrow> write_packet s (ipv4_header_bytes iph) udph payload;
                   os \<leftarrow> send_packet s (int (sizeof_ipv4_header + sizeof_udp_header + len));
                   Some (True, s, outs @ os) } } } }"

definition process_device_udp_packet ::
  "td_env \<Rightarrow> byte list \<Rightarrow> Tun2socks \<Rightarrow> nat \<Rightarrow> int \<Rightarrow> (bool \<times> Tun2socks \<times> td_out list) option" where
  "process_device_udp_packet env mem s data data_len = do {
     c_assert (data_len \<ge> 0);
     pkt \<leftarrow> read_at mem data (nat data_len);
     let fail = Some (False, s, []);
     let r = (if ts_udpgw_remote s = None \<or> ts_transparent_dns s then None
              else if ip_version pkt = 4
              then do {
                (iph, udph, off, len) \<leftarrow> parse_udp4 pkt;
                Some (BAddr_InitIPv4 (ip_source_address iph) (udp_source_port udph),
                      BAddr_InitIPv4 (ip_destination_address iph) (udp_dest_port udph), tn_is_dns env, off, len) }
              else if ip_version pkt = 6 \<and> ts_netif_ip6addr s
              then do {
                (iph, udph, off, len) \<leftarrow> parse_udp6 pkt;
                Some (BAddr_InitIPv6 (ip6_source_address iph) (udp_source_port udph),
                      BAddr_InitIPv6 (ip6_destination_address iph) (udp_dest_port udph), False, off, len) }
              else None);
     case r of
       None \<Rightarrow> fail
     | Some (local_addr, remote_addr, is_dns, off, len) \<Rightarrow>
         if int len > ts_udp_mtu s then fail
         else do {
           (u, outs) \<leftarrow> SocksUdpGwClient_SubmitPacket (tn_udpgw env) mem (ts_udpgw_client s)
             local_addr remote_addr is_dns (data + off) (int len);
           Some (True, s\<lparr>ts_udpgw_client := u\<rparr>, [TD_Udpgw outs]) } }"

definition device_read_handler_send ::
  "td_env \<Rightarrow> byte list \<Rightarrow> Tun2socks \<Rightarrow> nat \<Rightarrow> int \<Rightarrow> (Tun2socks \<times> td_out list) option" where
  "device_read_handler_send env mem s data data_len = do {
     c_assert (\<not> ts_quitting s);
     c_assert (data_len \<ge> 0);
     (done, s, outs1) \<leftarrow> process_device_dns_packet env mem s data data_len;
     if done then Some (s, TD_Done # outs1)
     else do {
       (done, s, outs2) \<leftarrow> process_device_udp_packet env mem s data data_len;
       if done then Some (s, TD_Done # outs1 @ outs2)
       else if data_len > UINT16_MAX then Some (s, TD_Done # outs1 @ outs2)
       else if \<not> tn_pbuf env then Some (s, TD_Done # outs1 @ outs2)
       else do {
         pkt \<leftarrow> read_at mem data (nat data_len);
         Some (s, TD_Done # outs1 @ outs2 @ [TD_Input pkt] @ (if tn_input env then [] else [TD_PbufFree])) } } }"

subsection \<open>Packets of the gateway\<close>

definition udpgw_client_handler_received ::
  "Tun2socks \<Rightarrow> BAddr \<Rightarrow> BAddr \<Rightarrow> byte list \<Rightarrow> nat \<Rightarrow> int \<Rightarrow> (Tun2socks \<times> td_out list) option" where
  "udpgw_client_handler_received s local_addr remote_addr mem data data_len = do {
     c_assert (ts_udpgw_remote s \<noteq> None);
     c_assert (baddr_type local_addr = 1 \<or> baddr_type local_addr = 2);
     c_assert (baddr_type local_addr = baddr_type remote_addr);
     c_assert (data_len \<ge> 0);
     case (local_addr, remote_addr) of
       (BADDR_IPV4 lip lport, BADDR_IPV4 rip rport) \<Rightarrow>
         if data_len > UINT16_MAX - int (sizeof_ipv4_header + sizeof_udp_header) \<or>
            data_len > ts_mtu s - int (sizeof_ipv4_header + sizeof_udp_header)
         then Some (s, [])
         else do {
           payload \<leftarrow> read_at mem data (nat data_len);
           let iph = \<lparr>version4_ihl4 = IPV4_MAKE_VERSION_IHL sizeof_ipv4_header, ip_ds = hton8 0,
                 ip_total_length = hton16 (of_int (int (sizeof_ipv4_header + sizeof_udp_header) + data_len)),
                 ip_identification = hton16 0, flags3_fragmentoffset13 = hton16 0, ip_ttl = hton8 64,
                 ip_protocol = hton8 IPV4_PROTOCOL_UDP, ip_checksum = hton16 0,
                 ip_source_address = rip, ip_destination_address = lip\<rparr>;
           let iph = iph\<lparr>ip_checksum := ipv4_checksum iph []\<rparr>;
           let udph = \<lparr>udp_source_port = rport, udp_dest_port = lport,
                 udp_length = hton16 (of_int (int sizeof_udp_header + data_len)), udp_checksum_field = hton16 0\<rparr>;
           let udph = udph\<lparr>udp_checksum_field :=
                 udp_checksum udph payload (ip_source_address iph) (ip_destination_address iph)\<rparr>;
           s \<leftarrow> write_packet s (ipv4_header_bytes iph) udph payload;
           outs \<leftarrow> send_packet s (int (sizeof_ipv4_header + sizeof_udp_header) + data_len);
           Some (s, outs) }
     | (BADDR_IPV6 lip lport, BADDR_IPV6 rip rport) \<Rightarrow>
         if \<not> ts_netif_ip6addr s then Some (s, [])
         else if data_len > UINT16_MAX - int sizeof_udp_header \<or>
            data_len > ts_mtu s - int (sizeof_ipv6_header + sizeof_udp_header)
         then Some (s, [])
         else do {
           payload \<leftarrow> read_at mem data (nat data_len);
           let iph = \<lparr>version4_tc4 = hton8 (push_bit 4 6), tc4_fl4 = hton8 0, ip6_fl = hton16 0,
                 ip6_payload_length = hton16 (of_int (int sizeof_udp_header + data_len)),
                 ip6_next_header = hton8 IPV6_NEXT_UDP, ip6_hop_limit = hton8 64,
                 ip6_source_address = rip, ip6_destination_address = lip\<rparr>;
           let udph = \<lparr>udp_source_port = rport, udp_dest_port = lport,
                 udp_length = hton16 (of_int (int sizeof_udp_header + data_len)), udp_checksum_field = hton16 0\<rparr>;
           let udph = udph\<lparr>udp_checksum_field :=
                 udp_ip6_checksum udph payload (ip6_source_address iph) (ip6_destination_address iph)\<rparr>;
           s \<leftarrow> write_packet s (ipv6_header_bytes iph) udph payload;
           outs \<leftarrow> send_packet s (int (sizeof_ipv6_header + sizeof_udp_header) + data_len);
           Some (s, outs) }
     | _ \<Rightarrow> None }"

subsection \<open>Packets of lwIP\<close>

text \<open>A packet of lwIP is a chain of buffers. The loop copies it behind the first \<open>len\<close> bytes of \<^verbatim>\<open>device_write_buf\<close>; the inner \<^const>\<open>None\<close> is \<^verbatim>\<open>goto out\<close>.\<close>

fun netif_copy :: "Tun2socks \<Rightarrow> int \<Rightarrow> byte list list \<Rightarrow> (Tun2socks \<times> int option) option" where
  "netif_copy s len [] = Some (s, Some len)"
| "netif_copy s len (p # ps) =
     (if int (length p) > ts_mtu s - len then Some (s, None)
      else do {
        m \<leftarrow> write_at (ts_device_write_buf s) (nat len) p;
        netif_copy (s\<lparr>ts_device_write_buf := m\<rparr>) (len + int (length p)) ps })"

text \<open>Sending may run pending jobs afterwards (\<^verbatim>\<open>SYNC_COMMIT\<close>); they are separate transitions.\<close>

definition common_netif_output :: "Tun2socks \<Rightarrow> byte list list \<Rightarrow> (Tun2socks \<times> td_out list) option" where
  "common_netif_output s p =
     (if ts_quitting s then Some (s, [])
      else case p of
        [] \<Rightarrow> None
      | [payload] \<Rightarrow> if int (length payload) > ts_mtu s then Some (s, []) else Some (s, [TD_Send payload])
      | _ \<Rightarrow> do {
          (s, r) \<leftarrow> netif_copy s 0 p;
          case r of
            None \<Rightarrow> Some (s, [])
          | Some len \<Rightarrow> do { outs \<leftarrow> send_packet s len; Some (s, outs) } })"

definition netif_input_func :: "Tun2socks \<Rightarrow> byte list \<Rightarrow> td_out list" where
  "netif_input_func s p =
     (if ip_version p = 4 then [TD_IpInput p]
      else if ip_version p = 6 \<and> ts_netif_ip6addr s then [TD_Ip6Input p]
      else [TD_PbufFree])"

end
