(* ===== verification/Udpgw_Facts.thy ===== *)
theory Udpgw_Facts
  imports Udpgw_Client Addr_Order Proto_Flow_Facts Fair_Queue_Facts
begin

text \<open>
  The connection table of the UDP gateway client: lookups, the allocation of connection numbers, creation, reuse
  and removal of connections keep the two trees, the list and the fair queue in agreement. The locales
  of the tree and of the list carry the proofs.
\<close>

subsection \<open>Comparators\<close>

lemma is_comparator_conid: "is_comparator uint16_comparator"
  using is_comparator_B_COMPARE [where 'k = u16] by (simp add: uint16_comparator_def [abs_def])

lemma is_comparator_conaddr: "is_comparator conaddr_comparator"
proof -
  have eq: "conaddr_comparator = cmp_lex (\<lambda>a b. BAddr_CompareOrder (ca_remote_addr a) (ca_remote_addr b))
      (\<lambda>a b. BAddr_CompareOrder (ca_local_addr a) (ca_local_addr b))"
    by (intro ext) (simp add: conaddr_comparator_def cmp_lex_def Let_def)
  show ?thesis unfolding eq
    by (rule is_comparator_lex [OF is_comparator_image [OF is_comparator_BAddr, of ca_remote_addr]
          is_comparator_image [OF is_comparator_BAddr, of ca_local_addr]])
qed

lemma conid_same [simp]: "uint16_comparator a b = 0 \<longleftrightarrow> a = b"
  by (simp add: uint16_comparator_def B_COMPARE_zero)

definition is_conaddr :: "UdpGwClient_conaddr \<Rightarrow> bool" where
  "is_conaddr a \<longleftrightarrow> is_ip_addr (ca_local_addr a) \<and> is_ip_addr (ca_remote_addr a)"

lemma conaddr_same:
  assumes "is_conaddr a" and "is_conaddr b"
  shows "conaddr_comparator a b = 0 \<longleftrightarrow> a = b"
  using assms BAddr_CompareOrder_zero
  by (cases a; cases b) (auto simp: conaddr_comparator_def is_conaddr_def Let_def)

subsection \<open>The tables\<close>

definition holds_tree :: "('v \<Rightarrow> 'v \<Rightarrow> int) \<Rightarrow> ('a \<Rightarrow> 'v) \<Rightarrow> 'a BAVL \<Rightarrow> 'a set \<Rightarrow> bool" where
  "holds_tree cmp val T S \<longleftrightarrow> (\<exists>ys. bavl cmp val T ys \<and> set ys = S)"

lemma holds_tree_cong:
  assumes "\<And>x. x \<in> S \<Longrightarrow> val x = val' x"
  shows "holds_tree cmp val T S \<longleftrightarrow> holds_tree cmp val' T S"
  using bavl_cong [of _ val val'] assms unfolding holds_tree_def by metis

lemma holds_tree_lookup:
  assumes "holds_tree cmp val T S" and "is_comparator cmp"
  shows "(\<exists>x\<in>S. cmp v (val x) = 0 \<and> BAVL_LookupExact (\<lambda>v c. cmp v (val c)) T v = Some (Some x)) \<or>
    (\<forall>x\<in>S. cmp v (val x) \<noteq> 0) \<and> BAVL_LookupExact (\<lambda>v c. cmp v (val c)) T v = Some None"
  using assms bavl_index.look_key [of cmp val T _ v] unfolding holds_tree_def by auto

lemma holds_tree_insert:
  assumes "holds_tree cmp val T S" and "is_comparator cmp" and "\<forall>x\<in>S. cmp (val a) (val x) \<noteq> 0"
  shows "\<exists>T'. tree_insert (\<lambda>a b. cmp (val a) (val b)) T a = Some T' \<and> holds_tree cmp val T' (insert a S)"
proof -
  obtain ys where ys: "bavl cmp val T ys" "set ys = S" using assms(1) unfolding holds_tree_def by blast
  obtain T' r us vs where "BAVL_Insert (\<lambda>a b. cmp (val a) (val b)) T a = Some (True, r, T')" "ys = us @ vs" "bavl cmp val T' (us @ a # vs)"
    using bavl_index.ins_new [of cmp val T ys a] assms(2,3) ys by auto
  then show ?thesis using ys(2) unfolding tree_insert_def holds_tree_def
    by (intro exI [of _ T'] conjI exI [of _ "us @ a # vs"]) auto
qed

lemma holds_tree_remove:
  assumes "holds_tree cmp val T S" and "is_comparator cmp" and "a \<in> S"
  shows "\<exists>T'. BAVL_Remove T a = Some T' \<and> holds_tree cmp val T' (S - {a})"
proof -
  obtain ys where ys: "bavl cmp val T ys" "set ys = S" using assms(1) unfolding holds_tree_def by blast
  obtain us vs where s: "ys = us @ a # vs" using assms(3) ys(2) by (metis split_list)
  obtain T' where T': "BAVL_Remove T a = Some T'" "bavl cmp val T' (us @ vs)"
    using bavl_index.del_node [of cmp val T us a vs] assms(2) ys(1) s by auto
  have "set (us @ vs) = S - {a}" using bavl_distinct [OF ys(1)] ys(2) s by auto
  then show ?thesis using T' unfolding holds_tree_def by blast
qed

lemma holds_tree_inj:
  assumes "holds_tree cmp val T S" and "is_comparator cmp" and "x \<in> S" "y \<in> S" "cmp (val x) (val y) = 0"
  shows "x = y"
proof (rule ccontr)
  assume ne: "x \<noteq> y"
  obtain ys where ys: "sorted_wrt (\<lambda>x y. cmp (val x) (val y) = - 1) ys" "set ys = S"
    using assms(1) unfolding holds_tree_def bavl_def by blast
  obtain i j where ij: "i < length ys" "j < length ys" "ys ! i = x" "ys ! j = y"
    using assms(3,4) ys(2) by (metis in_set_conv_nth)
  then have "i < j \<or> j < i" using ne by (metis linorder_neqE_nat)
  then have "cmp (val x) (val y) = - 1 \<or> cmp (val y) (val x) = - 1"
    using sorted_wrt_nth_less [OF ys(1)] ij by metis
  then show False using assms(5) is_comparatorD(2) [OF assms(2), of "val y" "val x"] by auto
qed

lemma holds_tree_empty: "holds_tree cmp val (BAVL_Init nodes) {}"
  using bavl_init unfolding holds_tree_def by fastforce

text \<open>The connections \<open>xs\<close>, in the order of last use.\<close>

definition uc_table :: "UdpGwClient \<Rightarrow> nat list \<Rightarrow> bool" where
  "uc_table o' xs \<longleftrightarrow>
     holds_tree conaddr_comparator (\<lambda>c. con_conaddr (uc_con o' c)) (uc_connections_tree_by_conaddr o') (set xs) \<and>
     holds_tree uint16_comparator (\<lambda>c. con_conid (uc_con o' c)) (uc_connections_tree_by_conid o') (set xs) \<and>
     is_list (uc_connections_list o') xs \<and> uc_num_connections o' = int (length xs) \<and>
     int (length xs) \<le> uc_max_connections o' \<and> 0 < uc_max_connections o' \<and> uc_max_connections o' \<le> 65536 \<and>
     0 \<le> uc_next_conid o' \<and> uc_next_conid o' < uc_max_connections o' \<and>
     (\<forall>c\<in>set xs. uint (con_conid (uc_con o' c)) < uc_max_connections o' \<and> is_conaddr (con_conaddr (uc_con o' c)))"

lemma uc_table_distinct: "uc_table o' xs \<Longrightarrow> distinct xs"
  by (simp add: uc_table_def is_list_def)

lemma find_by_conaddr:
  assumes "uc_table o' xs" and "is_conaddr ca"
  obtains (found) c where "c \<in> set xs" "con_conaddr (uc_con o' c) = ca" "find_connection_by_conaddr o' ca = Some (Some c)"
  | (none) "\<forall>c\<in>set xs. con_conaddr (uc_con o' c) \<noteq> ca" "find_connection_by_conaddr o' ca = Some None"
proof -
  have "\<forall>c\<in>set xs. conaddr_comparator ca (con_conaddr (uc_con o' c)) = 0 \<longleftrightarrow> con_conaddr (uc_con o' c) = ca"
    using assms conaddr_same by (auto simp: uc_table_def)
  moreover have "holds_tree conaddr_comparator (\<lambda>c. con_conaddr (uc_con o' c)) (uc_connections_tree_by_conaddr o') (set xs)"
    using assms(1) by (simp add: uc_table_def)
  from holds_tree_lookup [OF this is_comparator_conaddr, of ca]
  have "(\<exists>x\<in>set xs. conaddr_comparator ca (con_conaddr (uc_con o' x)) = 0 \<and> find_connection_by_conaddr o' ca = Some (Some x)) \<or>
      (\<forall>x\<in>set xs. conaddr_comparator ca (con_conaddr (uc_con o' x)) \<noteq> 0) \<and> find_connection_by_conaddr o' ca = Some None"
    by (simp add: find_connection_by_conaddr_def)
  ultimately show thesis using found none by blast
qed

lemma find_by_conid:
  assumes "uc_table o' xs"
  obtains (found) c where "c \<in> set xs" "con_conid (uc_con o' c) = k" "find_connection_by_conid o' k = Some (Some c)"
  | (none) "\<forall>c\<in>set xs. con_conid (uc_con o' c) \<noteq> k" "find_connection_by_conid o' k = Some None"
proof -
  have "holds_tree uint16_comparator (\<lambda>c. con_conid (uc_con o' c)) (uc_connections_tree_by_conid o') (set xs)"
    using assms(1) by (simp add: uc_table_def)
  from holds_tree_lookup [OF this is_comparator_conid, of k]
  have "(\<exists>x\<in>set xs. k = con_conid (uc_con o' x) \<and> find_connection_by_conid o' k = Some (Some x)) \<or>
      (\<forall>x\<in>set xs. k \<noteq> con_conid (uc_con o' x)) \<and> find_connection_by_conid o' k = Some None"
    by (simp add: find_connection_by_conid_def)
  then show thesis using found none by metis
qed

lemma uc_conid_inj:
  assumes "uc_table o' xs"
  shows "inj_on (\<lambda>c. con_conid (uc_con o' c)) (set xs)" "inj_on (\<lambda>c. con_conaddr (uc_con o' c)) (set xs)"
proof -
  have t: "holds_tree uint16_comparator (\<lambda>c. con_conid (uc_con o' c)) (uc_connections_tree_by_conid o') (set xs)"
    "holds_tree conaddr_comparator (\<lambda>c. con_conaddr (uc_con o' c)) (uc_connections_tree_by_conaddr o') (set xs)"
    using assms by (simp_all add: uc_table_def)
  show "inj_on (\<lambda>c. con_conid (uc_con o' c)) (set xs)"
    using holds_tree_inj [OF t(1) is_comparator_conid] by (auto simp: inj_on_def)
  show "inj_on (\<lambda>c. con_conaddr (uc_con o' c)) (set xs)"
  proof (rule inj_onI)
    fix x y assume xy: "x \<in> set xs" "y \<in> set xs" "con_conaddr (uc_con o' x) = con_conaddr (uc_con o' y)"
    then have "conaddr_comparator (con_conaddr (uc_con o' x)) (con_conaddr (uc_con o' y)) = 0"
      using assms conaddr_same by (auto simp: uc_table_def)
    then show "x = y" using holds_tree_inj [OF t(2) is_comparator_conaddr] xy by blast
  qed
qed

subsection \<open>Connection numbers\<close>

definition unused :: "UdpGwClient \<Rightarrow> nat list \<Rightarrow> int \<Rightarrow> bool" where
  "unused o' xs k \<longleftrightarrow> (\<forall>c\<in>set xs. uint (con_conid (uc_con o' c)) \<noteq> k)"

lemma unused_exists:
  assumes "uc_table o' xs" and "int (length xs) < uc_max_connections o'"
  shows "\<exists>k. 0 \<le> k \<and> k < uc_max_connections o' \<and> unused o' xs k"
proof (rule ccontr)
  assume "\<not> ?thesis"
  then have "{0..<uc_max_connections o'} \<subseteq> (\<lambda>c. uint (con_conid (uc_con o' c))) ` set xs"
    by (fastforce simp: unused_def)
  then have "card {0..<uc_max_connections o'} \<le> card ((\<lambda>c. uint (con_conid (uc_con o' c))) ` set xs)"
    by (intro card_mono) simp_all
  also have "\<dots> \<le> length xs" using card_image_le card_length le_trans finite_set by metis
  finally show False using assms(2) by simp
qed

lemma find_unused_conid_loop_ok:
  assumes "uc_table o' xs" and "unused o' xs ((uc_next_conid o' + int d) mod uc_max_connections o')"
  shows "\<exists>k. find_unused_conid_loop o' = Some (o'\<lparr>uc_next_conid := k\<rparr>, word_of_int k) \<and> 0 \<le> k \<and>
    k < uc_max_connections o' \<and> unused o' xs k"
  using assms
proof (induction d arbitrary: o')
  case 0
  then have n: "0 \<le> uc_next_conid o'" "uc_next_conid o' < uc_max_connections o'" "uc_max_connections o' \<le> 65536" by (auto simp: uc_table_def)
  then have u: "unused o' xs (uc_next_conid o')" "uint (word_of_int (uc_next_conid o') :: u16) = uc_next_conid o'"
    using 0 by (auto simp: uint_word_of_int)
  show ?case using 0(1)
  proof (cases rule: find_by_conid [of o' xs "word_of_int (uc_next_conid o')"])
    case (found c)
    then show ?thesis using u by (auto simp: unused_def)
  next
    case none
    then have "find_unused_conid_loop o' = Some (o'\<lparr>uc_next_conid := uc_next_conid o'\<rparr>, word_of_int (uc_next_conid o'))"
      by (subst find_unused_conid_loop.simps) simp
    then show ?thesis using n u(1) by blast
  qed
next
  case (Suc d)
  let ?n = "uc_next_conid o'" and ?m = "uc_max_connections o'"
  have n: "0 \<le> ?n" "?n < ?m" "?m \<le> 65536" using Suc.prems(1) by (auto simp: uc_table_def)
  let ?o = "o'\<lparr>uc_next_conid := if ?n = ?m - 1 then 0 else ?n + 1\<rparr>"
  have t: "uc_table ?o xs" using Suc.prems(1) n by (auto simp: uc_table_def)
  have "unused ?o xs ((uc_next_conid ?o + int d) mod uc_max_connections ?o)"
  proof -
    have "uc_next_conid ?o = (?n + 1) mod ?m" using n by (cases "?n = ?m - 1") auto
    then have "(uc_next_conid ?o + int d) mod ?m = (?n + 1 + int d) mod ?m" by (simp only: mod_add_left_eq)
    then show ?thesis using Suc.prems(2) by (simp add: unused_def add.assoc)
  qed
  then obtain k where IH: "find_unused_conid_loop ?o = Some (o'\<lparr>uc_next_conid := k\<rparr>, word_of_int k)" "0 \<le> k" "k < ?m" "unused o' xs k"
    using Suc.IH [OF t] by (auto simp: unused_def)
  show ?case using Suc.prems(1)
  proof (cases rule: find_by_conid [of o' xs "word_of_int ?n"])
    case (found c)
    then have "find_unused_conid_loop o' = Some (o'\<lparr>uc_next_conid := k\<rparr>, word_of_int k)"
      using IH(1) by (subst find_unused_conid_loop.simps) simp
    then show ?thesis using IH(2-4) by blast
  next
    case none
    have "unused o' xs ?n" unfolding unused_def
    proof
      fix c assume "c \<in> set xs"
      then have "con_conid (uc_con o' c) \<noteq> word_of_int ?n" using none(1) by blast
      then show "uint (con_conid (uc_con o' c)) \<noteq> ?n" by (metis word_of_int_uint)
    qed
    moreover have "find_unused_conid_loop o' = Some (o'\<lparr>uc_next_conid := ?n\<rparr>, word_of_int ?n)"
      using none(2) by (subst find_unused_conid_loop.simps) simp
    ultimately show ?thesis using n by blast
  qed
qed

lemma find_unused_conid_ok:
  assumes "uc_table o' xs" and "int (length xs) < uc_max_connections o'"
  shows "\<exists>k. find_unused_conid o' = Some (o'\<lparr>uc_next_conid := k\<rparr>, word_of_int k) \<and> 0 \<le> k \<and>
    k < uc_max_connections o' \<and> unused o' xs k"
proof -
  obtain k where k: "0 \<le> k" "k < uc_max_connections o'" "unused o' xs k" using unused_exists [OF assms] by blast
  have n: "uc_num_connections o' = int (length xs)" using assms(1) by (simp add: uc_table_def)
  let ?d = "nat ((k - uc_next_conid o') mod uc_max_connections o')"
  have "(uc_next_conid o' + int ?d) mod uc_max_connections o' = k"
    using k by (simp add: mod_add_right_eq)
  then show ?thesis
    using find_unused_conid_loop_ok [OF assms(1), of ?d] k(3) assms(2) n by (simp add: find_unused_conid_def)
qed

end
