(* ===== verification/Udpgw_Table.thy ===== *)
theory Udpgw_Table
  imports Udpgw_Facts
begin

text \<open>
  The operations of the UDP gateway client on its connections: touching, creating, reusing and removing a
  connection, and writing a message, with the invariant that ties the tables, the fair queue and the
  framing flows together.
\<close>

subsection \<open>Messages\<close>

fun udpgw_addr_bytes :: "BAddr \<Rightarrow> byte list" where
  "udpgw_addr_bytes (BADDR_IPV4 ip port) = udpgw_addr_ipv4_bytes ip port"
| "udpgw_addr_bytes (BADDR_IPV6 ip port) = udpgw_addr_ipv6_bytes ip port"
| "udpgw_addr_bytes _ = []"

definition udpgw_message :: "byte \<Rightarrow> u16 \<Rightarrow> BAddr \<Rightarrow> byte list \<Rightarrow> byte list" where
  "udpgw_message flags conid remote payload =
     udpgw_header_bytes \<lparr>ug_flags = (if baddr_type remote = 2 then flags OR UDPGW_CLIENT_FLAG_IPV6 else flags), ug_conid = conid\<rparr> @
     udpgw_addr_bytes remote @ payload"

lemma udpgw_addr_bytes_lengths [simp]: "length (udpgw_addr_ipv4_bytes ip port) = 6"
  "length ip6 = 16 \<Longrightarrow> length (udpgw_addr_ipv6_bytes ip6 port) = 18"
  by (simp_all add: udpgw_addr_ipv4_bytes_def udpgw_addr_ipv6_bytes_def)

lemma udpgw_addr_length:
  assumes "is_ip_addr remote"
  shows "length (udpgw_addr_bytes remote) = (if baddr_type remote = 2 then 18 else 6)"
  using assms by (cases remote) simp_all

lemma udpgw_message_length:
  "is_ip_addr remote \<Longrightarrow> length (udpgw_message flags conid remote payload) \<le> 21 + length payload"
  using udpgw_addr_length [of remote] by (simp add: udpgw_message_def udpgw_header_bytes_def)

lemma write_at_append: "write_at m off (a @ b) = Option.bind (write_at m off a) (\<lambda>m'. write_at m' (off + length a) b)"
  by (auto simp: write_at_def) (simp add: ac_simps)

lemma udpgw_header_bytes_length [simp]: "length (udpgw_header_bytes h) = 3"
  by (simp add: udpgw_header_bytes_def)

lemma connection_send_none:
  assumes "BufferWriter_StartPacket (ppf_ainput (con_send_ppflow (uc_con o' c))) = None" and "0 \<le> n" "n \<le> uc_udp_mtu o'"
  shows "connection_send mem o' c flags data n = Some (o', [])"
  using assms by (simp add: connection_send_def c_assert_bind)

text \<open>The message is written in place in one piece.\<close>

lemma connection_send_write:
  assumes "BufferWriter_StartPacket (ppf_ainput flow) = Some out" and "0 \<le> n" "n \<le> uc_udp_mtu o'"
    and "flow = con_send_ppflow (uc_con o' c)" and "con_conaddr (uc_con o' c) = ca" and "is_ip_addr (ca_remote_addr ca)"
    and "read_at mem data (nat n) = Some payload"
    and "msg = udpgw_message flags (con_conid (uc_con o' c)) (ca_remote_addr ca) payload"
    and "write_at (pb_mem (ppf_buffer flow)) out msg = Some m"
  shows "connection_send mem o' c flags data n =
    Some (uc_upd c (con_send_ppflow_update (\<lambda>_. flow\<lparr>ppf_ainput := fst (BufferWriter_EndPacket (ppf_ainput flow) (length msg)),
        ppf_buffer := pb_set_mem (ppf_buffer flow) m\<rparr>)) o', [UC_EndPacket c (length msg)])"
proof -
  have n: "nat n = length payload" using read_at_length [OF assms(7)] by simp
  obtain m1 m2 where w: "write_at (pb_mem (ppf_buffer flow)) out
        (udpgw_header_bytes \<lparr>ug_flags = (if baddr_type (ca_remote_addr ca) = 2 then flags OR UDPGW_CLIENT_FLAG_IPV6 else flags),
          ug_conid = con_conid (uc_con o' c)\<rparr>) = Some m1"
      "write_at m1 (out + 3) (udpgw_addr_bytes (ca_remote_addr ca)) = Some m2"
      "write_at m2 (out + 3 + length (udpgw_addr_bytes (ca_remote_addr ca))) payload = Some m"
    using assms(8,9) by (auto simp: udpgw_message_def write_at_append bind_eq_Some_conv)
  show ?thesis
  proof (cases "ca_remote_addr ca")
    case (BADDR_IPV4 ip port)
    then show ?thesis using w assms(1-8) n
      by (simp add: connection_send_def c_assert_bind ltoh8_def ltoh16_def Let_def BufferWriter_EndPacket_def pb_set_mem_def
        udpgw_message_def add.commute [of 9])
  next
    case (BADDR_IPV6 ip port)
    then show ?thesis using w assms(1-8) n
      by (simp add: connection_send_def c_assert_bind ltoh8_def ltoh16_def Let_def BufferWriter_EndPacket_def pb_set_mem_def
        udpgw_message_def add.commute [of 21])
  qed (use assms(6) in auto)
qed

subsection \<open>The invariant\<close>

text \<open>The sizes of the configuration: what \<^verbatim>\<open>UdpGwClient_Init\<close> asserts, and buffers within the range of
  the block arithmetic.\<close>

definition uc_conf :: "UdpGwClient \<Rightarrow> bool" where
  "uc_conf o' \<longleftrightarrow> 0 \<le> uc_udp_mtu o' \<and> uc_udpgw_mtu o' = 21 + uc_udp_mtu o' \<and> uc_udpgw_mtu o' \<le> 65535 \<and>
     pb_sizes_ok (2 + nat (uc_udpgw_mtu o')) (nat (uc_send_buffer_size o'))"

definition uc_queue :: "UdpGwClient \<Rightarrow> nat list \<Rightarrow> bool" where
  "uc_queue o' xs \<longleftrightarrow> fq_inv (uc_send_queue o') \<and> set (fq_flows_list (uc_send_queue o')) = insert 0 (set xs) \<and> 0 \<notin> set xs"

text \<open>Every connection's framing flow is in a reachable state; \<open>log\<close> holds the messages written to it.\<close>

definition uc_flows :: "UdpGwClient \<Rightarrow> nat list \<Rightarrow> (nat \<Rightarrow> byte list list) \<Rightarrow> bool" where
  "uc_flows o' xs log \<longleftrightarrow> (\<forall>c\<in>set xs. \<exists>pend ss out.
     ppf_reach (nat (uc_udpgw_mtu o')) (nat (uc_send_buffer_size o')) (con_send_ppflow (uc_con o' c)) pend ss (log c) out)"

definition uc_inv :: "UdpGwClient \<Rightarrow> nat list \<Rightarrow> (nat \<Rightarrow> byte list list) \<Rightarrow> bool" where
  "uc_inv o' xs log \<longleftrightarrow> uc_conf o' \<and> uc_table o' xs \<and> uc_queue o' xs \<and> uc_flows o' xs log"

lemma uc_invD:
  assumes "uc_inv o' xs log"
  shows "uc_conf o'" "uc_table o' xs" "uc_queue o' xs" "uc_flows o' xs log"
  using assms by (simp_all add: uc_inv_def)

lemma uc_table_cong:
  assumes "uc_connections_tree_by_conaddr o2 = uc_connections_tree_by_conaddr o1"
    and "uc_connections_tree_by_conid o2 = uc_connections_tree_by_conid o1"
    and "uc_connections_list o2 = uc_connections_list o1" "uc_num_connections o2 = uc_num_connections o1"
    and "uc_max_connections o2 = uc_max_connections o1" "uc_next_conid o2 = uc_next_conid o1"
    and "\<And>c. c \<in> set xs \<Longrightarrow> con_conaddr (uc_con o2 c) = con_conaddr (uc_con o1 c) \<and> con_conid (uc_con o2 c) = con_conid (uc_con o1 c)"
  shows "uc_table o2 xs \<longleftrightarrow> uc_table o1 xs"
proof -
  have "holds_tree conaddr_comparator (\<lambda>c. con_conaddr (uc_con o2 c)) T (set xs) =
      holds_tree conaddr_comparator (\<lambda>c. con_conaddr (uc_con o1 c)) T (set xs)" for T
    by (rule holds_tree_cong) (simp add: assms(7))
  moreover have "holds_tree uint16_comparator (\<lambda>c. con_conid (uc_con o2 c)) T (set xs) =
      holds_tree uint16_comparator (\<lambda>c. con_conid (uc_con o1 c)) T (set xs)" for T
    by (rule holds_tree_cong) (simp add: assms(7))
  ultimately show ?thesis using assms by (simp add: uc_table_def)
qed

lemma uc_upd_simps [simp]:
  "uc_udp_mtu (uc_upd c u o') = uc_udp_mtu o'" "uc_max_connections (uc_upd c u o') = uc_max_connections o'"
  "uc_send_buffer_size (uc_upd c u o') = uc_send_buffer_size o'" "uc_udpgw_mtu (uc_upd c u o') = uc_udpgw_mtu o'"
  "uc_pp_mtu (uc_upd c u o') = uc_pp_mtu o'"
  "uc_connections_tree_by_conaddr (uc_upd c u o') = uc_connections_tree_by_conaddr o'"
  "uc_connections_tree_by_conid (uc_upd c u o') = uc_connections_tree_by_conid o'"
  "uc_connections_list (uc_upd c u o') = uc_connections_list o'" "uc_num_connections (uc_upd c u o') = uc_num_connections o'"
  "uc_next_conid (uc_upd c u o') = uc_next_conid o'" "uc_send_queue (uc_upd c u o') = uc_send_queue o'"
  "uc_have_server (uc_upd c u o') = uc_have_server o'" "uc_keepalive_sending (uc_upd c u o') = uc_keepalive_sending o'"
  "uc_con (uc_upd c u o') = (uc_con o')(c := u (uc_con o' c))"
  by (simp_all add: uc_upd_def)

lemma uc_conf_cong:
  "uc_udp_mtu o2 = uc_udp_mtu o1 \<Longrightarrow> uc_udpgw_mtu o2 = uc_udpgw_mtu o1 \<Longrightarrow> uc_send_buffer_size o2 = uc_send_buffer_size o1 \<Longrightarrow>
   uc_conf o2 \<longleftrightarrow> uc_conf o1"
  by (simp only: uc_conf_def)

lemma uc_conf_sizes:
  assumes "uc_conf o'"
  shows "pb_sizes_ok (2 + nat (uc_udpgw_mtu o')) (nat (uc_send_buffer_size o'))" "nat (uc_udpgw_mtu o') \<le> 65535"
  using assms unfolding uc_conf_def by (blast, linarith)

lemma uc_touch_inv:
  assumes "uc_inv o' xs log" and "c \<in> set xs"
  shows "uc_inv (uc_touch o' c) (remove1 c xs @ [c]) log"
proof -
  have d: "distinct xs" using uc_table_distinct [OF uc_invD(2) [OF assms(1)]] .
  have s: "set (remove1 c xs @ [c]) = set xs" using assms(2) d by (auto simp: set_remove1_eq)
  have l: "length (remove1 c xs @ [c]) = length xs" using assms(2) length_pos_if_in_set [OF assms(2)] by (simp add: length_remove1)
  have "is_list (uc_connections_list (uc_touch o' c)) (remove1 c xs @ [c])"
    using linked_list.seq_touch [OF _ assms(2)] uc_invD(2) [OF assms(1)] by (simp add: uc_touch_def uc_table_def)
  then have "uc_table (uc_touch o' c) (remove1 c xs @ [c])"
    using uc_invD(2) [OF assms(1)] s l by (simp add: uc_table_def uc_touch_def)
  moreover have "uc_conf (uc_touch o' c)" using uc_invD(1) [OF assms(1)] by (subst uc_conf_cong [of _ o']) (simp_all add: uc_touch_def)
  moreover have "uc_queue (uc_touch o' c) (remove1 c xs @ [c])" "uc_flows (uc_touch o' c) (remove1 c xs @ [c]) log"
    using uc_invD(3,4) [OF assms(1)] unfolding uc_queue_def uc_flows_def s by (simp_all add: uc_touch_def)
  ultimately show ?thesis by (simp only: uc_inv_def)
qed

subsection \<open>Sending on a connection\<close>

text \<open>A message is written to the connection's flow, or dropped when the flow has no room; nothing else changes.\<close>

lemma connection_send_inv:
  fixes flags :: byte
  assumes inv: "uc_inv o' xs log" and c: "c \<in> set xs" and n: "0 \<le> n" "n \<le> uc_udp_mtu o'"
    and r: "read_at mem data (nat n) = Some payload"
  defines "msg \<equiv> udpgw_message flags (con_conid (uc_con o' c)) (ca_remote_addr (con_conaddr (uc_con o' c))) payload"
  shows "\<exists>o2 outs log2. connection_send mem o' c flags data n = Some (o2, outs) \<and> uc_inv o2 xs log2 \<and>
    (\<forall>d. uc_con o2 d = (uc_con o' d)\<lparr>con_send_ppflow := con_send_ppflow (uc_con o2 d)\<rparr>) \<and>
    uc_send_queue o2 = uc_send_queue o' \<and> uc_have_server o2 = uc_have_server o' \<and> uc_udp_mtu o2 = uc_udp_mtu o' \<and>
    uc_max_connections o2 = uc_max_connections o' \<and>
    (outs = [] \<and> log2 = log \<or> outs = [UC_EndPacket c (length msg)] \<and> log2 = log(c := log c @ [msg]))"
proof -
  let ?f = "con_send_ppflow (uc_con o' c)"
  note T = uc_invD(2) [OF inv] and C = uc_invD(1) [OF inv]
  obtain pend ss out where reach: "ppf_reach (nat (uc_udpgw_mtu o')) (nat (uc_send_buffer_size o')) ?f pend ss (log c) out"
    using uc_invD(4) [OF inv] c by (auto simp: uc_flows_def)
  show ?thesis
  proof (cases "BufferWriter_StartPacket (ppf_ainput ?f)")
    case None
    then have "connection_send mem o' c flags data n = Some (o', [])" using connection_send_none n by blast
    then show ?thesis using inv by (intro exI [of _ o'] exI [of _ "[]"] exI [of _ log]) simp
  next
    case (Some off)
    have ip: "is_ip_addr (ca_remote_addr (con_conaddr (uc_con o' c)))" using T c by (auto simp: uc_table_def is_conaddr_def)
    have "length payload = nat n" by (rule read_at_length [OF r])
    then have len: "length msg \<le> nat (uc_udpgw_mtu o')"
      using udpgw_message_length [OF ip, of flags "con_conid (uc_con o' c)" payload] C n by (simp add: uc_conf_def msg_def)
    obtain pkts where "ppf_inv (nat (uc_udpgw_mtu o')) (nat (uc_send_buffer_size o')) ?f pend ss (log c) out pkts"
      using ppf_reach_inv [OF reach] uc_conf_sizes [OF C] by blast
    from ppf_write_step [OF this Some len]
    obtain m where m: "write_at (pb_mem (ppf_buffer ?f)) off msg = Some m" by blast
    let ?g = "?f\<lparr>ppf_ainput := fst (BufferWriter_EndPacket (ppf_ainput ?f) (length msg)), ppf_buffer := pb_set_mem (ppf_buffer ?f) m\<rparr>"
    let ?o = "uc_upd c (con_send_ppflow_update (\<lambda>_. ?g)) o'"
    have step: "connection_send mem o' c flags data n = Some (?o, [UC_EndPacket c (length msg)])"
      using connection_send_write [OF Some n refl refl ip r _ m] by (simp add: msg_def)
    obtain w k where e: "BufferWriter_EndPacket (ppf_ainput ?f) (length msg) = (w, k)" by fastforce
    have "ppf_reach (nat (uc_udpgw_mtu o')) (nat (uc_send_buffer_size o')) ?g (pend @ [EncDone k]) ss (log c @ [msg]) out"
      using ppf_reach.put [OF reach Some len m e] by (simp add: e)
    then have "uc_flows ?o xs (log(c := log c @ [msg]))"
      using uc_invD(4) [OF inv] by (auto simp: uc_flows_def)
    moreover have "uc_table ?o xs" using T by (subst uc_table_cong [of _ o']) auto
    moreover have "uc_conf ?o" using C by (subst uc_conf_cong [of _ o']) simp_all
    ultimately have "uc_inv ?o xs (log(c := log c @ [msg]))"
      using uc_invD(3) [OF inv] by (simp add: uc_inv_def uc_queue_def)
    then show ?thesis using step
      by (intro exI [of _ ?o] exI [of _ "[UC_EndPacket c (length msg)]"] exI [of _ "log(c := log c @ [msg])"]) auto
  qed
qed

subsection \<open>Reusing the least recently used connection\<close>

lemma reuse_connection_ok:
  assumes inv: "uc_inv o' (c # xs) log" and ca: "is_conaddr ca" and none: "find_connection_by_conaddr o' ca = Some None"
  shows "\<exists>o2. reuse_connection o' ca = Some (o2, c) \<and> uc_inv o2 (c # xs) log \<and>
    uc_con o2 = (uc_con o')(c := (uc_con o' c)\<lparr>con_conaddr := ca\<rparr>) \<and> uc_udp_mtu o2 = uc_udp_mtu o' \<and>
    uc_have_server o2 = uc_have_server o' \<and> uc_send_queue o2 = uc_send_queue o' \<and> uc_max_connections o2 = uc_max_connections o'"
proof -
  note T = uc_invD(2) [OF inv]
  have d: "c \<notin> set xs" using uc_table_distinct [OF T] by simp
  let ?key = "\<lambda>d. con_conaddr (uc_con o' d)"
  let ?o = "uc_upd c (con_conaddr_update (\<lambda>_. ca)) o'"
  let ?key' = "\<lambda>d. con_conaddr (uc_con ?o d)"
  have absent: "\<forall>x\<in>set (c # xs). ?key x \<noteq> ca"
    using find_by_conaddr [OF T ca] none by (metis option.inject option.distinct(1))
  obtain t where t: "BAVL_Remove (uc_connections_tree_by_conaddr o') c = Some t" "holds_tree conaddr_comparator ?key t (set (c # xs) - {c})"
    using holds_tree_remove [OF _ is_comparator_conaddr, of ?key _ "set (c # xs)" c] T by (auto simp: uc_table_def)
  have s: "set (c # xs) - {c} = set xs" using d by auto
  have t': "holds_tree conaddr_comparator ?key' t (set xs)"
    using t(2) unfolding s by (subst holds_tree_cong [of _ _ ?key]) (use d in auto)
  have "\<forall>x\<in>set xs. conaddr_comparator (?key' c) (?key' x) \<noteq> 0"
  proof
    fix x assume x: "x \<in> set xs"
    then have "is_conaddr (?key x)" "?key x \<noteq> ca" "x \<noteq> c" using T absent d by (auto simp: uc_table_def)
    then show "conaddr_comparator (?key' c) (?key' x) \<noteq> 0" using conaddr_same [OF ca] by auto
  qed
  then obtain t2 where t2: "tree_insert (\<lambda>a b. conaddr_comparator (?key' a) (?key' b)) t c = Some t2"
      "holds_tree conaddr_comparator ?key' t2 (insert c (set xs))"
    using holds_tree_insert [OF t' is_comparator_conaddr, of c] by blast
  let ?o2 = "?o\<lparr>uc_connections_tree_by_conaddr := t2\<rparr>"
  have "LinkedList1_GetFirst (uc_connections_list o') = Some c" "uc_num_connections o' > 0"
    using T linked_list.seq_first [of _ "c # xs"] by (auto simp: uc_table_def)
  then have step: "reuse_connection o' ca = Some (?o2, c)"
    using none t(1) t2(1) by (simp add: reuse_connection_def c_assert_bind)
  have key2: "(\<lambda>d. con_conid (uc_con ?o2 d)) = (\<lambda>d. con_conid (uc_con o' d))" by (intro ext) simp
  have "\<forall>d\<in>set (c # xs). uint (con_conid (uc_con ?o2 d)) < uc_max_connections o' \<and> is_conaddr (con_conaddr (uc_con ?o2 d))"
    using T ca by (auto simp: uc_table_def)
  moreover have "holds_tree conaddr_comparator (\<lambda>d. con_conaddr (uc_con ?o2 d)) t2 (set (c # xs))"
    using t2(2) by (simp del: fun_upd_apply)
  moreover have "holds_tree uint16_comparator (\<lambda>d. con_conid (uc_con ?o2 d)) (uc_connections_tree_by_conid o') (set (c # xs))"
    unfolding key2 using T by (simp add: uc_table_def)
  ultimately have "uc_table ?o2 (c # xs)"
    using T unfolding uc_table_def by (simp del: fun_upd_apply)
  moreover have "uc_conf ?o2" using uc_invD(1) [OF inv] by (subst uc_conf_cong [of _ o']) simp_all
  ultimately have "uc_inv ?o2 (c # xs) log"
    using uc_invD(3,4) [OF inv] by (auto simp: uc_inv_def uc_queue_def uc_flows_def)
  then show ?thesis using step by auto
qed

subsection \<open>Creating a connection\<close>

text \<open>What the code relies on of \<^verbatim>\<open>malloc\<close>: memory that is not in use, and not null.\<close>

definition uc_env_ok :: "uc_env \<Rightarrow> nat list \<Rightarrow> bool" where
  "uc_env_ok env xs \<longleftrightarrow> malloc_ok (ue_malloc env) \<and> (\<forall>c. ue_con env = Some c \<longrightarrow> c \<notin> set xs \<and> c \<noteq> 0)"

lemma queue_flow_init:
  assumes "uc_queue o' xs" and "\<not> fq_freeing (uc_send_queue o')" and "c \<notin> set xs" "c \<noteq> 0"
  obtains q where "PacketPassFairQueueFlow_Init (uc_send_queue o') c = Some q" "fq_inv q" "\<not> fq_freeing q"
    "set (fq_flows_list q) = insert c (insert 0 (set xs))" "fq_sending_flow q \<noteq> Some c"
proof -
  have a: "fq_inv (uc_send_queue o')" "fq_allowed (uc_send_queue o') (FqInit c)" using assms by (auto simp: uc_queue_def)
  from fq_init_result [OF a] obtain q where q: "PacketPassFairQueueFlow_Init (uc_send_queue o') c = Some q" "fq_inv q"
    "fq_flows_list q = fq_flows_list (uc_send_queue o') @ [c]" "fq_sending_flow q = fq_sending_flow (uc_send_queue o')" by auto
  have "fq_freeing q = fq_freeing (uc_send_queue o')" using q(1) by (auto simp: PacketPassFairQueueFlow_Init_def c_assert_bind split: if_splits)
  moreover have "fq_sending_flow q \<noteq> Some c"
    using a fq_wf_sending [of "uc_send_queue o'" c] q(4) assms(1,3,4) by (auto simp: fq_inv_def uc_queue_def)
  ultimately show ?thesis using that q assms(1,2) by (auto simp: uc_queue_def)
qed

lemma queue_flow_free:
  assumes "fq_inv q" and "c \<in> set (fq_flows_list q)" and "fq_freeing q \<or> fq_sending_flow q \<noteq> Some c"
  obtains q' where "PacketPassFairQueueFlow_Free q c = Some q'" "fq_inv q'" "fq_freeing q' = fq_freeing q"
    "set (fq_flows_list q') = set (fq_flows_list q) - {c}"
proof -
  have a: "fq_allowed q (FqFree c)" using assms(2,3) by simp
  from fq_free_result [OF assms(1) a] obtain q' where q: "PacketPassFairQueueFlow_Free q c = Some q'" "fq_inv q'"
    "fq_flows_list q' = remove1 c (fq_flows_list q)" by auto
  have "fq_freeing q' = fq_freeing q" using q(1)
    by (auto simp: PacketPassFairQueueFlow_Free_def c_assert_bind Let_def split: if_splits)
  then show ?thesis using that q fq_wf_distinct assms(1) by (simp add: fq_inv_def set_remove1_eq)
qed

text \<open>The state after the fields of the new connection are set.\<close>

definition uc_new :: "UdpGwClient \<Rightarrow> nat \<Rightarrow> UdpGwClient_conaddr \<Rightarrow> byte \<Rightarrow> nat \<Rightarrow> int \<Rightarrow> int \<Rightarrow> PacketProtoFlow \<Rightarrow> bool \<Rightarrow> UdpGwClient" where
  "uc_new o' c ca flags data n k flow job =
     o'\<lparr>uc_next_conid := k, uc_con := (uc_con o')(c := (uc_con o' c)\<lparr>con_conaddr := ca, con_first_flags := flags,
        con_first_data := data, con_first_data_len := n, con_conid := word_of_int k, con_first_job := job, con_send_ppflow := flow\<rparr>)\<rparr>"

lemma uc_new_table:
  assumes "uc_table o' xs" and "c \<notin> set xs" and "0 \<le> k" "k < uc_max_connections o'"
  shows "uc_table (uc_new o' c ca flags data n k flow job) xs"
proof -
  let ?o = "o'\<lparr>uc_next_conid := k\<rparr>"
  have "uc_table ?o xs" using assms by (simp add: uc_table_def)
  then show ?thesis using assms(2) by (subst uc_table_cong [of _ ?o]) (auto simp: uc_new_def)
qed

lemma uc_insert_table:
  fixes flags :: byte and data :: nat and n :: int and flow :: PacketProtoFlow and job :: bool
  assumes T: "uc_table o' xs" and c: "c \<notin> set xs" and k: "0 \<le> k" "k < uc_max_connections o'" "unused o' xs k"
    and room: "int (length xs) < uc_max_connections o'" and ca: "is_conaddr ca" "\<forall>x\<in>set xs. con_conaddr (uc_con o' x) \<noteq> ca"
  defines "o1 \<equiv> uc_new o' c ca flags data n k flow job"
  obtains t1 t2 where "tree_insert (\<lambda>a b. conaddr_comparator (con_conaddr (uc_con o1 a)) (con_conaddr (uc_con o1 b))) (uc_connections_tree_by_conaddr o') c = Some t1"
    "tree_insert (\<lambda>a b. uint16_comparator (con_conid (uc_con o1 a)) (con_conid (uc_con o1 b))) (uc_connections_tree_by_conid o') c = Some t2"
    "uc_table (o1\<lparr>uc_connections_tree_by_conaddr := t1, uc_connections_tree_by_conid := t2,
       uc_connections_list := LinkedList1_Append (uc_connections_list o1) c, uc_num_connections := uc_num_connections o1 + 1\<rparr>) (xs @ [c])"
proof -
  have T1: "uc_table o1 xs" unfolding o1_def by (rule uc_new_table [OF T c k(1,2)])
  have fields: "uc_connections_tree_by_conaddr o1 = uc_connections_tree_by_conaddr o'" "uc_connections_tree_by_conid o1 = uc_connections_tree_by_conid o'"
    "uc_max_connections o1 = uc_max_connections o'" "uc_next_conid o1 = k"
    "con_conaddr (uc_con o1 c) = ca" "con_conid (uc_con o1 c) = word_of_int k" "\<And>x. x \<noteq> c \<Longrightarrow> uc_con o1 x = uc_con o' x"
    by (simp_all add: o1_def uc_new_def)
  have uk: "uint (word_of_int k :: u16) = k" using k T by (simp add: uint_word_of_int uc_table_def)
  have ne: "\<forall>x\<in>set xs. conaddr_comparator (con_conaddr (uc_con o1 c)) (con_conaddr (uc_con o1 x)) \<noteq> 0"
  proof
    fix x assume x: "x \<in> set xs"
    then have "is_conaddr (con_conaddr (uc_con o' x))" "con_conaddr (uc_con o' x) \<noteq> ca" "x \<noteq> c" using T ca(2) c by (auto simp: uc_table_def)
    then show "conaddr_comparator (con_conaddr (uc_con o1 c)) (con_conaddr (uc_con o1 x)) \<noteq> 0"
      using conaddr_same [OF ca(1)] fields(5,7) by auto
  qed
  have ne2: "\<forall>x\<in>set xs. uint16_comparator (con_conid (uc_con o1 c)) (con_conid (uc_con o1 x)) \<noteq> 0"
  proof
    fix x assume x: "x \<in> set xs"
    then have "uint (con_conid (uc_con o' x)) \<noteq> k" "x \<noteq> c" using k(3) c by (auto simp: unused_def)
    then show "uint16_comparator (con_conid (uc_con o1 c)) (con_conid (uc_con o1 x)) \<noteq> 0" using fields(6,7) uk by auto
  qed
  have trees: "holds_tree conaddr_comparator (\<lambda>d. con_conaddr (uc_con o1 d)) (uc_connections_tree_by_conaddr o1) (set xs)"
    "holds_tree uint16_comparator (\<lambda>d. con_conid (uc_con o1 d)) (uc_connections_tree_by_conid o1) (set xs)"
    using T1 by (simp_all add: uc_table_def)
  obtain t1 where t1: "tree_insert (\<lambda>a b. conaddr_comparator (con_conaddr (uc_con o1 a)) (con_conaddr (uc_con o1 b))) (uc_connections_tree_by_conaddr o1) c = Some t1"
      "holds_tree conaddr_comparator (\<lambda>d. con_conaddr (uc_con o1 d)) t1 (insert c (set xs))"
    using holds_tree_insert [OF trees(1) is_comparator_conaddr ne] by blast
  obtain t2 where t2: "tree_insert (\<lambda>a b. uint16_comparator (con_conid (uc_con o1 a)) (con_conid (uc_con o1 b))) (uc_connections_tree_by_conid o1) c = Some t2"
      "holds_tree uint16_comparator (\<lambda>d. con_conid (uc_con o1 d)) t2 (insert c (set xs))"
    using holds_tree_insert [OF trees(2) is_comparator_conid ne2] by blast
  have "is_list (LinkedList1_Append (uc_connections_list o1) c) (xs @ [c])"
    using linked_list.seq_append [OF _ c] T1 by (simp add: uc_table_def)
  then have "uc_table (o1\<lparr>uc_connections_tree_by_conaddr := t1, uc_connections_tree_by_conid := t2,
       uc_connections_list := LinkedList1_Append (uc_connections_list o1) c, uc_num_connections := uc_num_connections o1 + 1\<rparr>) (xs @ [c])"
    using T1 t1(2) t2(2) room ca(1) fields(3,5,6) uk k(2) unfolding uc_table_def by simp
  then show thesis using that t1(1) t2(1) unfolding fields(1,2) by blast
qed

lemma connection_init_ok:
  assumes inv: "uc_inv o' xs log" and env: "uc_env_ok env xs" and fr: "\<not> fq_freeing (uc_send_queue o')"
    and ca: "is_conaddr ca" and none: "find_connection_by_conaddr o' ca = Some None"
    and room: "int (length xs) < uc_max_connections o'" and n: "0 \<le> n" "n \<le> uc_udp_mtu o'"
  shows "\<exists>o2 outs. connection_init env o' ca flags data n = Some (o2, outs) \<and> \<not> fq_freeing (uc_send_queue o2) \<and>
    uc_have_server o2 = uc_have_server o' \<and> uc_udp_mtu o2 = uc_udp_mtu o' \<and> uc_max_connections o2 = uc_max_connections o' \<and>
    (uc_inv o2 xs log \<and> (\<forall>d\<in>set xs. uc_con o2 d = uc_con o' d) \<or>
     (\<exists>c k flow. ue_con env = Some c \<and> uc_inv o2 (xs @ [c]) (log(c := [])) \<and>
        uc_con o2 = (uc_con o')(c := \<lparr>con_conaddr = ca, con_first_flags = flags, con_first_data = data, con_first_data_len = n,
          con_conid = k, con_first_job = True, con_send_ppflow = flow\<rparr>)))"
proof (cases "ue_con env")
  case None
  then show ?thesis using inv none room n fr uc_invD(2) [OF inv]
    by (intro exI [of _ o'] exI [of _ "[]"]) (simp add: connection_init_def c_assert_bind uc_table_def)
next
  case (Some c)
  then have c: "c \<notin> set xs" "c \<noteq> 0" using env by (simp_all add: uc_env_ok_def)
  note T = uc_invD(2) [OF inv] and Q = uc_invD(3) [OF inv]
  have num: "uc_num_connections o' = int (length xs)" using T by (simp add: uc_table_def)
  let ?set = "\<lambda>con. con\<lparr>con_conaddr := ca, con_first_flags := flags, con_first_data := data, con_first_data_len := n\<rparr>"
  let ?o1 = "uc_upd c ?set o'"
  have "uc_table ?o1 xs" using T c(1) by (subst uc_table_cong [of _ o']) auto
  then obtain k where k: "find_unused_conid ?o1 = Some (?o1\<lparr>uc_next_conid := k\<rparr>, word_of_int k)" "0 \<le> k" "k < uc_max_connections o'"
      "unused ?o1 xs k"
    using find_unused_conid_ok [of ?o1 xs] room by auto
  have "con_conid (uc_con ?o1 d) = con_conid (uc_con o' d)" for d by simp
  then have u: "unused o' xs k" using k(4) by (simp only: unused_def)
  obtain q where q: "PacketPassFairQueueFlow_Init (uc_send_queue o') c = Some q" "fq_inv q" "\<not> fq_freeing q"
      "set (fq_flows_list q) = insert c (insert 0 (set xs))" "fq_sending_flow q \<noteq> Some c"
    using queue_flow_init [OF Q fr c] .
  define new where "new = uc_new o' c ca flags data n k"
  have s1: "uc_upd c (con_first_job_update (\<lambda>_. True)) (uc_upd c (con_conid_update (\<lambda>_. word_of_int k)) (?o1\<lparr>uc_next_conid := k\<rparr>)) =
      new (con_send_ppflow (uc_con o' c)) True"
    by (simp add: uc_upd_def uc_new_def new_def)
  have absent: "\<forall>x\<in>set xs. con_conaddr (uc_con o' x) \<noteq> ca"
    using find_by_conaddr [OF T ca] none by (metis option.inject option.distinct(1))
  have conf: "uc_conf (new flow job\<lparr>uc_send_queue := q'\<rparr>)" for flow job q'
    using uc_invD(1) [OF inv] by (subst uc_conf_cong [of _ o']) (simp_all add: new_def uc_new_def)
  let ?ppf = "PacketProtoFlow_Init (ue_size_max env) (ue_malloc env) (nat (uc_udpgw_mtu o')) (nat (uc_send_buffer_size o'))"
  have sel: "uc_send_queue (new flow job) = uc_send_queue o'" "uc_udpgw_mtu (new flow job) = uc_udpgw_mtu o'"
    "uc_send_buffer_size (new flow job) = uc_send_buffer_size o'" for flow job by (simp_all add: new_def uc_new_def)
  note step = connection_init_def c_assert_bind none n num room Some k(1) s1 q(1) sel
  show ?thesis
  proof (cases ?ppf)
    case None
    obtain q' where q': "PacketPassFairQueueFlow_Free q c = Some q'" "fq_inv q'" "fq_freeing q' = fq_freeing q"
        "set (fq_flows_list q') = set (fq_flows_list q) - {c}"
      using queue_flow_free [of q c] q by auto
    let ?o2 = "new (con_send_ppflow (uc_con o' c)) False\<lparr>uc_send_queue := q'\<rparr>"
    have s2: "uc_upd c (con_first_job_update (\<lambda>_. False)) (new (con_send_ppflow (uc_con o' c)) True) = new (con_send_ppflow (uc_con o' c)) False"
      by (simp add: uc_upd_def uc_new_def new_def)
    have "connection_init env o' ca flags data n = Some (?o2, [UC_FreeCon c])"
      using None q'(1) by (simp add: step s2)
    moreover have "uc_table ?o2 xs"
      using uc_new_table [OF T c(1) k(2,3), of ca flags data n "con_send_ppflow (uc_con o' c)" False]
      by (subst uc_table_cong [of _ "new (con_send_ppflow (uc_con o' c)) False"]) (simp_all add: new_def)
    moreover have "uc_queue ?o2 xs" "uc_flows ?o2 xs log"
      using q q' c Q uc_invD(4) [OF inv] by (auto simp: uc_queue_def uc_flows_def new_def uc_new_def)
    moreover have "\<forall>d\<in>set xs. uc_con ?o2 d = uc_con o' d" using c(1) by (auto simp: new_def uc_new_def)
    ultimately show ?thesis using conf q(3) q'(3)
      by (intro exI [of _ ?o2] exI [of _ "[UC_FreeCon c]"]) (simp add: uc_inv_def, simp add: new_def uc_new_def)
  next
    case (Some r)
    obtain flow outs where r: "?ppf = Some (flow, outs)" using Some by (cases r) auto
    let ?o1 = "new flow True"
    obtain t1 t2 where t: "tree_insert (\<lambda>a b. conaddr_comparator (con_conaddr (uc_con ?o1 a)) (con_conaddr (uc_con ?o1 b))) (uc_connections_tree_by_conaddr o') c = Some t1"
      "tree_insert (\<lambda>a b. uint16_comparator (con_conid (uc_con ?o1 a)) (con_conid (uc_con ?o1 b))) (uc_connections_tree_by_conid o') c = Some t2"
      "uc_table (?o1\<lparr>uc_connections_tree_by_conaddr := t1, uc_connections_tree_by_conid := t2,
         uc_connections_list := LinkedList1_Append (uc_connections_list ?o1) c, uc_num_connections := uc_num_connections ?o1 + 1\<rparr>) (xs @ [c])"
      unfolding new_def using uc_insert_table [OF T c(1) k(2,3) u room ca absent] .
    have s2: "uc_upd c (con_send_ppflow_update (\<lambda>_. flow)) (new (con_send_ppflow (uc_con o' c)) True\<lparr>uc_send_queue := q\<rparr>) = ?o1\<lparr>uc_send_queue := q\<rparr>"
      by (simp add: uc_upd_def uc_new_def new_def)
    let ?o2 = "?o1\<lparr>uc_send_queue := q, uc_connections_tree_by_conaddr := t1, uc_connections_tree_by_conid := t2,
       uc_connections_list := LinkedList1_Append (uc_connections_list ?o1) c, uc_num_connections := uc_num_connections ?o1 + 1\<rparr>"
    have tr: "uc_connections_tree_by_conaddr ?o1 = uc_connections_tree_by_conaddr o'" "uc_connections_tree_by_conid ?o1 = uc_connections_tree_by_conid o'"
      by (simp_all add: new_def uc_new_def)
    have "connection_init env o' ca flags data n = Some (?o2, [UC_Flow c outs])"
      using t(1,2) by (simp add: step r s2 tr del: uc_upd_simps)
    moreover have "uc_table ?o2 (xs @ [c])" using t(3) by (subst (asm) uc_table_cong [of _ ?o2]) simp_all
    moreover have "uc_conf ?o2" using conf by (subst uc_conf_cong [of _ "?o1\<lparr>uc_send_queue := q\<rparr>"]) simp_all
    moreover have "uc_queue ?o2 (xs @ [c])" using q c Q by (auto simp: uc_queue_def)
    moreover have "ppf_reach (nat (uc_udpgw_mtu o')) (nat (uc_send_buffer_size o')) flow (map EncRecv (pb_recvs outs)) (pb_sends outs) [] []"
      using ppf_reach.init [OF r] env by (simp add: uc_env_ok_def)
    then have "uc_flows ?o2 (xs @ [c]) (log(c := []))"
      using uc_invD(4) [OF inv] c(1) by (auto simp: uc_flows_def new_def uc_new_def)
    moreover have "uc_con ?o2 = (uc_con o')(c := \<lparr>con_conaddr = ca, con_first_flags = flags, con_first_data = data, con_first_data_len = n,
        con_conid = word_of_int k, con_first_job = True, con_send_ppflow = flow\<rparr>)"
      by (auto simp: new_def uc_new_def intro!: ext UdpGwClient_connection.equality)
    moreover have "uc_have_server ?o2 = uc_have_server o'" "uc_udp_mtu ?o2 = uc_udp_mtu o'" "uc_max_connections ?o2 = uc_max_connections o'"
      by (simp_all add: new_def uc_new_def)
    moreover have "\<not> fq_freeing (uc_send_queue ?o2)" using q(3) by simp
    ultimately show ?thesis using \<open>ue_con env = Some c\<close> unfolding uc_inv_def by blast
  qed
qed

subsection \<open>Removing connections\<close>

lemma uc_table_trees:
  assumes "uc_table o' xs"
  shows "holds_tree conaddr_comparator (\<lambda>c. con_conaddr (uc_con o' c)) (uc_connections_tree_by_conaddr o') (set xs)"
    and "holds_tree uint16_comparator (\<lambda>c. con_conid (uc_con o' c)) (uc_connections_tree_by_conid o') (set xs)"
  using assms by (simp_all add: uc_table_def)

lemma connection_free_ok:
  assumes inv: "uc_inv o' xs log" and c: "c \<in> set xs" and fr: "fq_freeing (uc_send_queue o')"
  shows "\<exists>o2. connection_free o' c = Some (o2, [UC_FreeFlow c, UC_FreeCon c]) \<and> uc_inv o2 (remove1 c xs) log \<and>
    fq_freeing (uc_send_queue o2) \<and> uc_have_server o2 = uc_have_server o'"
proof -
  note T = uc_invD(2) [OF inv] and Q = uc_invD(3) [OF inv]
  have s: "set (remove1 c xs) = set xs - {c}" using uc_table_distinct [OF T] by (simp add: set_remove1_eq)
  have l: "int (length (remove1 c xs)) = int (length xs) - 1" using c length_pos_if_in_set [OF c] by (simp add: length_remove1 of_nat_diff Suc_leI)
  obtain t1 where t1: "BAVL_Remove (uc_connections_tree_by_conaddr o') c = Some t1"
      "holds_tree conaddr_comparator (\<lambda>d. con_conaddr (uc_con o' d)) t1 (set xs - {c})"
    using holds_tree_remove [OF uc_table_trees(1) [OF T] is_comparator_conaddr c] by blast
  obtain t2 where t2: "BAVL_Remove (uc_connections_tree_by_conid o') c = Some t2"
      "holds_tree uint16_comparator (\<lambda>d. con_conid (uc_con o' d)) t2 (set xs - {c})"
    using holds_tree_remove [OF uc_table_trees(2) [OF T] is_comparator_conid c] by blast
  obtain q where q: "PacketPassFairQueueFlow_Free (uc_send_queue o') c = Some q" "fq_inv q" "fq_freeing q"
      "set (fq_flows_list q) = set (fq_flows_list (uc_send_queue o')) - {c}"
    using queue_flow_free [of "uc_send_queue o'" c] Q c fr by (auto simp: uc_queue_def)
  let ?o1 = "o'\<lparr>uc_num_connections := uc_num_connections o' - 1, uc_connections_list := LinkedList1_Remove (uc_connections_list o') c\<rparr>"
  let ?o2 = "uc_upd c (con_first_job_update (\<lambda>_. False)) ?o1\<lparr>uc_connections_tree_by_conid := t2, uc_connections_tree_by_conaddr := t1, uc_send_queue := q\<rparr>"
  have step: "connection_free o' c = Some (?o2, [UC_FreeFlow c, UC_FreeCon c])"
    using t1(1) t2(1) q(1) fr by (simp add: connection_free_def c_assert_bind)
  let ?o3 = "?o1\<lparr>uc_connections_tree_by_conid := t2, uc_connections_tree_by_conaddr := t1\<rparr>"
  have "is_list (LinkedList1_Remove (uc_connections_list o') c) (remove1 c xs)"
    using linked_list.seq_del [OF _ c] T by (simp add: uc_table_def)
  then have "uc_table ?o3 (remove1 c xs)"
    using T t1(2) t2(2) l unfolding uc_table_def s by auto
  then have "uc_table ?o2 (remove1 c xs)" by (subst uc_table_cong [of _ ?o3]) simp_all
  moreover have "uc_conf ?o2" using uc_invD(1) [OF inv] by (subst uc_conf_cong [of _ o']) simp_all
  moreover have "uc_queue ?o2 (remove1 c xs)" "uc_flows ?o2 (remove1 c xs) log"
    using q Q c uc_invD(4) [OF inv] unfolding uc_queue_def uc_flows_def s by auto
  ultimately have "uc_inv ?o2 (remove1 c xs) log" by (simp only: uc_inv_def)
  then show ?thesis using step q(3) by auto
qed

text \<open>The loop ends, and frees every connection once, in the order of the list.\<close>

lemma free_connections_loop_ok:
  assumes "uc_inv o' xs log" and "fq_freeing (uc_send_queue o')"
  shows "\<exists>o2. free_connections_loop o' outs = Some (o2, outs @ concat (map (\<lambda>c. [UC_FreeFlow c, UC_FreeCon c]) xs)) \<and>
    uc_inv o2 [] log \<and> fq_freeing (uc_send_queue o2) \<and> uc_have_server o2 = uc_have_server o'"
  using assms
proof (induction xs arbitrary: o' outs)
  case Nil
  have "is_list (uc_connections_list o') []" using uc_invD(2) [OF Nil.prems(1)] by (simp add: uc_table_def)
  then have "LinkedList1_IsEmpty (uc_connections_list o')" using IsEmpty_list by blast
  then show ?case using Nil by (subst free_connections_loop.simps) simp
next
  case (Cons c xs)
  have l: "is_list (uc_connections_list o') (c # xs)" using uc_invD(2) [OF Cons.prems(1)] by (simp add: uc_table_def)
  obtain o1 where o1: "connection_free o' c = Some (o1, [UC_FreeFlow c, UC_FreeCon c])" "uc_inv o1 xs log"
      "fq_freeing (uc_send_queue o1)" "uc_have_server o1 = uc_have_server o'"
    using connection_free_ok [OF Cons.prems(1) _ Cons.prems(2), of c] by auto
  obtain o2 where "free_connections_loop o1 (outs @ [UC_FreeFlow c, UC_FreeCon c]) =
      Some (o2, outs @ [UC_FreeFlow c, UC_FreeCon c] @ concat (map (\<lambda>c. [UC_FreeFlow c, UC_FreeCon c]) xs))"
      "uc_inv o2 [] log" "fq_freeing (uc_send_queue o2)" "uc_have_server o2 = uc_have_server o1"
    using Cons.IH [OF o1(2,3), of "outs @ [UC_FreeFlow c, UC_FreeCon c]"] by auto
  moreover have "free_connections_loop o' outs = free_connections_loop o1 (outs @ [UC_FreeFlow c, UC_FreeCon c])"
    using IsEmpty_list [OF l] GetFirst_list [OF l] o1(1) by (subst free_connections_loop.simps) simp
  ultimately show ?case using o1(4) by auto
qed

lemma UdpGwClient_Free_ok:
  assumes "uc_inv o' xs log"
  shows "\<exists>o2. UdpGwClient_Free o' = Some (o2, concat (map (\<lambda>c. [UC_FreeFlow c, UC_FreeCon c]) xs) @
    (if uc_have_server o' then [UC_FreeSender, UC_FreeDecoder, UC_FreeRecvIf] else []) @ [UC_FreeMonitor, UC_FreeConnector])"
proof -
  let ?q = "PacketPassFairQueue_PrepareFree (uc_send_queue o')"
  let ?o1 = "o'\<lparr>uc_send_queue := ?q\<rparr>"
  have "fq_inv ?q" using fq_step_ok [of "uc_send_queue o'" FqPrepareFree] uc_invD(3) [OF assms] by (simp add: uc_queue_def)
  then have "uc_queue ?o1 xs" "fq_freeing (uc_send_queue ?o1)"
    using uc_invD(3) [OF assms] by (simp_all add: uc_queue_def PacketPassFairQueue_PrepareFree_def)
  moreover have "uc_table ?o1 xs" using uc_invD(2) [OF assms] by (subst uc_table_cong [of _ o']) simp_all
  moreover have "uc_conf ?o1" using uc_invD(1) [OF assms] by (subst uc_conf_cong [of _ o']) simp_all
  ultimately have inv: "uc_inv ?o1 xs log" and fr: "fq_freeing (uc_send_queue ?o1)"
    using uc_invD(4) [OF assms] by (simp_all add: uc_inv_def uc_flows_def)
  obtain o2 where o2: "free_connections_loop ?o1 [] = Some (o2, concat (map (\<lambda>c. [UC_FreeFlow c, UC_FreeCon c]) xs))"
      "uc_inv o2 [] log" "fq_freeing (uc_send_queue o2)" "uc_have_server o2 = uc_have_server o'"
    using free_connections_loop_ok [OF inv fr, of "[]"] by auto
  have Q: "fq_inv (uc_send_queue o2)" "set (fq_flows_list (uc_send_queue o2)) = {0}" using uc_invD(3) [OF o2(2)] by (simp_all add: uc_queue_def)
  obtain q where q: "PacketPassFairQueueFlow_Free (uc_send_queue o2) 0 = Some q" "fq_inv q" "set (fq_flows_list q) = {}"
    using queue_flow_free [of "uc_send_queue o2" 0] Q o2(3) by auto
  then have wf: "fq_wf q" "fq_flows_list q = []" by (simp_all add: fq_inv_def)
  have "fq_queued_tree q = []" "fq_sending_flow q = None" "fq_previous_flow q = None"
    using fq_wf_subset [OF wf(1)] fq_wf_sending [OF wf(1)] fq_wf_previous [OF wf(1)] wf(2)
    by (auto, (cases "fq_sending_flow q"; auto), (cases "fq_previous_flow q"; auto))
  then have f: "PacketPassFairQueue_Free q = Some (q\<lparr>fq_schedule_job := False\<rparr>)"
    using wf(2) by (simp add: PacketPassFairQueue_Free_def c_assert_bind)
  show ?thesis
    by (cases "uc_have_server o'") (simp_all add: UdpGwClient_Free_def o2(1,4) free_server_def q(1) f)
qed

end
