(* ===== verification/Udpgw_Props.thy ===== *)
theory Udpgw_Props
  imports Udpgw_Table "HOL-Library.Code_Target_Nat"
begin

text \<open>
  The UDP gateway client as a transition system: its connection table refines a table in the order of last use,
  its handlers never fail, connection numbers are found, and messages are delivered to the connection they
  belong to.
\<close>

subsection \<open>Initialisation\<close>

text \<open>\<^verbatim>\<open>SIZE_MAX\<close> has at least 32 bits.\<close>

lemma udpgw_compute_mtu_eq:
  assumes "0 \<le> m" and "m \<le> INT_MAX" and "4294967295 \<le> size_max"
  shows "udpgw_compute_mtu size_max m = (if 21 + m \<le> INT_MAX then 21 + m else - 1)"
proof -
  let ?bs = "bsize_add size_max (bsize_fromsize 3) (bsize_add size_max (bsize_max (bsize_fromsize 6) (bsize_fromsize 18)) (bsize_fromint size_max m))"
  have "bsize_denotes size_max ?bs (3 + (max 6 18 + nat m))"
    using assms by (intro bsize_denotes_add bsize_denotes_max bsize_denotes_fromsize bsize_denotes_fromint) (auto simp: INT_MAX_def)
  then have "?bs = bsize_fromsize (3 + (max 6 18 + nat m))"
    using assms by (intro bsize_denotesD) (auto simp: INT_MAX_def)
  then show ?thesis using assms(1) by (auto simp: udpgw_compute_mtu_def bsize_toint_def)
qed

text \<open>The data of a connection's first packet fits.\<close>

definition uc_first :: "UdpGwClient \<Rightarrow> nat list \<Rightarrow> bool" where
  "uc_first o' xs \<longleftrightarrow> (\<forall>c\<in>set xs. 0 \<le> con_first_data_len (uc_con o' c) \<and> con_first_data_len (uc_con o' c) \<le> uc_udp_mtu o')"

definition uc_ok :: "UdpGwClient \<Rightarrow> nat list \<Rightarrow> bool" where
  "uc_ok o' xs \<longleftrightarrow> (\<exists>log. uc_inv o' xs log) \<and> uc_first o' xs \<and> \<not> fq_freeing (uc_send_queue o')"

lemma UdpGwClient_Init_ok:
  assumes init: "UdpGwClient_Init size_max udp_mtu max_connections send_buffer_size junk = Some (Some o')"
    and "udp_mtu \<le> INT_MAX" and "4294967295 \<le> size_max" and "pb_sizes_ok (2 + nat (21 + udp_mtu)) (nat send_buffer_size)"
  shows "uc_ok o' []"
proof -
  let ?mtu = "udpgw_compute_mtu size_max udp_mtu"
  have a: "0 \<le> udp_mtu" "0 \<le> ?mtu" "?mtu \<le> 65535" "0 < max_connections" "0 < send_buffer_size"
    using init by (auto simp: UdpGwClient_Init_def Let_def c_assert_bind PACKETPROTO_MAXPAYLOAD_def UINT16_MAX_def split: if_splits)
  then have mtu: "?mtu = 21 + udp_mtu" using udpgw_compute_mtu_eq [of udp_mtu size_max] assms(2,3) by (auto split: if_splits)
  obtain q0 q where q: "PacketPassFairQueue_Init (?mtu + 2) False 1 (fq_flow (uc_send_queue junk)) = Some q0"
      "PacketPassFairQueueFlow_Init q0 0 = Some q" and o': "uc_send_queue o' = q"
    using init by (auto simp: UdpGwClient_Init_def Let_def c_assert_bind bind_eq_Some_conv split: if_splits option.splits)
  have inv0: "fq_inv q0" using fq_init_inv [OF q(1)] a(2) by simp
  have q0: "fq_flows_list q0 = []" "\<not> fq_freeing q0" using q(1) by (auto simp: PacketPassFairQueue_Init_def split: if_splits)
  from fq_init_result [OF inv0, of 0] q0 q(2) have "fq_inv q" "fq_flows_list q = [0]" by auto
  moreover have "\<not> fq_freeing q" using q(2) q0(2) by (auto simp: PacketPassFairQueueFlow_Init_def c_assert_bind)
  moreover have "uc_conf o'" using init a mtu assms(4)
    by (auto simp: uc_conf_def UdpGwClient_Init_def Let_def c_assert_bind bind_eq_Some_conv split: if_splits option.splits)
  moreover have "uc_table o' []" using init a
    by (auto simp: uc_table_def holds_tree_empty Init_list UdpGwClient_Init_def Let_def c_assert_bind bind_eq_Some_conv UINT16_MAX_def split: if_splits option.splits)
  ultimately show ?thesis using o' by (simp add: uc_ok_def uc_first_def uc_inv_def uc_queue_def uc_flows_def)
qed

subsection \<open>The table in the order of last use\<close>

text \<open>What a user of the client sees of its table: the address pairs with their connection numbers.\<close>

definition uc_abs :: "UdpGwClient \<Rightarrow> nat list \<Rightarrow> (UdpGwClient_conaddr \<times> u16) list" where
  "uc_abs o' xs = map (\<lambda>c. (con_conaddr (uc_con o' c), con_conid (uc_con o' c))) xs"

text \<open>A packet for an address pair: its entry becomes the most recently used one; without an entry, the least
  recently used one is taken over when the table is full, and otherwise a new one with an unused
  number is added, unless memory runs out.\<close>

inductive lru_submit :: "int \<Rightarrow> UdpGwClient_conaddr \<Rightarrow> (UdpGwClient_conaddr \<times> u16) list \<Rightarrow> (UdpGwClient_conaddr \<times> u16) list \<Rightarrow> bool"
  for max ca where
  hit: "lru_submit max ca (us @ (ca, k) # vs) (us @ vs @ [(ca, k)])"
| evict: "ca \<notin> fst ` set ((ca0, k) # us) \<Longrightarrow> int (length ((ca0, k) # us)) = max \<Longrightarrow> lru_submit max ca ((ca0, k) # us) (us @ [(ca, k)])"
| add: "ca \<notin> fst ` set us \<Longrightarrow> int (length us) < max \<Longrightarrow> k \<notin> snd ` set us \<Longrightarrow> uint k < max \<Longrightarrow> lru_submit max ca us (us @ [(ca, k)])"
| nomem: "ca \<notin> fst ` set us \<Longrightarrow> int (length us) < max \<Longrightarrow> lru_submit max ca us us"

lemma uc_abs_touch:
  assumes "uc_ok o' xs" and "c \<in> set xs"
  obtains us vs where "xs = us @ c # vs" "remove1 c xs = us @ vs"
proof -
  obtain us vs where xs: "xs = us @ c # vs" "c \<notin> set us" using assms(2) by (metis split_list_first)
  then show thesis using that by (simp add: remove1_append)
qed

lemma submit_hit:
  assumes ok: "uc_ok o' xs" and c: "c \<in> set xs" and n: "0 \<le> n" "n \<le> uc_udp_mtu o'" and r: "read_at mem data (nat n) = Some payload"
  shows "\<exists>o2 outs. connection_send mem (uc_touch o' c) c flags data n = Some (o2, outs) \<and> uc_ok o2 (remove1 c xs @ [c]) \<and>
    uc_abs o2 (remove1 c xs @ [c]) = uc_abs o' (remove1 c xs @ [c]) \<and> uc_max_connections o2 = uc_max_connections o' \<and>
    uc_have_server o2 = uc_have_server o' \<and> uc_udp_mtu o2 = uc_udp_mtu o'"
proof -
  obtain log where inv: "uc_inv o' xs log" using ok by (auto simp: uc_ok_def)
  let ?o = "uc_touch o' c"
  have same: "uc_con ?o = uc_con o'" "uc_udp_mtu ?o = uc_udp_mtu o'" "uc_send_queue ?o = uc_send_queue o'"
    "uc_max_connections ?o = uc_max_connections o'" "uc_have_server ?o = uc_have_server o'" by (simp_all add: uc_touch_def)
  have s: "set (remove1 c xs @ [c]) = set xs" using c uc_table_distinct [OF uc_invD(2) [OF inv]] by (auto simp: set_remove1_eq)
  obtain o2 outs log2 where o2: "connection_send mem ?o c flags data n = Some (o2, outs)" "uc_inv o2 (remove1 c xs @ [c]) log2"
      "\<forall>d. uc_con o2 d = (uc_con ?o d)\<lparr>con_send_ppflow := con_send_ppflow (uc_con o2 d)\<rparr>" "uc_send_queue o2 = uc_send_queue ?o"
      "uc_have_server o2 = uc_have_server ?o" "uc_udp_mtu o2 = uc_udp_mtu ?o" "uc_max_connections o2 = uc_max_connections ?o"
    using connection_send_inv [OF uc_touch_inv [OF inv c] _ n(1) _ r, of c flags] n(2) same(2) by auto
  have k: "con_conaddr (uc_con o2 d) = con_conaddr (uc_con o' d)" "con_conid (uc_con o2 d) = con_conid (uc_con o' d)"
    "con_first_data_len (uc_con o2 d) = con_first_data_len (uc_con o' d)" for d
    using o2(3) [rule_format, of d] unfolding same(1) by (metis UdpGwClient_connection.select_convs UdpGwClient_connection.surjective UdpGwClient_connection.update_convs(7))+
  have "uc_first o2 (remove1 c xs @ [c])" using ok o2(6) same(2) s by (simp add: uc_ok_def uc_first_def k)
  then have "uc_ok o2 (remove1 c xs @ [c])" using o2(2,4) same(3) ok by (auto simp: uc_ok_def)
  moreover have "uc_abs o2 (remove1 c xs @ [c]) = uc_abs o' (remove1 c xs @ [c])" by (simp add: uc_abs_def k)
  ultimately show ?thesis using o2(1,5,6,7) same(2,4,5) by auto
qed

lemma ip_addr_type: "is_ip_addr a \<Longrightarrow> baddr_type a = 1 \<or> baddr_type a = 2"
  by (cases a) simp_all

lemma uc_abs_keys:
  assumes "uc_ok o' xs"
  shows "fst ` set (uc_abs o' xs) = (\<lambda>c. con_conaddr (uc_con o' c)) ` set xs"
    and "snd ` set (uc_abs o' xs) = (\<lambda>c. con_conid (uc_con o' c)) ` set xs" and "length (uc_abs o' xs) = length xs"
  by (auto simp: uc_abs_def image_image)

lemma submit_evict:
  assumes ok: "uc_ok o' (c # ys)" and ca: "is_conaddr ca" and none: "find_connection_by_conaddr o' ca = Some None"
    and n: "0 \<le> n" "n \<le> uc_udp_mtu o'" and r: "read_at mem data (nat n) = Some payload"
  shows "\<exists>o1 o2 outs. reuse_connection o' ca = Some (o1, c) \<and> connection_send mem (uc_touch o1 c) c flags data n = Some (o2, outs) \<and>
    uc_ok o2 (ys @ [c]) \<and> uc_abs o2 (ys @ [c]) = uc_abs o' ys @ [(ca, con_conid (uc_con o' c))] \<and>
    uc_max_connections o2 = uc_max_connections o' \<and> uc_have_server o2 = uc_have_server o' \<and> uc_udp_mtu o2 = uc_udp_mtu o'"
proof -
  obtain log where inv: "uc_inv o' (c # ys) log" using ok by (auto simp: uc_ok_def)
  obtain o1 where o1: "reuse_connection o' ca = Some (o1, c)" "uc_inv o1 (c # ys) log"
      "uc_con o1 = (uc_con o')(c := (uc_con o' c)\<lparr>con_conaddr := ca\<rparr>)" "uc_udp_mtu o1 = uc_udp_mtu o'"
      "uc_have_server o1 = uc_have_server o'" "uc_send_queue o1 = uc_send_queue o'" "uc_max_connections o1 = uc_max_connections o'"
    using reuse_connection_ok [OF inv ca none] by blast
  have ok1: "uc_ok o1 (c # ys)" using ok o1 by (auto simp: uc_ok_def uc_first_def)
  have n1: "n \<le> uc_udp_mtu o1" using n(2) o1(4) by simp
  obtain o2 outs where o2: "connection_send mem (uc_touch o1 c) c flags data n = Some (o2, outs)" "uc_ok o2 (ys @ [c])"
      "uc_abs o2 (ys @ [c]) = uc_abs o1 (ys @ [c])" "uc_max_connections o2 = uc_max_connections o1" "uc_have_server o2 = uc_have_server o1" "uc_udp_mtu o2 = uc_udp_mtu o1"
    using submit_hit [OF ok1 _ n(1) n1 r, of c flags] by auto
  have "c \<notin> set ys" using uc_table_distinct [OF uc_invD(2) [OF inv]] by simp
  then have "uc_abs o1 (ys @ [c]) = uc_abs o' ys @ [(ca, con_conid (uc_con o' c))]"
    by (auto simp: uc_abs_def o1(3))
  then show ?thesis using o1 o2 by auto
qed

lemma submit_new:
  assumes ok: "uc_ok o' xs" and ca: "is_conaddr ca" and none: "find_connection_by_conaddr o' ca = Some None"
    and absent: "\<forall>c\<in>set xs. con_conaddr (uc_con o' c) \<noteq> ca"
    and n: "0 \<le> n" "n \<le> uc_udp_mtu o'" and env: "uc_env_ok env xs" and room: "int (length xs) < uc_max_connections o'"
  shows "\<exists>o2 outs xs2. connection_init env o' ca flags data n = Some (o2, outs) \<and> uc_ok o2 xs2 \<and>
    lru_submit (uc_max_connections o') ca (uc_abs o' xs) (uc_abs o2 xs2) \<and>
    uc_max_connections o2 = uc_max_connections o' \<and> uc_have_server o2 = uc_have_server o' \<and> uc_udp_mtu o2 = uc_udp_mtu o'"
proof -
  obtain log where inv: "uc_inv o' xs log" and fr: "\<not> fq_freeing (uc_send_queue o')" using ok by (auto simp: uc_ok_def)
  have ca_new: "ca \<notin> fst ` set (uc_abs o' xs)" using absent uc_abs_keys(1) [OF ok] by auto
  obtain o2 outs where step: "connection_init env o' ca flags data n = Some (o2, outs)" and fr2: "\<not> fq_freeing (uc_send_queue o2)"
    and same: "uc_have_server o2 = uc_have_server o'" "uc_udp_mtu o2 = uc_udp_mtu o'" "uc_max_connections o2 = uc_max_connections o'"
    and alt: "uc_inv o2 xs log \<and> (\<forall>d\<in>set xs. uc_con o2 d = uc_con o' d) \<or>
     (\<exists>c k flow. ue_con env = Some c \<and> uc_inv o2 (xs @ [c]) (log(c := [])) \<and>
        uc_con o2 = (uc_con o')(c := \<lparr>con_conaddr = ca, con_first_flags = flags, con_first_data = data, con_first_data_len = n,
          con_conid = k, con_first_job = True, con_send_ppflow = flow\<rparr>))"
    using connection_init_ok [OF inv env fr ca none room n] by blast
  from alt show ?thesis
  proof
    assume a: "uc_inv o2 xs log \<and> (\<forall>d\<in>set xs. uc_con o2 d = uc_con o' d)"
    then have "uc_ok o2 xs" "uc_abs o2 xs = uc_abs o' xs" using ok same(2) fr2 by (auto simp: uc_ok_def uc_first_def uc_abs_def)
    then show ?thesis using step same lru_submit.nomem [OF ca_new] room uc_abs_keys(3) [OF ok] by metis
  next
    assume "\<exists>c k flow. ue_con env = Some c \<and> uc_inv o2 (xs @ [c]) (log(c := [])) \<and>
        uc_con o2 = (uc_con o')(c := \<lparr>con_conaddr = ca, con_first_flags = flags, con_first_data = data, con_first_data_len = n,
          con_conid = k, con_first_job = True, con_send_ppflow = flow\<rparr>)"
    then obtain c k flow where c: "ue_con env = Some c" "uc_inv o2 (xs @ [c]) (log(c := []))"
      "uc_con o2 = (uc_con o')(c := \<lparr>con_conaddr = ca, con_first_flags = flags, con_first_data = data, con_first_data_len = n,
          con_conid = k, con_first_job = True, con_send_ppflow = flow\<rparr>)" by blast
    have nc: "c \<notin> set xs" using env c(1) by (simp add: uc_env_ok_def)
    have ok2: "uc_ok o2 (xs @ [c])" using ok same(2) fr2 c(2,3) n by (auto simp: uc_ok_def uc_first_def)
    have abs: "uc_abs o2 (xs @ [c]) = uc_abs o' xs @ [(ca, k)]" using nc by (auto simp: uc_abs_def c(3))
    have "inj_on (\<lambda>c. con_conid (uc_con o2 c)) (set (xs @ [c]))" "uint k < uc_max_connections o2"
      using uc_conid_inj(1) [OF uc_invD(2) [OF c(2)]] uc_invD(2) [OF c(2)] by (auto simp: uc_table_def c(3))
    then have "k \<notin> snd ` set (uc_abs o' xs)" "uint k < uc_max_connections o'"
      using nc same(3) uc_abs_keys(2) [OF ok] by (auto simp: c(3) inj_on_def)
    then show ?thesis using step ok2 abs same lru_submit.add [OF ca_new] room uc_abs_keys(3) [OF ok] by metis
  qed
qed

text \<open>A submitted packet is handled without a failure, and changes the table as described.\<close>

lemma UdpGwClient_SubmitPacket_ok:
  assumes ok: "uc_ok o' xs" and ip: "is_ip_addr la" "is_ip_addr ra" and n: "0 \<le> n" "n \<le> uc_udp_mtu o'"
    and r: "read_at mem data (nat n) = Some payload" and env: "uc_env_ok env xs"
  shows "\<exists>o2 outs xs2. UdpGwClient_SubmitPacket env mem o' la ra is_dns data n = Some (o2, outs) \<and> uc_ok o2 xs2 \<and>
    lru_submit (uc_max_connections o') \<lparr>ca_local_addr = la, ca_remote_addr = ra\<rparr> (uc_abs o' xs) (uc_abs o2 xs2) \<and>
    uc_max_connections o2 = uc_max_connections o' \<and> uc_have_server o2 = uc_have_server o' \<and> uc_udp_mtu o2 = uc_udp_mtu o'"
proof -
  let ?ca = "\<lparr>ca_local_addr = la, ca_remote_addr = ra\<rparr>"
  have ca: "is_conaddr ?ca" using ip by (simp add: is_conaddr_def)
  obtain log where T: "uc_table o' xs" using ok by (auto simp: uc_ok_def uc_inv_def)
  then have num: "uc_num_connections o' = int (length xs)" "int (length xs) \<le> uc_max_connections o'" "0 < uc_max_connections o'"
    by (auto simp: uc_table_def)
  note step = UdpGwClient_SubmitPacket_def c_assert_bind ip_addr_type [OF ip(1)] ip_addr_type [OF ip(2)] n Let_def
  show ?thesis using T ca
  proof (cases rule: find_by_conaddr)
    case (found c)
    obtain us vs where xs: "xs = us @ c # vs" "remove1 c xs = us @ vs" using uc_abs_touch [OF ok found(1)] .
    obtain o2 outs where o2: "connection_send mem (uc_touch o' c) c (if is_dns then 0 OR UDPGW_CLIENT_FLAG_DNS else 0) data n = Some (o2, outs)"
        "uc_ok o2 (remove1 c xs @ [c])" "uc_abs o2 (remove1 c xs @ [c]) = uc_abs o' (remove1 c xs @ [c])"
        "uc_max_connections o2 = uc_max_connections o'" "uc_have_server o2 = uc_have_server o'" "uc_udp_mtu o2 = uc_udp_mtu o'"
      using submit_hit [OF ok found(1) n r] by blast
    have "UdpGwClient_SubmitPacket env mem o' la ra is_dns data n = Some (o2, outs)" using o2(1) found(3) by (simp add: step)
    moreover have "uc_abs o' xs = uc_abs o' us @ (?ca, con_conid (uc_con o' c)) # uc_abs o' vs"
      "uc_abs o' (remove1 c xs @ [c]) = uc_abs o' us @ uc_abs o' vs @ [(?ca, con_conid (uc_con o' c))]"
      unfolding xs(2) by (simp_all add: uc_abs_def xs(1) found(2))
    then have "lru_submit (uc_max_connections o') ?ca (uc_abs o' xs) (uc_abs o2 (remove1 c xs @ [c]))"
      unfolding o2(3) by (metis lru_submit.hit)
    ultimately show ?thesis using o2(2,4-6) by blast
  next
    case none
    show ?thesis
    proof (cases "int (length xs) = uc_max_connections o'")
      case True
      obtain c ys where xs: "xs = c # ys" using True num(3) by (cases xs) auto
      obtain o1 o2 outs where o2: "reuse_connection o' ?ca = Some (o1, c)"
          "connection_send mem (uc_touch o1 c) c ((if is_dns then 0 OR UDPGW_CLIENT_FLAG_DNS else 0) OR UDPGW_CLIENT_FLAG_REBIND) data n = Some (o2, outs)"
          "uc_ok o2 (ys @ [c])" "uc_abs o2 (ys @ [c]) = uc_abs o' ys @ [(?ca, con_conid (uc_con o' c))]"
          "uc_max_connections o2 = uc_max_connections o'" "uc_have_server o2 = uc_have_server o'" "uc_udp_mtu o2 = uc_udp_mtu o'"
        using submit_evict [OF ok [unfolded xs] ca none(2) n r] by blast
      have "UdpGwClient_SubmitPacket env mem o' la ra is_dns data n = Some (o2, outs)"
        using o2(1,2) none(2) True num(1) by (simp add: step)
      moreover have "?ca \<notin> fst ` set (uc_abs o' xs)" "int (length (uc_abs o' xs)) = uc_max_connections o'"
        using none(1) uc_abs_keys [OF ok] True by auto
      then have "lru_submit (uc_max_connections o') ?ca (uc_abs o' xs) (uc_abs o2 (ys @ [c]))"
        unfolding o2(4) xs by (simp only: uc_abs_def list.map) (rule lru_submit.evict, assumption+)
      ultimately show ?thesis using o2(3,5-7) by blast
    next
      case False
      then have room: "int (length xs) < uc_max_connections o'" using num(2) by simp
      then show ?thesis using submit_new [OF ok ca none(2,1) n env room, of "if is_dns then 0 OR UDPGW_CLIENT_FLAG_DNS else 0" data] none(2) False num(1)
        by (simp add: step)
    qed
  qed
qed

subsection \<open>Receiving\<close>

lemma read_at_inner:
  "read_at m off n = Some bs \<Longrightarrow> i + k \<le> n \<Longrightarrow> read_at m (off + i) k = Some (take k (drop i bs))"
  by (auto simp: read_at_def drop_take min_def add.commute split: if_splits)

lemma recv_address_total:
  assumes "read_at mem data (nat n) = Some bs" and "0 \<le> n"
  shows "recv_address mem flags data n = Some None \<or>
    (\<exists>a k. recv_address mem flags data n = Some (Some (a, k)) \<and> int k \<le> n \<and> is_ip_addr a)"
proof -
  have "read_at mem data 18 = Some (take 18 bs)" "length (take 18 bs) = 18" if "18 \<le> n"
    using that read_at_inner [OF assms(1), of 0 18] read_at_length [OF assms(1)] by simp_all
  moreover have "read_at mem data 6 = Some (take 6 bs)" if "6 \<le> n"
    using that read_at_inner [OF assms(1), of 0 6] by simp
  ultimately show ?thesis by (auto simp: recv_address_def BAddr_InitIPv4_def BAddr_InitIPv6_def)
qed

text \<open>Whatever the server sends, the message is dropped, or passed to the user for a connection that exists and has the
  number and the remote address of the message; then the connection becomes the most recently used one.\<close>

lemma recv_handler_ok:
  assumes ok: "uc_ok o' xs" and srv: "uc_have_server o'" and n: "0 \<le> n" "n \<le> uc_udpgw_mtu o'"
    and r: "read_at mem data (nat n) = Some bs"
  shows "recv_interface_handler_send mem o' data n = Some (o', [UC_RecvDone]) \<or>
    (\<exists>c k. c \<in> set xs \<and> 3 \<le> n \<and> con_conid (uc_con o' c) = le_word (take 2 (drop 1 bs)) \<and> int k \<le> n \<and> n - int k \<le> uc_udp_mtu o' \<and>
      recv_interface_handler_send mem o' data n = Some (uc_touch o' c, [UC_RecvDone,
        UC_Received (ca_local_addr (con_conaddr (uc_con o' c))) (ca_remote_addr (con_conaddr (uc_con o' c))) (data + k) (n - int k)]))"
proof (cases "n < 3")
  case True
  then show ?thesis using srv n by (simp add: recv_interface_handler_send_def c_assert_bind)
next
  case False
  have T: "uc_table o' xs" using ok by (auto simp: uc_ok_def uc_inv_def)
  have h: "read_at mem data 3 = Some (take 3 bs)" using read_at_inner [OF r, of 0 3] False by simp
  have rest: "read_at mem (data + 3) (nat (n - 3)) = Some (take (nat (n - 3)) (drop 3 bs))"
    using read_at_inner [OF r, of 3 "nat (n - 3)"] False by simp
  let ?hd = "udpgw_header_of_bytes (take 3 bs)"
  have id: "ltoh16 (ug_conid ?hd) = le_word (take 2 (drop 1 bs))"
    by (simp add: udpgw_header_of_bytes_def ltoh16_def drop_take)
  note step = recv_interface_handler_send_def c_assert_bind srv n h
  from recv_address_total [OF rest, of "ltoh8 (ug_flags ?hd)"] False consider
    "recv_address mem (ltoh8 (ug_flags ?hd)) (data + 3) (n - 3) = Some None" |
    a k where "recv_address mem (ltoh8 (ug_flags ?hd)) (data + 3) (n - 3) = Some (Some (a, k))" "int k \<le> n - 3" by fastforce
  then show ?thesis
  proof cases
    case 1
    then show ?thesis using False by (simp add: step Let_def)
  next
    case (2 a k)
    show ?thesis using T
    proof (cases rule: find_by_conid [of o' xs "ltoh16 (ug_conid ?hd)"])
      case (found c)
      show ?thesis
      proof (cases "n - 3 - int k > uc_udp_mtu o' \<or> BAddr_CompareOrder (ca_remote_addr (con_conaddr (uc_con o' c))) a \<noteq> 0")
        case True
        then show ?thesis using 2 False found(3) by (auto simp: step Let_def)
      next
        case ok: False
        have "recv_interface_handler_send mem o' data n = Some (uc_touch o' c, [UC_RecvDone,
            UC_Received (ca_local_addr (con_conaddr (uc_con o' c))) (ca_remote_addr (con_conaddr (uc_con o' c))) (data + (3 + k)) (n - int (3 + k))])"
          using 2 False found(3) ok by (simp add: step Let_def uc_touch_def add.assoc)
        then show ?thesis using found(1,2) id 2(2) ok False by (intro disjI2 exI [of _ c] exI [of _ "3 + k"]) auto
      qed
    next
      case none
      then show ?thesis using 2 False by (auto simp: step Let_def)
    qed
  qed
qed

lemma recv_handler_uc_ok:
  assumes "uc_ok o' xs" and "c \<in> set xs"
  shows "uc_ok (uc_touch o' c) (remove1 c xs @ [c])" "uc_abs (uc_touch o' c) ys = uc_abs o' ys"
proof -
  obtain log where "uc_inv o' xs log" using assms(1) by (auto simp: uc_ok_def)
  from uc_touch_inv [OF this assms(2)] have "\<exists>log. uc_inv (uc_touch o' c) (remove1 c xs @ [c]) log" by blast
  moreover have "uc_first (uc_touch o' c) (remove1 c xs @ [c])"
    using assms set_remove1_subset [of c xs] by (auto simp: uc_ok_def uc_first_def uc_touch_def)
  ultimately show "uc_ok (uc_touch o' c) (remove1 c xs @ [c])" using assms(1) by (simp add: uc_ok_def uc_touch_def)
  show "uc_abs (uc_touch o' c) ys = uc_abs o' ys" by (simp add: uc_abs_def uc_touch_def)
qed

subsection \<open>Runs\<close>

text \<open>Input and output of the fair queue do not change its flows.\<close>

lemma fq_io_frame:
  assumes "fq_inv m" and "fq_allowed m op" and "fq_step m op = Some (m', outs)"
    and "op \<in> {FqDone, FqJob} \<union> range (\<lambda>(f, d, n). FqSend f d n)"
  shows "fq_flows_list m' = fq_flows_list m \<and> fq_freeing m' = fq_freeing m"
proof -
  from assms(4) consider "op = FqDone" | "op = FqJob" | f d n where "op = FqSend f d n" by auto
  then show ?thesis
  proof cases
    case 1
    then show ?thesis using fq_done_result [of m] assms(1-3) by (fastforce simp: fq_inv_def)
  next
    case 2
    show ?thesis using assms(1) assms(2) [unfolded 2]
      by (cases rule: fq_job_cases) (use assms(3) 2 in \<open>auto simp: fq_scheduled_def simp del: fq_step.simps\<close>)
  next
    case 3
    show ?thesis using assms(1) assms(2) [unfolded 3]
      by (cases rule: fq_send_cases) (use assms(3) 3 in \<open>auto simp: fq_scheduled_def fq_enqueue_def simp del: fq_step.simps\<close>)
  qed
qed

text \<open>Besides the calls of the user, the server and the job queue, the framing flows and the fair queue make
  progress on their own. A framing flow moves between reachable states without changing what was written
  to it; the fair queue takes any step that neither adds nor frees flows. Memory passed to the client is valid, and
  the user sends only datagrams that fit.\<close>

inductive uc_io :: "UdpGwClient \<Rightarrow> UdpGwClient \<Rightarrow> bool" where
  submit: "is_list (uc_connections_list o') xs \<Longrightarrow> uc_env_ok env xs \<Longrightarrow> is_ip_addr la \<Longrightarrow> is_ip_addr ra \<Longrightarrow>
    0 \<le> n \<Longrightarrow> n \<le> uc_udp_mtu o' \<Longrightarrow> read_at mem data (nat n) \<noteq> None \<Longrightarrow>
    UdpGwClient_SubmitPacket env mem o' la ra is_dns data n = Some (o2, outs) \<Longrightarrow> uc_io o' o2"
| receive: "uc_have_server o' \<Longrightarrow> 0 \<le> n \<Longrightarrow> n \<le> uc_udpgw_mtu o' \<Longrightarrow> read_at mem data (nat n) \<noteq> None \<Longrightarrow>
    recv_interface_handler_send mem o' data n = Some (o2, outs) \<Longrightarrow> uc_io o' o2"
| job: "is_list (uc_connections_list o') xs \<Longrightarrow> c \<in> set xs \<Longrightarrow> con_first_job (uc_con o' c) \<Longrightarrow>
    read_at mem (con_first_data (uc_con o' c)) (nat (con_first_data_len (uc_con o' c))) \<noteq> None \<Longrightarrow>
    connection_first_job_handler mem (uc_upd c (con_first_job_update (\<lambda>_. False)) o') c = Some (o2, outs) \<Longrightarrow> uc_io o' o2"
| flow: "is_list (uc_connections_list o') xs \<Longrightarrow> c \<in> set xs \<Longrightarrow>
    ppf_reach (nat (uc_udpgw_mtu o')) (nat (uc_send_buffer_size o')) (con_send_ppflow (uc_con o' c)) pend0 ss0 inn out0 \<Longrightarrow>
    ppf_reach (nat (uc_udpgw_mtu o')) (nat (uc_send_buffer_size o')) f pend ss inn (out0 @ out) \<Longrightarrow>
    uc_io o' (uc_upd c (con_send_ppflow_update (\<lambda>_. f)) o')"
| queue: "fq_allowed (uc_send_queue o') op \<Longrightarrow> op \<in> {FqDone, FqJob} \<union> range (\<lambda>(f, d, n). FqSend f d n) \<Longrightarrow>
    fq_step (uc_send_queue o') op = Some (q, qouts) \<Longrightarrow> uc_io o' (o'\<lparr>uc_send_queue := q\<rparr>)"
| monitor: "send_monitor_handler o' = (o2, outs) \<Longrightarrow> uc_io o' o2"
| keepalive: "keepalive_if_handler_done o' = Some o2 \<Longrightarrow> uc_io o' o2"

inductive uc_reach :: "UdpGwClient \<Rightarrow> bool" where
  init: "UdpGwClient_Init size_max udp_mtu max_connections send_buffer_size junk = Some (Some o') \<Longrightarrow>
    udp_mtu \<le> INT_MAX \<Longrightarrow> 4294967295 \<le> size_max \<Longrightarrow> pb_sizes_ok (2 + nat (21 + udp_mtu)) (nat send_buffer_size) \<Longrightarrow> uc_reach o'"
| io: "uc_reach o' \<Longrightarrow> uc_io o' o2 \<Longrightarrow> uc_reach o2"
| connect: "uc_reach o' \<Longrightarrow> UdpGwClient_ConnectServer malloc o' = Some (Some (o2, outs)) \<Longrightarrow> uc_reach o2"
| disconnect: "uc_reach o' \<Longrightarrow> UdpGwClient_DisconnectServer o' = Some (o2, outs) \<Longrightarrow> uc_reach o2"

lemma uc_ok_list: "uc_ok o' xs \<Longrightarrow> is_list (uc_connections_list o') xs"
  by (auto simp: uc_ok_def uc_inv_def uc_table_def)

lemma uc_ok_cong:
  assumes "uc_ok o' xs" and "uc_connections_tree_by_conaddr o2 = uc_connections_tree_by_conaddr o'"
    "uc_connections_tree_by_conid o2 = uc_connections_tree_by_conid o'" "uc_connections_list o2 = uc_connections_list o'"
    "uc_num_connections o2 = uc_num_connections o'" "uc_max_connections o2 = uc_max_connections o'" "uc_next_conid o2 = uc_next_conid o'"
    "uc_con o2 = uc_con o'" "uc_udp_mtu o2 = uc_udp_mtu o'" "uc_udpgw_mtu o2 = uc_udpgw_mtu o'" "uc_send_buffer_size o2 = uc_send_buffer_size o'"
    and q: "fq_inv (uc_send_queue o2)" "\<not> fq_freeing (uc_send_queue o2)" "fq_flows_list (uc_send_queue o2) = fq_flows_list (uc_send_queue o')"
  shows "uc_ok o2 xs"
proof -
  obtain log where "uc_inv o' xs log" using assms(1) by (auto simp: uc_ok_def)
  note inv = uc_invD [OF this]
  have "uc_table o2 xs" using inv(2) assms(2-8) by (subst uc_table_cong [of _ o']) simp_all
  moreover have "uc_conf o2" using inv(1) assms(9-11) by (subst uc_conf_cong [of _ o']) simp_all
  moreover have "uc_queue o2 xs" using inv(3) q by (simp add: uc_queue_def)
  moreover have "uc_flows o2 xs log" using inv(4) assms(8,10,11) by (simp add: uc_flows_def)
  ultimately have "uc_inv o2 xs log" by (simp add: uc_inv_def)
  then show ?thesis using assms(1,8,9) q(2) by (auto simp: uc_ok_def uc_first_def)
qed

lemma uc_ok_queue: "uc_ok o' xs \<Longrightarrow> fq_inv (uc_send_queue o') \<and> \<not> fq_freeing (uc_send_queue o')"
  by (auto simp: uc_ok_def uc_inv_def uc_queue_def)

text \<open>Updating a connection without touching its keys.\<close>

lemma uc_ok_upd:
  assumes "uc_ok o' xs" and "\<And>con. con_conaddr (u con) = con_conaddr con \<and> con_conid (u con) = con_conid con \<and> con_first_data_len (u con) = con_first_data_len con"
    and "(\<forall>con. con_send_ppflow (u con) = con_send_ppflow con) \<or>
      (\<exists>pend ss inn out. ppf_reach (nat (uc_udpgw_mtu o')) (nat (uc_send_buffer_size o')) (con_send_ppflow (u (uc_con o' c))) pend ss inn out)"
  shows "uc_ok (uc_upd c u o') xs"
proof -
  obtain log where "uc_inv o' xs log" using assms(1) by (auto simp: uc_ok_def)
  note inv = uc_invD [OF this]
  have "uc_table (uc_upd c u o') xs" using inv(2) assms(2) by (subst uc_table_cong [of _ o']) simp_all
  moreover have "uc_conf (uc_upd c u o')" using inv(1) by (subst uc_conf_cong [of _ o']) simp_all
  moreover have "uc_queue (uc_upd c u o') xs" using inv(3) by (simp add: uc_queue_def)
  moreover have "\<exists>log. uc_flows (uc_upd c u o') xs log"
  proof (cases "\<forall>con. con_send_ppflow (u con) = con_send_ppflow con")
    case True
    then have "uc_flows (uc_upd c u o') xs log" using inv(4) by (auto simp: uc_flows_def)
    then show ?thesis by blast
  next
    case False
    then obtain pend ss inn out where
      "ppf_reach (nat (uc_udpgw_mtu o')) (nat (uc_send_buffer_size o')) (con_send_ppflow (u (uc_con o' c))) pend ss inn out" using assms(3) by blast
    then have "uc_flows (uc_upd c u o') xs (log(c := inn))" using inv(4) by (auto simp: uc_flows_def)
    then show ?thesis by blast
  qed
  moreover have "uc_first (uc_upd c u o') xs" using assms(1,2) by (auto simp: uc_ok_def uc_first_def)
  ultimately show ?thesis using assms(1) by (auto simp: uc_ok_def uc_inv_def)
qed

lemma first_job_ok:
  assumes ok: "uc_ok o' xs" and c: "c \<in> set xs"
    and r: "read_at mem (con_first_data (uc_con o' c)) (nat (con_first_data_len (uc_con o' c))) = Some payload"
  shows "\<exists>o2 outs. connection_first_job_handler mem (uc_upd c (con_first_job_update (\<lambda>_. False)) o') c = Some (o2, outs) \<and> uc_ok o2 xs"
proof -
  let ?o = "uc_upd c (con_first_job_update (\<lambda>_. False)) o'" and ?n = "con_first_data_len (uc_con o' c)"
  have ok1: "uc_ok ?o xs" by (rule uc_ok_upd [OF ok]) simp_all
  obtain log where inv: "uc_inv ?o xs log" using ok1 by (auto simp: uc_ok_def)
  have n: "0 \<le> ?n" "?n \<le> uc_udp_mtu ?o" using ok c by (auto simp: uc_ok_def uc_first_def)
  from connection_send_inv [OF inv c n r, of "UDPGW_CLIENT_FLAG_REBIND OR con_first_flags (uc_con o' c)"]
  obtain o2 outs log2 where o2: "connection_send mem ?o c (UDPGW_CLIENT_FLAG_REBIND OR con_first_flags (uc_con o' c)) (con_first_data (uc_con o' c)) ?n = Some (o2, outs)"
    "uc_inv o2 xs log2" "\<forall>d. uc_con o2 d = (uc_con ?o d)\<lparr>con_send_ppflow := con_send_ppflow (uc_con o2 d)\<rparr>"
    "uc_send_queue o2 = uc_send_queue ?o" "uc_udp_mtu o2 = uc_udp_mtu ?o" by blast
  have "con_first_data_len (uc_con o2 d) = con_first_data_len (uc_con ?o d)" for d
    using o2(3) [rule_format, of d] by (metis UdpGwClient_connection.select_convs(4) UdpGwClient_connection.surjective UdpGwClient_connection.update_convs(7))
  then have "uc_ok o2 xs" using o2(2,4,5) ok1 by (auto simp: uc_ok_def uc_first_def)
  then show ?thesis using o2(1) by (auto simp: connection_first_job_handler_def Let_def)
qed

lemma connection_send_server:
  assumes "connection_send mem o' c flags d n = Some (o2, outs)"
  shows "uc_have_server o2 = uc_have_server o'"
  using assms by (auto simp: connection_send_def c_assert_bind Let_def bind_eq_Some_conv uc_upd_def BufferWriter_EndPacket_def split: if_splits option.splits prod.splits)

lemma uc_io_ok:
  assumes "uc_io o' o2" and "uc_ok o' xs0"
  shows "(\<exists>xs. uc_ok o2 xs) \<and> uc_have_server o2 = uc_have_server o'"
  using assms
proof cases
  case (submit xs env la ra n mem data is_dns outs)
  then have ok: "uc_ok o' xs" using assms(2) uc_ok_list is_list_unique by blast
  obtain payload where r: "read_at mem data (nat n) = Some payload" using submit by auto
  show ?thesis using UdpGwClient_SubmitPacket_ok [OF ok submit(3-6) r submit(2), of is_dns] submit(8) by auto
next
  case (receive n mem data outs)
  obtain bs where r: "read_at mem data (nat n) = Some bs" using receive by auto
  show ?thesis using recv_handler_ok [OF assms(2) receive(1-3) r] receive(5) assms(2) recv_handler_uc_ok(1) [OF assms(2)]
    by (auto simp: uc_touch_def)
next
  case (job xs c mem outs)
  then have ok: "uc_ok o' xs" using assms(2) uc_ok_list is_list_unique by blast
  have "uc_have_server o2 = uc_have_server o'"
    using connection_send_server job(5) by (fastforce simp: connection_first_job_handler_def Let_def uc_upd_def)
  then show ?thesis using first_job_ok [OF ok job(2)] job(4,5) by force
next
  case (flow xs c pend0 ss0 inn out0 f pend ss out)
  then have ok: "uc_ok o' xs" using assms(2) uc_ok_list is_list_unique by blast
  then have "uc_ok (uc_upd c (con_send_ppflow_update (\<lambda>_. f)) o') xs" using flow(5) by (intro uc_ok_upd) auto
  then show ?thesis using flow(1) by (auto simp: uc_upd_def)
next
  case (queue op q qouts)
  note ok = assms(2)
  have q: "fq_inv q" using fq_step_ok [of "uc_send_queue o'" op] uc_ok_queue [OF ok] queue(2,4) by auto
  have "fq_flows_list q = fq_flows_list (uc_send_queue o')" "fq_freeing q = fq_freeing (uc_send_queue o')"
    using fq_io_frame [OF _ queue(2,4,3)] uc_ok_queue [OF ok] by auto
  then have "uc_ok (o'\<lparr>uc_send_queue := q\<rparr>) xs0" using q uc_ok_queue [OF ok] by (intro uc_ok_cong [OF ok]) simp_all
  then show ?thesis using queue(1) by auto
next
  case (monitor outs)
  then have "uc_ok o2 xs0" using uc_ok_queue [OF assms(2)]
    by (intro uc_ok_cong [OF assms(2)]) (auto simp: send_monitor_handler_def split: if_splits)
  then show ?thesis using monitor by (auto simp: send_monitor_handler_def split: if_splits)
next
  case keepalive
  then have "uc_ok o2 xs0" using uc_ok_queue [OF assms(2)]
    by (intro uc_ok_cong [OF assms(2)]) (auto simp: keepalive_if_handler_done_def c_assert_bind split: if_splits)
  then show ?thesis using keepalive by (auto simp: keepalive_if_handler_done_def c_assert_bind split: if_splits)
qed

lemma uc_connect_ok:
  assumes "uc_ok o' xs" and "UdpGwClient_ConnectServer malloc o' = Some (Some (o2, outs))"
  shows "uc_ok o2 xs" "uc_have_server o2"
proof -
  show "uc_ok o2 xs" using assms(2) uc_ok_queue [OF assms(1)]
    by (intro uc_ok_cong [OF assms(1)]) (auto simp: UdpGwClient_ConnectServer_def c_assert_bind Let_def split: if_splits option.splits prod.splits)
  show "uc_have_server o2"
    using assms(2) by (auto simp: UdpGwClient_ConnectServer_def c_assert_bind Let_def split: if_splits option.splits prod.splits)
qed

lemma uc_disconnect_ok:
  assumes "uc_ok o' xs" and "UdpGwClient_DisconnectServer o' = Some (o2, outs)"
  shows "uc_ok o2 xs" "\<not> uc_have_server o2"
proof -
  show "uc_ok o2 xs" using assms(2) uc_ok_queue [OF assms(1)]
    by (intro uc_ok_cong [OF assms(1)]) (auto simp: UdpGwClient_DisconnectServer_def free_server_def c_assert_bind Let_def split: if_splits)
  show "\<not> uc_have_server o2" using assms(2) by (auto simp: UdpGwClient_DisconnectServer_def free_server_def c_assert_bind Let_def split: if_splits)
qed

lemma uc_reach_ok: "uc_reach o' \<Longrightarrow> \<exists>xs. uc_ok o' xs"
proof (induction rule: uc_reach.induct)
  case (init size_max udp_mtu max_connections send_buffer_size junk o')
  then show ?case using UdpGwClient_Init_ok by blast
next
  case (io o' o2)
  then show ?case using uc_io_ok by blast
next
  case (connect o' malloc o2 outs)
  then show ?case using uc_connect_ok(1) by blast
next
  case (disconnect o' o2 outs)
  then show ?case using uc_disconnect_ok(1) by blast
qed

lemma uc_write_room:
  assumes inv: "uc_inv o' xs log" and c: "c \<in> set xs" and start: "BufferWriter_StartPacket (ppf_ainput (con_send_ppflow (uc_con o' c))) = Some off"
    and len: "int (length msg) \<le> 21 + uc_udp_mtu o'"
  shows "\<exists>m. write_at (pb_mem (ppf_buffer (con_send_ppflow (uc_con o' c)))) off msg = Some m"
proof -
  note C = uc_invD(1) [OF inv]
  obtain pend ss out where "ppf_reach (nat (uc_udpgw_mtu o')) (nat (uc_send_buffer_size o')) (con_send_ppflow (uc_con o' c)) pend ss (log c) out"
    using uc_invD(4) [OF inv] c by (auto simp: uc_flows_def)
  then obtain pkts where "ppf_inv (nat (uc_udpgw_mtu o')) (nat (uc_send_buffer_size o')) (con_send_ppflow (uc_con o' c)) pend ss (log c) out pkts"
    using ppf_reach_inv uc_conf_sizes [OF C] by blast
  moreover have "length msg \<le> nat (uc_udpgw_mtu o')" using len C by (simp add: uc_conf_def)
  ultimately show ?thesis using ppf_write_step [OF _ start] by blast
qed

lemma connection_send_uc_ok:
  assumes ok: "uc_ok o' xs" and c: "c \<in> set xs" and n: "0 \<le> n" "n \<le> uc_udp_mtu o'" and r: "read_at mem d (nat n) = Some payload"
    and step: "connection_send mem o' c flags d n = Some (o2, outs)"
  shows "uc_ok o2 xs"
proof -
  obtain log where inv: "uc_inv o' xs log" using ok by (auto simp: uc_ok_def)
  from connection_send_inv [OF inv c n r, of flags] step obtain log2 where o2: "uc_inv o2 xs log2"
    "\<forall>d. uc_con o2 d = (uc_con o' d)\<lparr>con_send_ppflow := con_send_ppflow (uc_con o2 d)\<rparr>"
    "uc_send_queue o2 = uc_send_queue o'" "uc_udp_mtu o2 = uc_udp_mtu o'" by auto
  have "con_first_data_len (uc_con o2 d) = con_first_data_len (uc_con o' d)" for d
    using o2(2) [rule_format, of d] by (metis UdpGwClient_connection.select_convs(4) UdpGwClient_connection.surjective UdpGwClient_connection.update_convs(7))
  then show ?thesis using o2 ok by (auto simp: uc_ok_def uc_first_def)
qed

subsection \<open>Properties\<close>

lemma or_and_self: "(x OR y) AND y = (y :: byte)"
  by (rule bit_word_eqI) (auto simp: bit_simps)

lemma recv_address_message:
  assumes "is_ip_addr remote" and "flags AND UDPGW_CLIENT_FLAG_IPV6 = 0"
    and r: "read_at mem d (nat n) = Some (udpgw_addr_bytes remote @ payload)" and n: "0 \<le> n"
  shows "recv_address mem (if baddr_type remote = 2 then flags OR UDPGW_CLIENT_FLAG_IPV6 else flags) d n =
    Some (Some (remote, length (udpgw_addr_bytes remote)))"
proof -
  have len: "n = int (length (udpgw_addr_bytes remote)) + int (length payload)"
    using read_at_length [OF r] n by simp
  show ?thesis
  proof (cases remote)
    case (BADDR_IPV4 ip port)
    then have "read_at mem d 6 = Some (udpgw_addr_ipv4_bytes ip port)"
      using read_at_inner [OF r, of 0 6] len by simp
    then show ?thesis using assms(2) len BADDR_IPV4
      by (simp add: recv_address_def BAddr_InitIPv4_def udpgw_addr_ipv4_bytes_def wire_simps)
  next
    case (BADDR_IPV6 ip port)
    then have l: "length ip = 16" using assms(1) by simp
    then have "read_at mem d 18 = Some (udpgw_addr_ipv6_bytes ip port)"
      using read_at_inner [OF r, of 0 18] len BADDR_IPV6 by simp
    then show ?thesis using len BADDR_IPV6 l
      by (simp add: recv_address_def BAddr_InitIPv6_def udpgw_addr_ipv6_bytes_def or_and_self wire_simps, simp add: UDPGW_CLIENT_FLAG_IPV6_def)
  qed (use assms(1) in auto)
qed

lemma recv_message:
  fixes flags :: byte and payload :: "byte list"
  assumes ok: "uc_ok o' xs" and c: "c \<in> set xs" and srv: "uc_have_server o'" and fl: "flags AND UDPGW_CLIENT_FLAG_IPV6 = 0"
    and pl: "int (length payload) \<le> uc_udp_mtu o'"
  defines "remote \<equiv> ca_remote_addr (con_conaddr (uc_con o' c))"
  defines "msg \<equiv> udpgw_message flags (con_conid (uc_con o' c)) remote payload"
  assumes r: "read_at mem data (length msg) = Some msg"
  shows "recv_interface_handler_send mem o' data (int (length msg)) = Some (uc_touch o' c, [UC_RecvDone,
      UC_Received (ca_local_addr (con_conaddr (uc_con o' c))) remote (data + (length msg - length payload)) (int (length payload))])"
    and "read_at mem (data + (length msg - length payload)) (length payload) = Some payload"
proof -
  have T: "uc_table o' xs" and C: "uc_conf o'" using ok by (auto simp: uc_ok_def uc_inv_def)
  have ip: "is_ip_addr remote" using T c by (auto simp: uc_table_def is_conaddr_def remote_def)
  let ?a = "udpgw_addr_bytes remote" and ?fl = "if baddr_type remote = 2 then flags OR UDPGW_CLIENT_FLAG_IPV6 else flags"
  let ?h = "\<lparr>ug_flags = ?fl, ug_conid = con_conid (uc_con o' c)\<rparr>"
  have msg: "msg = udpgw_header_bytes ?h @ ?a @ payload" by (simp add: msg_def udpgw_message_def)
  then have len: "length msg = 3 + length ?a + length payload" by simp
  have mtu: "int (length msg) \<le> uc_udpgw_mtu o'"
    using udpgw_message_length [OF ip, of flags "con_conid (uc_con o' c)" payload] pl C by (simp add: msg_def uc_conf_def)
  have h: "read_at mem data 3 = Some (udpgw_header_bytes ?h)"
    using read_at_inner [OF r, of 0 3] len by (simp add: msg)
  have hd: "udpgw_header_of_bytes (udpgw_header_bytes ?h) = ?h"
    by (simp add: udpgw_header_of_bytes_def udpgw_header_bytes_def wire_simps)
  have rest: "read_at mem (data + 3) (nat (int (length msg) - 3)) = Some (?a @ payload)"
    using read_at_inner [OF r, of 3 "length ?a + length payload"] len by (simp add: msg nat_add_distrib)
  have addr: "recv_address mem ?fl (data + 3) (int (length msg) - 3) = Some (Some (remote, length ?a))"
    using recv_address_message [OF ip fl rest] len by simp
  have look: "find_connection_by_conid o' (con_conid (uc_con o' c)) = Some (Some c)"
    using T
  proof (cases rule: find_by_conid [of o' xs "con_conid (uc_con o' c)"])
    case (found d)
    then have "d = c" using uc_conid_inj(1) [OF T] c by (auto simp: inj_on_def)
    then show ?thesis using found by simp
  next
    case none
    then show ?thesis using c by blast
  qed
  have cmp: "BAddr_CompareOrder remote remote = 0" using BAddr_CompareOrder_zero [OF ip ip] by simp
  show "recv_interface_handler_send mem o' data (int (length msg)) = Some (uc_touch o' c, [UC_RecvDone,
      UC_Received (ca_local_addr (con_conaddr (uc_con o' c))) remote (data + (length msg - length payload)) (int (length payload))])"
    using h hd addr look cmp srv mtu pl len
    by (simp add: recv_interface_handler_send_def c_assert_bind uc_touch_def Let_def remote_def add.assoc)
  show "read_at mem (data + (length msg - length payload)) (length payload) = Some payload"
    using read_at_inner [OF r, of "length msg - length payload" "length payload"] len by (simp add: msg)
qed



text \<open>C30. The search for an unused connection number ends: with room in the table, the loop returns a number below the limit that no
  connection has, whatever the position it starts from.\<close>

theorem udpgw_conid_found:
  assumes "uc_reach o'" and "is_list (uc_connections_list o') xs" and "uc_num_connections o' < uc_max_connections o'"
  shows "\<exists>k. find_unused_conid o' = Some (o'\<lparr>uc_next_conid := k\<rparr>, word_of_int k) \<and> 0 \<le> k \<and> k < uc_max_connections o' \<and>
    (\<forall>c\<in>set xs. con_conid (uc_con o' c) \<noteq> word_of_int k)"
proof -
  have ok: "uc_ok o' xs" using uc_reach_ok [OF assms(1)] uc_ok_list is_list_unique assms(2) by blast
  then have T: "uc_table o' xs" by (auto simp: uc_ok_def uc_inv_def)
  then have "int (length xs) < uc_max_connections o'" using assms(3) by (simp add: uc_table_def)
  from find_unused_conid_ok [OF T this] obtain k where
    k: "find_unused_conid o' = Some (o'\<lparr>uc_next_conid := k\<rparr>, word_of_int k)" "0 \<le> k" "k < uc_max_connections o'" "unused o' xs k" by blast
  have "uint (word_of_int k :: u16) = k" using k T by (simp add: uint_word_of_int uc_table_def)
  then have "\<forall>c\<in>set xs. con_conid (uc_con o' c) \<noteq> word_of_int k" using k(4) by (auto simp: unused_def)
  then show ?thesis using k by blast
qed

text \<open>C29. A message written for a connection and sent back by the server is delivered to the connection it was written for: the bytes
  that \<open>connection_send\<close> puts into the buffer, received by the client again, are passed to the user with the
  connection's local and remote address and the same payload.\<close>

theorem udpgw_roundtrip:
  assumes "uc_reach o'" and "is_list (uc_connections_list o') xs" and "c \<in> set xs" and "uc_have_server o'"
    and fl: "flags AND UDPGW_CLIENT_FLAG_IPV6 = 0" and n: "0 \<le> n" "n \<le> uc_udp_mtu o'" and r: "read_at mem d (nat n) = Some payload"
    and start: "BufferWriter_StartPacket (ppf_ainput (con_send_ppflow (uc_con o' c))) = Some off"
  shows "\<exists>o2 k. connection_send mem o' c flags d n = Some (o2, [UC_EndPacket c k]) \<and>
    (\<forall>mem2 data. read_at mem2 data k = read_at (cb_mem (pb_buf (ppf_buffer (con_send_ppflow (uc_con o2 c))))) off k \<longrightarrow>
      recv_interface_handler_send mem2 o2 data (int k) = Some (uc_touch o2 c, [UC_RecvDone,
        UC_Received (ca_local_addr (con_conaddr (uc_con o' c))) (ca_remote_addr (con_conaddr (uc_con o' c))) (data + (k - length payload)) n]) \<and>
      read_at mem2 (data + (k - length payload)) (length payload) = Some payload)"
proof -
  let ?f = "con_send_ppflow (uc_con o' c)" and ?ca = "con_conaddr (uc_con o' c)"
  have ok: "uc_ok o' xs" using uc_reach_ok [OF assms(1)] uc_ok_list is_list_unique assms(2) by blast
  then obtain log where inv: "uc_inv o' xs log" by (auto simp: uc_ok_def)
  define msg where "msg = udpgw_message flags (con_conid (uc_con o' c)) (ca_remote_addr ?ca) payload"
  have ip: "is_ip_addr (ca_remote_addr ?ca)" using uc_invD(2) [OF inv] assms(3) by (auto simp: uc_table_def is_conaddr_def)
  have pl: "int (length payload) = n" using read_at_length [OF r] n by simp
  obtain m where m: "write_at (pb_mem (ppf_buffer ?f)) off msg = Some m"
    using uc_write_room [OF inv assms(3) start, of msg] udpgw_message_length [OF ip, of flags "con_conid (uc_con o' c)" payload] pl n
    by (auto simp: msg_def)
  let ?o2 = "uc_upd c (con_send_ppflow_update (\<lambda>_. ?f\<lparr>ppf_ainput := fst (BufferWriter_EndPacket (ppf_ainput ?f) (length msg)),
      ppf_buffer := pb_set_mem (ppf_buffer ?f) m\<rparr>)) o'"
  have step: "connection_send mem o' c flags d n = Some (?o2, [UC_EndPacket c (length msg)])"
    using connection_send_write [OF start n refl refl ip r _ m] by (simp add: msg_def)
  have ok2: "uc_ok ?o2 xs" using connection_send_uc_ok [OF ok assms(3) n r] step by blast
  have "read_at m off (length msg) = Some msg" by (rule read_write_same [OF m])
  then have mem2: "read_at (cb_mem (pb_buf (ppf_buffer (con_send_ppflow (uc_con ?o2 c))))) off (length msg) = Some msg"
    by (simp add: pb_set_mem_def)
  have "recv_interface_handler_send mem2 ?o2 data (int (length msg)) = Some (uc_touch ?o2 c, [UC_RecvDone,
        UC_Received (ca_local_addr ?ca) (ca_remote_addr ?ca) (data + (length msg - length payload)) n]) \<and>
      read_at mem2 (data + (length msg - length payload)) (length payload) = Some payload"
    if "read_at mem2 data (length msg) = Some msg" for mem2 data
    using recv_message [OF ok2 assms(3) _ fl, of payload mem2 data] that pl n assms(4) by (simp add: msg_def)
  then show ?thesis using step mem2 by (intro exI [of _ ?o2] exI [of _ "length msg"]) simp
qed

subsection \<open>An example\<close>

declare BAVL_subtree_max.simps [code] BAVL_rebalance.simps [code] BAVL_insert_search.simps [code]
  BAVL_lookup_exact_loop.simps [code] find_unused_conid_loop.simps [code] free_connections_loop.simps [code]

definition uc_example_malloc :: "nat \<Rightarrow> byte list option" where
  "uc_example_malloc n = Some (replicate n 0)"

definition uc_example_flow :: "(PacketProtoFlow \<times> pb_out list) option" where
  "uc_example_flow = PacketProtoFlow_Init 4294967295 uc_example_malloc 31 1"

definition uc_example_conaddr :: UdpGwClient_conaddr where
  "uc_example_conaddr = \<lparr>ca_local_addr = BAddr_InitIPv4 1 2, ca_remote_addr = BAddr_InitIPv4 3 4\<rparr>"

text \<open>Memory before the initialisation.\<close>

definition uc_example_junk :: UdpGwClient where
  "uc_example_junk =
     \<lparr>uc_udp_mtu = 0, uc_max_connections = 0, uc_send_buffer_size = 0, uc_udpgw_mtu = 0, uc_pp_mtu = 0,
      uc_connections_tree_by_conaddr = BAVL_Init (\<lambda>_. \<lparr>n_parent = None, n_link = \<lambda>_. None, n_balance = 0\<rparr>),
      uc_connections_tree_by_conid = BAVL_Init (\<lambda>_. \<lparr>n_parent = None, n_link = \<lambda>_. None, n_balance = 0\<rparr>),
      uc_connections_list = LinkedList1_Init (\<lambda>_. \<lparr>ll_p = None, ll_n = None\<rparr>),
      uc_num_connections = 0, uc_next_conid = 0,
      uc_send_queue = the (PacketPassFairQueue_Init 0 False 1
        (\<lambda>_. \<lparr>ff_time = 0, ff_is_queued = False, ff_data = 0, ff_data_len = 0, ff_handler_busy = False\<rparr>)),
      uc_send_monitor = PacketPassInactivityMonitor_Init False True,
      uc_send_connector = PacketPassConnector_Init 0, uc_keepalive_packet = [], uc_keepalive_sending = False,
      uc_have_server = False, uc_send_sender = PacketStreamSender_Init,
      uc_recv_decoder = fst (the (PacketProtoDecoder_Init uc_example_malloc 0)),
      uc_con = \<lambda>_. \<lparr>con_conaddr = uc_example_conaddr, con_first_flags = 0, con_first_data = 0, con_first_data_len = 0,
        con_conid = 0, con_first_job = False, con_send_ppflow = fst (the uc_example_flow)\<rparr>\<rparr>"

definition uc_example_init :: "UdpGwClient option" where
  "uc_example_init = do {
     r \<leftarrow> UdpGwClient_Init 4294967295 10 2 1 uc_example_junk;
     o' \<leftarrow> r;
     r \<leftarrow> UdpGwClient_ConnectServer uc_example_malloc o';
     map_option fst r }"

definition uc_example_env :: uc_env where
  "uc_example_env = \<lparr>ue_con = Some 1, ue_malloc = uc_example_malloc, ue_size_max = 4294967295\<rparr>"

definition uc_example :: "UdpGwClient option" where
  "uc_example = do {
     o' \<leftarrow> uc_example_init;
     map_option fst (UdpGwClient_SubmitPacket uc_example_env [7, 8, 9] o' (BAddr_InitIPv4 1 2) (BAddr_InitIPv4 3 4) True 0 3) }"

lemma uc_example_init:
  obtains o' where "uc_example_init = Some o'" "uc_reach o'" "is_list (uc_connections_list o') []"
    "uc_max_connections o' = 2" "uc_num_connections o' = 0" "uc_udp_mtu o' = 10" "uc_udpgw_mtu o' = 31" "uc_have_server o'"
proof -
  have "map_option (\<lambda>o'. (uc_max_connections o', uc_num_connections o', uc_udp_mtu o', uc_udpgw_mtu o', uc_have_server o',
      LinkedList1_IsEmpty (uc_connections_list o'))) uc_example_init = Some (2, 0, 10, 31, True, True)" by code_simp
  then obtain o' where e: "uc_example_init = Some o'" "uc_max_connections o' = 2" "uc_num_connections o' = 0" "uc_udp_mtu o' = 10"
    "uc_udpgw_mtu o' = 31" "uc_have_server o'" "LinkedList1_IsEmpty (uc_connections_list o')" by auto
  then obtain o1 outs where o1: "UdpGwClient_Init 4294967295 10 2 1 uc_example_junk = Some (Some o1)"
    "UdpGwClient_ConnectServer uc_example_malloc o1 = Some (Some (o', outs))"
    by (auto simp: uc_example_init_def Option.bind_eq_Some_conv)
  have "pb_sizes_ok (2 + nat (21 + 10)) (nat 1)" by code_simp
  then have "uc_reach o1" by (intro uc_reach.init [OF o1(1)]) (simp_all add: INT_MAX_def)
  then have r: "uc_reach o'" using o1(2) by (rule uc_reach.connect)
  then obtain xs where xs: "uc_ok o' xs" using uc_reach_ok by blast
  then have "uc_num_connections o' = int (length xs)" by (auto simp: uc_ok_def uc_inv_def uc_table_def)
  then have "xs = []" using e(3) by simp
  then show thesis using that e r uc_ok_list [OF xs] by blast
qed

lemma uc_example_reach:
  obtains o' where "uc_example = Some o'" "uc_reach o'" "is_list (uc_connections_list o') [1]" "uc_have_server o'"
    "uc_udp_mtu o' = 10" "con_conaddr (uc_con o' 1) = uc_example_conaddr" "nat (uc_udpgw_mtu o') = 31" "nat (uc_send_buffer_size o') = 1"
    "Some (con_send_ppflow (uc_con o' 1)) = map_option fst uc_example_flow"
proof -
  obtain o0 where o0: "uc_example_init = Some o0" "uc_reach o0" "is_list (uc_connections_list o0) []" "uc_udp_mtu o0 = 10"
    using uc_example_init by blast
  have "map_option (\<lambda>o'. (ll_first (uc_connections_list o'), uc_num_connections o', uc_have_server o', uc_udp_mtu o', uc_udpgw_mtu o', uc_send_buffer_size o'))
      uc_example = Some (Some 1, 1, True, 10, 31, 1)" by code_simp
  then obtain o' where e: "uc_example = Some o'" "ll_first (uc_connections_list o') = Some 1" "uc_num_connections o' = 1" "uc_have_server o'"
    "uc_udp_mtu o' = 10" "uc_udpgw_mtu o' = 31" "uc_send_buffer_size o' = 1" by auto
  have "map_option (\<lambda>o'. (ca_local_addr (con_conaddr (uc_con o' 1)), ca_remote_addr (con_conaddr (uc_con o' 1)))) uc_example =
      Some (ca_local_addr uc_example_conaddr, ca_remote_addr uc_example_conaddr)" by code_simp
  then have e2: "con_conaddr (uc_con o' 1) = uc_example_conaddr" by (simp add: e(1))
  have "map_option (\<lambda>o'. con_send_ppflow (uc_con o' 1)) uc_example = map_option fst uc_example_flow" by code_simp
  then have e3: "Some (con_send_ppflow (uc_con o' 1)) = map_option fst uc_example_flow" by (simp add: e(1))
  have env: "uc_env_ok uc_example_env []" by (simp add: uc_env_ok_def uc_example_env_def malloc_ok_def uc_example_malloc_def)
  obtain outs where "UdpGwClient_SubmitPacket uc_example_env [7, 8, 9] o0 (BAddr_InitIPv4 1 2) (BAddr_InitIPv4 3 4) True 0 3 = Some (o', outs)"
    using e(1) by (auto simp: uc_example_def o0(1))
  from uc_io.submit [OF o0(3) env _ _ _ _ _ this] o0(4) have "uc_io o0 o'"
    by (simp add: BAddr_InitIPv4_def read_at_def)
  then have r: "uc_reach o'" by (rule uc_reach.io [OF o0(2)])
  then obtain xs where xs: "uc_ok o' xs" using uc_reach_ok by blast
  then have "uc_num_connections o' = int (length xs)" by (auto simp: uc_ok_def uc_inv_def uc_table_def)
  then have "length xs = 1" using e(3) by simp
  then have "xs = [1]" using e(2) uc_ok_list [OF xs] by (cases xs) (auto simp: is_list_def)
  then show thesis using that e e2 e3 r uc_ok_list [OF xs] by simp
qed

lemma uc_example_started:
  obtains o' where "uc_reach o'" "is_list (uc_connections_list o') [1]" "uc_have_server o'" "uc_udp_mtu o' = 10"
    "con_conaddr (uc_con o' 1) = uc_example_conaddr" "BufferWriter_StartPacket (ppf_ainput (con_send_ppflow (uc_con o' 1))) = Some 6"
proof -
  obtain o' where o': "uc_reach o'" "is_list (uc_connections_list o') [1]" "uc_have_server o'" "uc_udp_mtu o' = 10"
    "con_conaddr (uc_con o' 1) = uc_example_conaddr" "nat (uc_udpgw_mtu o') = 31" "nat (uc_send_buffer_size o') = 1"
    "Some (con_send_ppflow (uc_con o' 1)) = map_option fst uc_example_flow" using uc_example_reach by blast
  have "case uc_example_flow of Some (f, outs) \<Rightarrow> pb_recvs outs = [Some 4] \<and> pb_sends outs = [] | None \<Rightarrow> False" by code_simp
  then obtain f outs where f: "uc_example_flow = Some (f, outs)" "pb_recvs outs = [Some 4]" "pb_sends outs = []" by (auto split: option.splits)
  have r: "ppf_reach 31 1 f (EncRecv (Some 4) # []) [] [] []"
    using ppf_reach.init [OF f(1) [unfolded uc_example_flow_def]] f by (simp add: malloc_ok_def uc_example_malloc_def)
  obtain enc where "ppe_output_handler_recv (ppf_encoder f) 4 = (enc, [PPE_Recv 6])" by (simp add: ppe_output_handler_recv_def)
  from ppf_reach.enc_recv [OF r this] have "ppf_reach 31 1 (f\<lparr>ppf_encoder := enc\<rparr>) (WrRecv 6 # []) [] [] []" by simp
  from ppf_reach.wr_recv [OF this]
  have r2: "ppf_reach 31 1 (f\<lparr>ppf_encoder := enc, ppf_ainput := bw_output_handler_recv (ppf_ainput f) 6\<rparr>) [] [] [] ([] @ [])" by simp
  have "con_send_ppflow (uc_con o' 1) = f" using o'(8) by (simp add: f(1))
  with r r2 o'(6,7) uc_io.flow [OF o'(2)] have
    "uc_io o' (uc_upd 1 (con_send_ppflow_update (\<lambda>_. f\<lparr>ppf_encoder := enc, ppf_ainput := bw_output_handler_recv (ppf_ainput f) 6\<rparr>)) o')"
    by (metis list.set_intros(1))
  then have "uc_reach (uc_upd 1 (con_send_ppflow_update (\<lambda>_. f\<lparr>ppf_encoder := enc, ppf_ainput := bw_output_handler_recv (ppf_ainput f) 6\<rparr>)) o')"
    by (rule uc_reach.io [OF o'(1)])
  then show thesis by (rule that) (use o' in \<open>simp_all add: bw_output_handler_recv_def BufferWriter_StartPacket_def\<close>)
qed



theorem udpgw_conid_found_witness:
  "\<exists>o' k. uc_example_init = Some o' \<and> uc_num_connections o' < uc_max_connections o' \<and>
     find_unused_conid o' = Some (o'\<lparr>uc_next_conid := k\<rparr>, word_of_int k) \<and> 0 \<le> k \<and> k < 2"
proof -
  obtain o' where o': "uc_example_init = Some o'" "uc_reach o'" "is_list (uc_connections_list o') []" "uc_max_connections o' = 2" "uc_num_connections o' = 0"
    using uc_example_init by blast
  from udpgw_conid_found [OF o'(2,3)] o' show ?thesis by - (rule exI [of _ o'], auto)
qed

lemma length_3: "length [x, y, z] = 3"
  by simp

theorem udpgw_roundtrip_witness:
  "\<exists>o' o2 k. uc_reach o' \<and> connection_send [7, 8, 9] o' 1 4 0 3 = Some (o2, [UC_EndPacket 1 k]) \<and>
     (\<forall>mem2 data. read_at mem2 data k = read_at (cb_mem (pb_buf (ppf_buffer (con_send_ppflow (uc_con o2 1))))) 6 k \<longrightarrow>
       recv_interface_handler_send mem2 o2 data (int k) = Some (uc_touch o2 1, [UC_RecvDone,
         UC_Received (BAddr_InitIPv4 1 2) (BAddr_InitIPv4 3 4) (data + (k - 3)) 3]) \<and>
       read_at mem2 (data + (k - 3)) 3 = Some [7, 8, 9])"
proof -
  obtain o' where o': "uc_reach o'" "is_list (uc_connections_list o') [1]" "uc_have_server o'" "uc_udp_mtu o' = 10"
    "con_conaddr (uc_con o' 1) = uc_example_conaddr" "BufferWriter_StartPacket (ppf_ainput (con_send_ppflow (uc_con o' 1))) = Some 6"
    using uc_example_started by blast
  have f: "(4 :: byte) AND UDPGW_CLIENT_FLAG_IPV6 = 0" by (simp add: UDPGW_CLIENT_FLAG_IPV6_def)
  have "read_at [7, 8, 9] 0 (nat 3) = Some [7, 8, 9 :: byte]" by (simp add: read_at_def)
  note rt = udpgw_roundtrip [OF o'(1,2) _ o'(3) f _ _ this o'(6)]
  have "\<exists>o2 k. connection_send [7, 8, 9] o' 1 4 0 3 = Some (o2, [UC_EndPacket 1 k]) \<and>
     (\<forall>mem2 data. read_at mem2 data k = read_at (cb_mem (pb_buf (ppf_buffer (con_send_ppflow (uc_con o2 1))))) 6 k \<longrightarrow>
       recv_interface_handler_send mem2 o2 data (int k) = Some (uc_touch o2 1, [UC_RecvDone,
         UC_Received (ca_local_addr (con_conaddr (uc_con o' 1))) (ca_remote_addr (con_conaddr (uc_con o' 1))) (data + (k - length [7, 8, 9 :: byte])) 3]) \<and>
       read_at mem2 (data + (k - length [7, 8, 9 :: byte])) (length [7, 8, 9 :: byte]) = Some [7, 8, 9])"
    by (rule rt) (simp_all add: o'(4))
  then have "\<exists>o2 k. connection_send [7, 8, 9] o' 1 4 0 3 = Some (o2, [UC_EndPacket 1 k]) \<and>
     (\<forall>mem2 data. read_at mem2 data k = read_at (cb_mem (pb_buf (ppf_buffer (con_send_ppflow (uc_con o2 1))))) 6 k \<longrightarrow>
       recv_interface_handler_send mem2 o2 data (int k) = Some (uc_touch o2 1, [UC_RecvDone,
         UC_Received (BAddr_InitIPv4 1 2) (BAddr_InitIPv4 3 4) (data + (k - 3)) 3]) \<and>
       read_at mem2 (data + (k - 3)) 3 = Some [7, 8, 9])"
    by (simp only: o'(5) uc_example_conaddr_def UdpGwClient_conaddr.select_convs length_3)
  then show ?thesis using o'(1) by blast
qed

end
