(* ===== verification/Socks_Udpgw_Facts.thy ===== *)
theory Socks_Udpgw_Facts
  imports Socks_Udpgw Socks_Facts Udpgw_Props
begin

text \<open>
  The UDP gateway client over SOCKS, composed of the SOCKS client and the UDP gateway client with the invariants of both:
  no assertion fails, a connection attempt is in progress or the timer runs, and a conforming server is reached.
\<close>

subsection \<open>What the SOCKS client reports\<close>

text \<open>A step reports an error, or reports that it is up as it comes up, or makes no report and is not up after it.\<close>

definition socks_reports :: "BSocksClient \<Rightarrow> BSocksClient \<Rightarrow> socks_out list \<Rightarrow> bool" where
  "socks_reports s s' out \<longleftrightarrow>
     (\<exists>e. out = [CallHandler e] \<and> e \<noteq> EVENT_UP) \<or>
     out = [CallHandler EVENT_UP] \<and> sc_state s' = STATE_UP \<and> sc_state s \<noteq> STATE_UP \<or>
     (\<forall>e. CallHandler e \<notin> set out) \<and> sc_state s' \<noteq> STATE_UP"

lemmas socks_handler_defs = connector_handler_def connection_handler_def send_handler_done_def reserve_and_receive_def
  recv_handler_done_def recv_switch_def received_hello_def received_reply_header_def received_password_reply_def
  received_reply_rest_def auth_finished_def send_buffer_def start_receive_def do_receive_def report_error_def

lemma send_buffer_reports: "send_buffer s len st = Some (s', out) \<Longrightarrow> st \<noteq> STATE_UP \<Longrightarrow> socks_reports s0 s' out"
  by (auto simp: send_buffer_def socks_reports_def bind_eq_Some_conv)

lemma report_error_reports: "report_error s e = Some (s', out) \<Longrightarrow> e \<noteq> EVENT_UP \<Longrightarrow> socks_reports s0 s' out"
  by (auto simp: report_error_def socks_reports_def)

lemma connector_reports: "connector_handler env s e = Some (s', out) \<Longrightarrow> socks_reports s s' out"
  by (auto simp: connector_handler_def Let_def bind_eq_Some_conv split: if_splits option.splits
      intro: send_buffer_reports report_error_reports)

lemma auth_finished_reports: "auth_finished env s = Some (s', out) \<Longrightarrow> socks_reports s0 s' out"
  by (auto simp: auth_finished_def Let_def bind_eq_Some_conv split: if_splits option.splits BAddr.splits
      intro: send_buffer_reports report_error_reports)

lemma hello_reports: "received_hello env s = Some (s', out) \<Longrightarrow> sc_state s \<noteq> STATE_UP \<Longrightarrow> socks_reports s s' out"
  by (auto simp: received_hello_def Let_def bind_eq_Some_conv split: if_splits option.splits
      intro: send_buffer_reports report_error_reports auth_finished_reports) (simp_all add: socks_reports_def)

lemma reply_header_reports: "received_reply_header s = Some (s', out) \<Longrightarrow> socks_reports s s' out"
  by (auto simp: received_reply_header_def Let_def bind_eq_Some_conv start_receive_def do_receive_def split: if_splits
      intro: report_error_reports) (simp_all add: socks_reports_def)

lemma password_reports: "received_password_reply env s = Some (s', out) \<Longrightarrow> socks_reports s s' out"
  by (auto simp: received_password_reply_def bind_eq_Some_conv split: if_splits intro: report_error_reports auth_finished_reports)

lemma reply_rest_reports:
  assumes "received_reply_rest s = Some (s', out)" and "sc_state s \<noteq> STATE_UP"
  shows "socks_reports s s' out"
proof -
  have "sc_state s' = STATE_UP" "out = [CallHandler EVENT_UP]" using assms(1) by (auto simp: received_reply_rest_def Let_def)
  then show ?thesis using assms(2) by (simp add: socks_reports_def)
qed

lemma buf_write_state: "buf_write s off d = Some s' \<Longrightarrow> sc_state s' = sc_state s"
  by (auto simp: buf_write_def split: option.splits)

lemma recv_reports:
  assumes "recv_handler_done env s d = Some (s', out)" and rdy: "socks_receiving (sc_state s)"
  shows "socks_reports s s' out"
proof -
  obtain s1 where s1: "buf_write s (sc_recv_dest s + sc_recv_len s) d = Some s1" using assms(1)
    by (auto simp: recv_handler_done_def bind_eq_Some_conv)
  let ?s = "s1\<lparr>sc_recv_len := sc_recv_len s1 + length d\<rparr>"
  have st: "sc_state ?s = sc_state s" using buf_write_state [OF s1] by simp
  have up: "socks_reports ?s s' out \<Longrightarrow> socks_reports s s' out" by (simp add: socks_reports_def st)
  show ?thesis
  proof (cases "sc_recv_len ?s < sc_recv_total ?s")
    case True
    then show ?thesis using assms s1 st by (auto simp: recv_handler_done_def do_receive_def socks_reports_def socks_receiving_def)
  next
    case False
    then have r: "recv_switch env ?s = Some (s', out)" using assms(1) s1 by (simp add: recv_handler_done_def)
    consider "sc_state ?s = STATE_SENT_HELLO" | "sc_state ?s = STATE_SENT_PASSWORD" | "sc_state ?s = STATE_SENT_REQUEST"
      | "sc_state ?s = STATE_RECEIVED_REPLY_HEADER" using rdy st by (auto simp: socks_receiving_def)
    then have "socks_reports ?s s' out"
      using r hello_reports [of env ?s s' out] reply_header_reports [of ?s s' out] password_reports [of env ?s s' out]
        reply_rest_reports [of ?s s' out] unfolding recv_switch_def by cases simp_all
    then show ?thesis by (rule up)
  qed
qed

lemma socks_handle_reports:
  assumes "socks_handle env s i = Some (s', out)" and "socks_ready s i"
  shows "socks_reports s s' out"
proof (cases i)
  case (ConnectorDone e)
  then show ?thesis using assms connector_reports by (simp add: socks_handle_def)
next
  case SendDone
  then show ?thesis using assms
    by (auto simp: socks_handle_def socks_ready_def socks_sending_def send_handler_done_def reserve_and_receive_def start_receive_def
        do_receive_def report_error_def socks_reports_def split: option.splits)
next
  case (Received d)
  then show ?thesis using assms recv_reports by (simp add: socks_handle_def socks_ready_def)
next
  case (ConnectionEvent c)
  then show ?thesis using assms
    by (auto simp: socks_handle_def connection_handler_def intro: report_error_reports split: if_splits)
qed

lemma socks_reports_cases:
  assumes "socks_reports s s' out"
  obtains (error) e where "out = [CallHandler e]" "e = EVENT_ERROR \<or> e = EVENT_ERROR_CLOSED" "\<not> error_free out"
  | (up) "out = [CallHandler EVENT_UP]" "sc_state s' = STATE_UP" "sc_state s \<noteq> STATE_UP" "error_free out"
  | (quiet) "\<forall>e. CallHandler e \<notin> set out" "sc_state s' \<noteq> STATE_UP" "error_free out"
proof -
  consider e where "out = [CallHandler e]" "e \<noteq> EVENT_UP"
    | "out = [CallHandler EVENT_UP]" "sc_state s' = STATE_UP" "sc_state s \<noteq> STATE_UP"
    | "\<forall>e. CallHandler e \<notin> set out" "sc_state s' \<noteq> STATE_UP"
    using assms unfolding socks_reports_def by blast
  then show thesis
  proof cases
    case (1 e)
    then have "e = EVENT_ERROR \<or> e = EVENT_ERROR_CLOSED" by (cases e) simp_all
    then show thesis using 1(1) by (intro error [of e]) (auto simp: error_free_def)
  next
    case 2
    then show thesis by (intro up) (simp_all add: error_free_def)
  next
    case 3
    then show thesis by (intro quiet) (simp_all add: error_free_def)
  qed
qed

subsection \<open>The transition system\<close>

text \<open>The calls of a step of the SOCKS client, its reports passed to the handler.\<close>

fun su_calls :: "su_env \<Rightarrow> SocksUdpGwClient \<Rightarrow> socks_out list \<Rightarrow> su_result" where
  "su_calls env o' [] = Some (o', [])"
| "su_calls env o' (CallHandler e # cs) = do {
     (o', outs) \<leftarrow> socks_client_handler env o' e;
     (o', os) \<leftarrow> su_calls env o' cs;
     Some (o', outs @ os) }"
| "su_calls env o' (c # cs) = do {
     (o', os) \<leftarrow> su_calls env o' cs;
     Some (o', SU_Socks c # os) }"

text \<open>A callback of the connection of the SOCKS client.\<close>

definition su_socks_callback :: "su_env \<Rightarrow> SocksUdpGwClient \<Rightarrow> socks_in \<Rightarrow> su_result" where
  "su_socks_callback env o' i = do {
     (s, cs) \<leftarrow> socks_handle (se_sc env) (su_socks_client o') i;
     su_calls env (o'\<lparr>su_socks_client := s\<rparr>) cs }"

inductive su_reach :: "SocksUdpGwClient \<Rightarrow> bool" where
  init: "SocksUdpGwClient_Init env old udp_mtu max_connections send_buffer_size server auth remote = Some (Some (o', outs)) \<Longrightarrow>
    udp_mtu \<le> INT_MAX \<Longrightarrow> 4294967295 \<le> env_size_max (se_sc env) \<Longrightarrow> pb_sizes_ok (2 + nat (21 + udp_mtu)) (nat send_buffer_size) \<Longrightarrow>
    socks_pre auth remote \<Longrightarrow> su_reach o'"
| timer: "su_reach o' \<Longrightarrow> su_reconnect_timer o' \<Longrightarrow>
    reconnect_timer_handler env (o'\<lparr>su_reconnect_timer := False\<rparr>) = Some (o2, outs) \<Longrightarrow> su_reach o2"
| socks: "su_reach o' \<Longrightarrow> su_have_socks o' \<Longrightarrow> socks_ready (su_socks_client o') i \<Longrightarrow> c_platform (se_sc env) \<Longrightarrow>
    su_socks_callback env o' i = Some (o2, outs) \<Longrightarrow> su_reach o2"
| udpgw: "su_reach o' \<Longrightarrow> uc_io (su_udpgw_client o') u \<Longrightarrow> su_reach (o'\<lparr>su_udpgw_client := u\<rparr>)"
| servererror: "su_reach o' \<Longrightarrow> decoder_handler_error (su_udpgw_client o') = Some (su_udpgw_client o', [UC_ServerError]) \<Longrightarrow>
    udpgw_handler_servererror o' = Some (o2, outs) \<Longrightarrow> su_reach o2"

subsection \<open>The invariant\<close>

definition su_socks_ok :: "SocksUdpGwClient \<Rightarrow> bool" where
  "su_socks_ok o' \<longleftrightarrow> (\<exists>snt rcv out. socks_reach (su_auth_info o') (su_remote_udpgw_addr o') (su_socks_client o') snt rcv out \<and> error_free out)"

definition su_inv :: "SocksUdpGwClient \<Rightarrow> bool" where
  "su_inv o' \<longleftrightarrow> socks_pre (su_auth_info o') (su_remote_udpgw_addr o') \<and> (\<exists>xs. uc_ok (su_udpgw_client o') xs) \<and>
     su_have_socks o' = (\<not> su_reconnect_timer o') \<and>
     uc_have_server (su_udpgw_client o') = (su_have_socks o' \<and> su_socks_up o') \<and>
     (su_have_socks o' \<longrightarrow> su_socks_ok o' \<and> su_socks_up o' = (sc_state (su_socks_client o') = STATE_UP))"

lemma free_and_retry_ok:
  assumes "socks_pre (su_auth_info o') (su_remote_udpgw_addr o')" and ok: "uc_ok (su_udpgw_client o') xs" and "su_have_socks o'"
    and up: "uc_have_server (su_udpgw_client o') = su_socks_up o'"
  shows "\<exists>o2 outs. free_and_retry o' = Some (o2, outs) \<and> su_inv o2 \<and> su_reconnect_timer o2"
proof (cases "su_socks_up o'")
  case True
  then obtain u os where u: "UdpGwClient_DisconnectServer (su_udpgw_client o') = Some (u, os)" using up
    by (simp add: UdpGwClient_DisconnectServer_def free_server_def c_assert_bind)
  note d = uc_disconnect_ok [OF ok u]
  show ?thesis using assms d True u
    by (auto simp: free_and_retry_def free_socks_def su_set_timer_def c_assert_bind su_inv_def)
next
  case False
  then show ?thesis using assms by (auto simp: free_and_retry_def free_socks_def su_set_timer_def c_assert_bind su_inv_def)
qed

lemma try_connect_ok:
  assumes "socks_pre (su_auth_info o') (su_remote_udpgw_addr o')" and "uc_ok (su_udpgw_client o') xs" and "\<not> uc_have_server (su_udpgw_client o')"
    and "\<not> su_have_socks o'" "\<not> su_reconnect_timer o'"
  shows "\<exists>o2 outs. try_connect env o' = Some (o2, outs) \<and> su_inv o2 \<and> su_auth_info o2 = su_auth_info o'"
proof (cases "BSocksClient_Init (se_sc env) (su_auth_info o') (su_remote_udpgw_addr o')")
  case None
  then show ?thesis using assms by (auto simp: try_connect_def su_set_timer_def c_assert_bind su_inv_def)
next
  case (Some s)
  have "sc_state s = STATE_CONNECTING" using Some by (auto simp: BSocksClient_Init_def split: if_splits)
  moreover have "error_free []" by (simp add: error_free_def)
  ultimately show ?thesis using assms Some socks_reach.init [OF Some]
    by (auto simp: try_connect_def c_assert_bind su_inv_def su_socks_ok_def)
qed

lemma su_calls_quiet: "\<forall>e. CallHandler e \<notin> set cs \<Longrightarrow> su_calls env o' cs = Some (o', map SU_Socks cs)"
  by (induction env o' cs rule: su_calls.induct) auto

lemma su_calls_one: "su_calls env o' [CallHandler e] = socks_client_handler env o' e"
  by (simp add: bind_split)

lemma uc_connect_total: "\<not> uc_have_server u \<Longrightarrow> \<exists>r. UdpGwClient_ConnectServer malloc u = Some r"
  by (simp add: UdpGwClient_ConnectServer_def c_assert_bind split: option.split prod.split)

lemma uc_connect_success:
  assumes "\<not> uc_have_server u" and "\<forall>n. malloc n \<noteq> None"
  shows "\<exists>ur. UdpGwClient_ConnectServer malloc u = Some (Some ur)"
proof -
  have "PacketProtoDecoder_Init malloc (nat (uc_udpgw_mtu u)) \<noteq> None"
    using assms(2) by (auto simp: PacketProtoDecoder_Init_def Let_def bind_eq_Some_conv)
  then obtain d outs where "PacketProtoDecoder_Init malloc (nat (uc_udpgw_mtu u)) = Some (d, outs)"
    by (cases "PacketProtoDecoder_Init malloc (nat (uc_udpgw_mtu u))") auto
  then show ?thesis using assms(1) by (simp add: UdpGwClient_ConnectServer_def c_assert_bind split: prod.split)
qed

lemma socks_up_errors:
  assumes "socks_handle env s i = Some (s', out)" and "socks_ready s i" and "sc_state s = STATE_UP"
  shows "\<exists>e. out = [CallHandler e] \<and> e \<noteq> EVENT_UP"
  using assms
  by (cases i) (auto simp: socks_ready_def socks_sending_def socks_receiving_def socks_handle_def connection_handler_def report_error_def split: if_splits)

lemma su_callback_ok:
  assumes inv: "su_inv o'" and h: "su_have_socks o'" and rdy: "socks_ready (su_socks_client o') i" and env: "c_platform (se_sc env)"
  shows "\<exists>o2 outs. su_socks_callback env o' i = Some (o2, outs) \<and> su_inv o2"
proof -
  let ?s = "su_socks_client o'" and ?a = "su_auth_info o'" and ?d = "su_remote_udpgw_addr o'"
  obtain snt rcv out xs where r: "socks_reach ?a ?d ?s snt rcv out" "error_free out" and pre: "socks_pre ?a ?d"
    and ok: "uc_ok (su_udpgw_client o') xs" and up: "su_socks_up o' = (sc_state ?s = STATE_UP)"
    "uc_have_server (su_udpgw_client o') = su_socks_up o'" "\<not> su_reconnect_timer o'"
    using inv h by (auto simp: su_inv_def su_socks_ok_def)
  have "socks_ok ?a ?d snt (rcv @ received_of i) (socks_handle (se_sc env) ?s i)"
    using socks_reach_inv [OF r(1) pre] r(2) rdy env pre by (intro socks_handle_ok) auto
  then obtain s' cs where cs: "socks_handle (se_sc env) ?s i = Some (s', cs)" by (auto simp: socks_ok_def split: option.splits)
  let ?o = "o'\<lparr>su_socks_client := s'\<rparr>"
  have step: "su_socks_callback env o' i = su_calls env ?o cs" by (simp add: su_socks_callback_def cs)
  have r': "socks_reach ?a ?d s' (snt @ sent_of cs) (rcv @ received_of i) cs" by (rule socks_reach.step [OF r rdy env cs])
  have retry: "\<exists>o2 outs. free_and_retry ?o = Some (o2, outs) \<and> su_inv o2"
    using free_and_retry_ok [of ?o xs] pre ok h up by auto
  show ?thesis using socks_handle_reports [OF cs rdy]
  proof (cases rule: socks_reports_cases)
    case (error e)
    then show ?thesis using retry h unfolding step error(1) su_calls_one
      by (auto simp: socks_client_handler_def c_assert_bind)
  next
    case up': up
    then have nup: "\<not> su_socks_up o'" "\<not> uc_have_server (su_udpgw_client o')" using up by simp_all
    then obtain r where c: "UdpGwClient_ConnectServer (se_malloc env) (su_udpgw_client o') = Some r"
      using uc_connect_total by blast
    show ?thesis
    proof (cases r)
      case None
      then show ?thesis using retry h nup c unfolding step up'(1) su_calls_one
        by (simp add: socks_client_handler_def c_assert_bind)
    next
      case (Some ur)
      then obtain u outs where ur: "r = Some (u, outs)" by (cases ur) simp
      note k = uc_connect_ok [OF ok c [unfolded ur]]
      have "su_inv (?o\<lparr>su_udpgw_client := u, su_socks_up := True\<rparr>)"
        using k pre h up(3) up'(2,4) r' by (auto simp: su_inv_def su_socks_ok_def)
      then show ?thesis using h nup c ur unfolding step up'(1) su_calls_one
        by (simp add: socks_client_handler_def c_assert_bind)
    qed
  next
    case quiet
    then have "sc_state ?s \<noteq> STATE_UP" using socks_up_errors [OF cs rdy] by auto
    then have "su_inv ?o" using inv h quiet up r' by (auto simp: su_inv_def su_socks_ok_def)
    then show ?thesis unfolding step using su_calls_quiet [OF quiet(1)] by simp
  qed
qed

lemma su_reach_inv: "su_reach o' \<Longrightarrow> su_inv o'"
proof (induction rule: su_reach.induct)
  case (init env old udp_mtu max_connections send_buffer_size server auth remote o' outs)
  then obtain u where u: "UdpGwClient_Init (env_size_max (se_sc env)) udp_mtu max_connections send_buffer_size (su_udpgw_client old) = Some (Some u)"
    and c: "try_connect env \<lparr>su_udp_mtu = udp_mtu, su_socks_server_addr = server, su_auth_info = auth,
             su_remote_udpgw_addr = remote, su_udpgw_client = u, su_reconnect_timer = False,
             su_have_socks = False, su_socks_client = su_socks_client old, su_socks_up = su_socks_up old\<rparr> = Some (o', outs)"
    by (auto simp: SocksUdpGwClient_Init_def c_assert_bind bind_eq_Some_conv split: if_splits option.splits)
  have ok: "uc_ok u []" by (rule UdpGwClient_Init_ok [OF u init.hyps(2-4)])
  have "\<not> uc_have_server u" using u by (auto simp: UdpGwClient_Init_def Let_def c_assert_bind bind_eq_Some_conv split: if_splits option.splits)
  then have "\<exists>o2 outs. try_connect env \<lparr>su_udp_mtu = udp_mtu, su_socks_server_addr = server, su_auth_info = auth,
             su_remote_udpgw_addr = remote, su_udpgw_client = u, su_reconnect_timer = False,
             su_have_socks = False, su_socks_client = su_socks_client old, su_socks_up = su_socks_up old\<rparr> = Some (o2, outs) \<and> su_inv o2"
    using try_connect_ok [of "\<lparr>su_udp_mtu = udp_mtu, su_socks_server_addr = server, su_auth_info = auth,
             su_remote_udpgw_addr = remote, su_udpgw_client = u, su_reconnect_timer = False,
             su_have_socks = False, su_socks_client = su_socks_client old, su_socks_up = su_socks_up old\<rparr>" "[]" env] init.hyps(5) ok by auto
  then show ?case using c by simp
next
  case (timer o' env o2 outs)
  then show ?case using try_connect_ok [of "o'\<lparr>su_reconnect_timer := False\<rparr>" _ env]
    by (auto simp: su_inv_def reconnect_timer_handler_def c_assert_bind split: if_splits)
next
  case (socks o' i env o2 outs)
  then show ?case using su_callback_ok [of o' i env] by auto
next
  case (udpgw o' u)
  then obtain xs where "uc_ok (su_udpgw_client o') xs" by (auto simp: su_inv_def)
  from uc_io_ok [OF udpgw.hyps(2) this] udpgw.IH show ?case by (auto simp: su_inv_def su_socks_ok_def)
next
  case (servererror o' o2 outs)
  then have "su_have_socks o'" "su_socks_up o'" "free_and_retry o' = Some (o2, outs)"
    by (auto simp: udpgw_handler_servererror_def c_assert_bind split: if_splits)
  then show ?case using servererror.IH free_and_retry_ok [of o'] by (auto simp: su_inv_def)
qed

lemma su_free_ok:
  assumes "su_inv o'"
  shows "\<exists>o2 outs. SocksUdpGwClient_Free o' = Some (o2, outs)"
proof -
  obtain xs where ok: "uc_ok (su_udpgw_client o') xs" using assms by (auto simp: su_inv_def)
  have free: "\<exists>r. UdpGwClient_Free u = Some r" if "uc_ok u xs" for u using that UdpGwClient_Free_ok by (fastforce simp: uc_ok_def)
  show ?thesis
  proof (cases "su_have_socks o' \<and> su_socks_up o'")
    case True
    then obtain u os where u: "UdpGwClient_DisconnectServer (su_udpgw_client o') = Some (u, os)" using assms
      by (simp add: su_inv_def UdpGwClient_DisconnectServer_def free_server_def c_assert_bind)
    then show ?thesis using free [OF uc_disconnect_ok(1) [OF ok u]] True
      by (auto simp: SocksUdpGwClient_Free_def free_socks_def c_assert_bind)
  next
    case False
    then show ?thesis using free [OF ok] by (auto simp: SocksUdpGwClient_Free_def free_socks_def c_assert_bind)
  qed
qed

subsection \<open>Runs of callbacks\<close>

fun su_run :: "su_env \<Rightarrow> SocksUdpGwClient \<Rightarrow> socks_in list \<Rightarrow> su_result" where
  "su_run env o' [] = Some (o', [])"
| "su_run env o' (i # is) = do {
     c_assert (su_have_socks o' \<and> socks_ready (su_socks_client o') i);
     (o', outs) \<leftarrow> su_socks_callback env o' i;
     (o', os) \<leftarrow> su_run env o' is;
     Some (o', outs @ os) }"

lemma su_callback_client:
  assumes inv: "su_inv o'" and h: "su_have_socks o'" and rdy: "socks_ready (su_socks_client o') i"
    and cs: "socks_handle (se_sc env) (su_socks_client o') i = Some (s', cs)" "error_free cs" and mal: "\<forall>n. se_malloc env n \<noteq> None"
    and step: "su_socks_callback env o' i = Some (o2, outs)"
  shows "su_have_socks o2 \<and> su_socks_client o2 = s'"
proof -
  let ?o = "o'\<lparr>su_socks_client := s'\<rparr>"
  have calls: "su_calls env ?o cs = Some (o2, outs)" using step cs(1) by (simp add: su_socks_callback_def)
  show ?thesis using socks_handle_reports [OF cs(1) rdy]
  proof (cases rule: socks_reports_cases)
    case (error e)
    then show ?thesis using cs(2) by simp
  next
    case up
    then have n: "\<not> su_socks_up o'" "\<not> uc_have_server (su_udpgw_client o')" using inv h by (simp_all add: su_inv_def)
    have "\<exists>ur. UdpGwClient_ConnectServer (se_malloc env) (su_udpgw_client o') = Some (Some ur)"
      using uc_connect_success [OF n(2) mal] .
    then show ?thesis using calls h n unfolding up(1) su_calls_one
      by (auto simp: socks_client_handler_def c_assert_bind)
  next
    case quiet
    then show ?thesis using calls h su_calls_quiet [OF quiet(1)] by auto
  qed
qed

lemma su_run_ok:
  assumes "su_reach o'" and "su_have_socks o'" and "socks_run (se_sc env) (su_socks_client o') is = Some (s', out)"
    and "error_free out" and mal: "\<forall>n. se_malloc env n \<noteq> None" and env: "c_platform (se_sc env)"
  shows "\<exists>o2 outs. su_run env o' is = Some (o2, outs) \<and> su_reach o2 \<and> su_have_socks o2 \<and> su_socks_client o2 = s'"
  using assms(1-4)
proof (induction "is" arbitrary: o' out)
  case (Cons i "is")
  then obtain s1 out1 out2 where h: "socks_ready (su_socks_client o') i" "socks_handle (se_sc env) (su_socks_client o') i = Some (s1, out1)"
    "socks_run (se_sc env) s1 is = Some (s', out2)" "error_free out1" "error_free out2"
    by (auto simp: c_assert_bind bind_eq_Some_conv split: if_splits)
  obtain o1 outs1 where o1: "su_socks_callback env o' i = Some (o1, outs1)"
    using su_callback_ok [OF su_reach_inv [OF Cons.prems(1)] Cons.prems(2) h(1) env] by blast
  have c: "su_have_socks o1" "su_socks_client o1 = s1"
    using su_callback_client [OF su_reach_inv [OF Cons.prems(1)] Cons.prems(2) h(1,2,4) mal o1] by simp_all
  have "su_reach o1" by (rule su_reach.socks [OF Cons.prems(1,2) h(1) env o1])
  from Cons.IH [OF this c(1) _ h(5)] c h(3) obtain o2 outs2 where
    "su_run env o1 is = Some (o2, outs2)" "su_reach o2" "su_have_socks o2" "su_socks_client o2 = s'" by auto
  then show ?case using Cons.prems(2) h(1) o1 by (simp add: c_assert_bind)
qed simp

subsection \<open>Properties\<close>

text \<open>C31. The UDP gateway client over SOCKS never gets stuck. In every reachable state either a SOCKS connection exists or the reconnect
  timer runs, and not both; the UDP gateway client is connected exactly while the SOCKS connection is up.
  No assertion fails in the timer's handler, in any callback of the connection, on a server error,
  when a packet is submitted, or when the object is freed, whether or not allocations succeed.\<close>

theorem socks_udpgw_safe:
  assumes "su_reach o'"
  shows "su_have_socks o' \<noteq> su_reconnect_timer o' \<and>
    (uc_have_server (su_udpgw_client o') \<longleftrightarrow> su_have_socks o' \<and> su_socks_up o') \<and>
    (su_have_socks o' \<longrightarrow> (su_socks_up o' \<longleftrightarrow> sc_state (su_socks_client o') = STATE_UP)) \<and>
    (su_reconnect_timer o' \<longrightarrow> (\<forall>env. reconnect_timer_handler env (o'\<lparr>su_reconnect_timer := False\<rparr>) \<noteq> None)) \<and>
    (\<forall>env i. su_have_socks o' \<and> socks_ready (su_socks_client o') i \<and> c_platform (se_sc env) \<longrightarrow> su_socks_callback env o' i \<noteq> None) \<and>
    (uc_have_server (su_udpgw_client o') \<longrightarrow> udpgw_handler_servererror o' \<noteq> None) \<and>
    (\<forall>xs env mem la ra is_dns data n. is_list (uc_connections_list (su_udpgw_client o')) xs \<and> uc_env_ok env xs \<and>
       is_ip_addr la \<and> is_ip_addr ra \<and> 0 \<le> n \<and> n \<le> uc_udp_mtu (su_udpgw_client o') \<and> read_at mem data (nat n) \<noteq> None \<longrightarrow>
       SocksUdpGwClient_SubmitPacket env mem o' la ra is_dns data n \<noteq> None) \<and>
    SocksUdpGwClient_Free o' \<noteq> None"
proof -
  have inv: "su_inv o'" by (rule su_reach_inv [OF assms])
  then obtain xs0 where ok: "uc_ok (su_udpgw_client o') xs0" and pre: "socks_pre (su_auth_info o') (su_remote_udpgw_addr o')" by (auto simp: su_inv_def)
  have "reconnect_timer_handler env (o'\<lparr>su_reconnect_timer := False\<rparr>) \<noteq> None" if "su_reconnect_timer o'" for env
    using that try_connect_ok [of "o'\<lparr>su_reconnect_timer := False\<rparr>" xs0 env] ok pre inv
    by (auto simp: su_inv_def reconnect_timer_handler_def c_assert_bind)
  moreover have "su_socks_callback env o' i \<noteq> None"
    if "su_have_socks o' \<and> socks_ready (su_socks_client o') i \<and> c_platform (se_sc env)" for env i
    using su_callback_ok [OF inv] that by fastforce
  moreover have "udpgw_handler_servererror o' \<noteq> None" if "uc_have_server (su_udpgw_client o')"
    using free_and_retry_ok [OF pre ok] that inv by (auto simp: su_inv_def udpgw_handler_servererror_def c_assert_bind)
  moreover have "SocksUdpGwClient_SubmitPacket env mem o' la ra is_dns data n \<noteq> None"
    if "is_list (uc_connections_list (su_udpgw_client o')) xs \<and> uc_env_ok env xs \<and> is_ip_addr la \<and> is_ip_addr ra \<and> 0 \<le> n \<and>
      n \<le> uc_udp_mtu (su_udpgw_client o') \<and> read_at mem data (nat n) \<noteq> None" for xs env mem la ra is_dns data n
  proof -
    have "uc_ok (su_udpgw_client o') xs" using that ok is_list_unique uc_ok_list by blast
    from UdpGwClient_SubmitPacket_ok [OF this, of la ra n mem data _ env is_dns] that show ?thesis
      by (auto simp: SocksUdpGwClient_SubmitPacket_def)
  qed
  moreover have "SocksUdpGwClient_Free o' \<noteq> None" using su_free_ok [OF inv] by auto
  ultimately show ?thesis using inv unfolding su_inv_def by blast
qed

text \<open>C32. The connection to the gateway is restored. From every reachable state in which the reconnect timer runs, with memory and a server
  that accepts, the timer's handler and the callbacks of the connection bring SOCKS up and connect the UDP
  gateway client to it, however the messages of the server are cut into pieces.\<close>

theorem socks_udpgw_reconnects:
  assumes "su_reach o'" and "su_reconnect_timer o'" and env: "good_env (se_sc env)" "\<forall>n. se_malloc env n \<noteq> None"
    and n: "0 < length (su_auth_info o')" "length (su_auth_info o') \<le> 255"
    and m: "find_auth (su_auth_info o') m = Some a" "m = 2 \<longrightarrow> credentials_ok a"
    and hs: "concat hs = [5, m]" "[] \<notin> set hs" and ps: "concat ps = [1, 0]" "[] \<notin> set ps"
    and rs: "concat rs = [5, 0, x, atyp]" "[] \<notin> set rs"
    and as: "concat as = q" "[] \<notin> set as" and q: "reply_addr_len atyp = Some (length q)"
  shows "\<exists>o1 o2 outs. reconnect_timer_handler env (o'\<lparr>su_reconnect_timer := False\<rparr>) = Some (o1, []) \<and>
    su_run env o1 ([ConnectorDone False, SendDone] @ map Received hs @ (if m = 2 then [SendDone] @ map Received ps else []) @
       [SendDone] @ map Received rs @ map Received as) = Some (o2, outs) \<and>
    su_reach o2 \<and> su_socks_up o2 \<and> uc_have_server (su_udpgw_client o2)"
proof -
  have inv: "su_inv o'" by (rule su_reach_inv [OF assms(1)])
  then have pre: "socks_pre (su_auth_info o') (su_remote_udpgw_addr o')" and no: "\<not> su_have_socks o'" using assms(2) by (auto simp: su_inv_def)
  obtain s where s: "BSocksClient_Init (se_sc env) (su_auth_info o') (su_remote_udpgw_addr o') = Some s"
    using env by (simp add: BSocksClient_Init_def good_env_def)
  let ?o1 = "o'\<lparr>su_reconnect_timer := False, su_socks_client := s, su_have_socks := True, su_socks_up := False\<rparr>"
  have t: "reconnect_timer_handler env (o'\<lparr>su_reconnect_timer := False\<rparr>) = Some (?o1, [])"
    using s no by (simp add: reconnect_timer_handler_def try_connect_def c_assert_bind)
  have r1: "su_reach ?o1" by (rule su_reach.timer [OF assms(1,2) t])
  let ?is = "[ConnectorDone False, SendDone] @ map Received hs @ (if m = 2 then [SendDone] @ map Received ps else []) @
       [SendDone] @ map Received rs @ map Received as"
  obtain s' out where run: "socks_run (se_sc env) s ?is = Some (s', out)" "error_free out" "sc_state s' = STATE_UP"
    using socks_run_completes [OF env(1) pre n s m hs ps rs as q] unfolding socks_yields_def by blast
  have pl: "c_platform (se_sc env)" using env(1) by (simp add: good_env_def)
  have "su_have_socks ?o1" "socks_run (se_sc env) (su_socks_client ?o1) ?is = Some (s', out)" using run(1) by (simp_all del: socks_run.simps)
  from su_run_ok [OF r1 this run(2) env(2) pl] obtain o2 outs where
    o2: "su_run env ?o1 ?is = Some (o2, outs)" "su_reach o2" "su_have_socks o2" "su_socks_client o2 = s'" by blast
  then have "su_socks_up o2 \<and> uc_have_server (su_udpgw_client o2)" using su_reach_inv [OF o2(2)] run(3) by (simp add: su_inv_def)
  then show ?thesis using t o2 by blast
qed

subsection \<open>An example\<close>

definition su_example_sc :: sc_env where
  "su_example_sc = \<lparr>realloc_ok = (\<lambda>_. True), junk = (\<lambda>_. 0), con_init_ok = True, connector_init_ok = False, env_size_max = 4294967295\<rparr>"

text \<open>The first attempt to connect fails, so the timer runs after the initialisation.\<close>

definition su_example :: "SocksUdpGwClient option" where
  "su_example = do {
     r \<leftarrow> SocksUdpGwClient_Init \<lparr>se_sc = su_example_sc, se_malloc = uc_example_malloc\<rparr>
       \<lparr>su_udp_mtu = 0, su_socks_server_addr = BADDR_NONE, su_auth_info = [], su_remote_udpgw_addr = BADDR_NONE,
        su_udpgw_client = uc_example_junk, su_reconnect_timer = False, su_have_socks = False, su_socks_client = ex_client,
        su_socks_up = False\<rparr> 10 2 1 (BAddr_InitIPv4 1 2) ex_auth ex_dest;
     map_option fst r }"

lemma su_example:
  obtains o' where "su_example = Some o'" "su_reach o'" "su_reconnect_timer o'" "su_auth_info o' = ex_auth"
proof -
  have "map_option (\<lambda>o'. (su_reconnect_timer o', su_auth_info o' = ex_auth)) su_example = Some (True, True)"
    by code_simp
  then obtain o' where o': "su_example = Some o'" "su_reconnect_timer o'" "su_auth_info o' = ex_auth" by auto
  then obtain outs where i: "SocksUdpGwClient_Init \<lparr>se_sc = su_example_sc, se_malloc = uc_example_malloc\<rparr>
       \<lparr>su_udp_mtu = 0, su_socks_server_addr = BADDR_NONE, su_auth_info = [], su_remote_udpgw_addr = BADDR_NONE,
        su_udpgw_client = uc_example_junk, su_reconnect_timer = False, su_have_socks = False, su_socks_client = ex_client,
        su_socks_up = False\<rparr> 10 2 1 (BAddr_InitIPv4 1 2) ex_auth ex_dest = Some (Some (o', outs))"
    by (auto simp: su_example_def bind_eq_Some_conv)
  have "pb_sizes_ok (2 + nat (21 + 10)) (nat 1)" by code_simp
  then have "su_reach o'" by (intro su_reach.init [OF i]) (simp_all add: INT_MAX_def ex_platform su_example_sc_def)
  then show thesis using that o' by blast
qed

theorem socks_udpgw_safe_witness:
  "\<exists>o'. su_example = Some o' \<and> su_reach o' \<and> su_reconnect_timer o' \<and> \<not> su_have_socks o' \<and>
     reconnect_timer_handler \<lparr>se_sc = ex_env, se_malloc = uc_example_malloc\<rparr> (o'\<lparr>su_reconnect_timer := False\<rparr>) \<noteq> None \<and>
     SocksUdpGwClient_Free o' \<noteq> None"
proof -
  obtain o' where o': "su_example = Some o'" "su_reach o'" "su_reconnect_timer o'" using su_example by blast
  from socks_udpgw_safe [OF o'(2)] o' show ?thesis by blast
qed

theorem socks_udpgw_reconnects_witness:
  "\<exists>o' o1 o2 outs. su_example = Some o' \<and>
     reconnect_timer_handler \<lparr>se_sc = ex_env, se_malloc = uc_example_malloc\<rparr> (o'\<lparr>su_reconnect_timer := False\<rparr>) = Some (o1, []) \<and>
     su_run \<lparr>se_sc = ex_env, se_malloc = uc_example_malloc\<rparr> o1 ([ConnectorDone False, SendDone] @ map Received [[5], [2]] @ ([SendDone] @ map Received [[1, 0]]) @
       [SendDone] @ map Received [[5, 0, 0, 1]] @ map Received [[10, 0], [0, 1, 0, 80]]) = Some (o2, outs) \<and>
     su_socks_up o2 \<and> uc_have_server (su_udpgw_client o2)"
proof -
  obtain o' where o': "su_example = Some o'" "su_reach o'" "su_reconnect_timer o'" "su_auth_info o' = ex_auth" using su_example by blast
  have a: "find_auth (su_auth_info o') 2 = Some (ex_auth ! 1)" "credentials_ok (ex_auth ! 1)"
    by (simp_all add: o'(4) ex_auth_def BSocksClient_auth_none_def BSocksClient_auth_password_def socks_consts ntoh8_def credentials_ok_def)
  from socks_udpgw_reconnects [OF o'(2,3), of "\<lparr>se_sc = ex_env, se_malloc = uc_example_malloc\<rparr>" 2 "ex_auth ! 1" "[[5], [2]]" "[[1, 0]]"
        "[[5, 0, 0, 1]]" 0 1 "[[10, 0], [0, 1, 0, 80]]" "[10, 0, 0, 1, 0, 80]"] a o'
  show ?thesis by (auto simp: ex_platform ex_auth_def reply_addr_len_def uc_example_malloc_def)
qed

end
