(* ===== verification/Tun_Device_Facts.thy ===== *)
theory Tun_Device_Facts
  imports Tun_Device Checksum_Facts Socks_Udpgw_Facts
begin

text \<open>
  The device side of the tunnel: no packet makes it access memory out of bounds, the packets it builds are accepted by the
  checks of the receiver, the redirection of DNS queries is undone for their replies, and two of its defects.
\<close>

subsection \<open>Building packets\<close>

lemma write_behind:
  "length a + length x \<le> length b \<Longrightarrow>
   write_at (a @ drop (length a) b) (length a) x = Some ((a @ x) @ drop (length (a @ x)) b)"
  by (simp add: write_at_def add.commute)

lemma write_packet_send:
  assumes "length iph + 8 + length data \<le> length (ts_device_write_buf s)" and "int (length iph + 8 + length data) \<le> ts_mtu s"
  shows "\<exists>m. write_packet s iph udph data = Some (s\<lparr>ts_device_write_buf := m\<rparr>) \<and> length m = length (ts_device_write_buf s) \<and>
    send_packet (s\<lparr>ts_device_write_buf := m\<rparr>) (int (length iph + 8 + length data)) = Some [TD_Send (iph @ udp_header_bytes udph @ data)]"
proof -
  let ?b = "ts_device_write_buf s" and ?u = "udp_header_bytes udph"
  have "write_at ?b 0 iph = Some (iph @ drop (length iph) ?b)" using assms(1) write_behind [of "[]" iph ?b] by simp
  moreover have "write_at (iph @ drop (length iph) ?b) (length iph) ?u = Some ((iph @ ?u) @ drop (length (iph @ ?u)) ?b)"
    using assms(1) by (intro write_behind) simp
  moreover have "write_at ((iph @ ?u) @ drop (length (iph @ ?u)) ?b) (length (iph @ ?u)) data =
      Some (((iph @ ?u) @ data) @ drop (length ((iph @ ?u) @ data)) ?b)"
    using assms(1) by (intro write_behind) simp
  ultimately have "write_packet s iph udph data = Some (s\<lparr>ts_device_write_buf := ((iph @ ?u) @ data) @ drop (length ((iph @ ?u) @ data)) ?b\<rparr>)"
    by (simp add: write_packet_def)
  moreover have "read_at (((iph @ ?u) @ data) @ drop (length ((iph @ ?u) @ data)) ?b) 0 (length iph + 8 + length data) = Some (iph @ ?u @ data)"
    using assms(1) by (simp add: read_at_def)
  moreover have "nat (int (length iph + 8 + length data)) = length iph + 8 + length data" by simp
  ultimately show ?thesis using assms unfolding send_packet_def
    by (intro exI [of _ "((iph @ ?u) @ data) @ drop (length ((iph @ ?u) @ data)) ?b"]) (simp add: c_assert_bind)
qed

text \<open>Headers as the tunnel builds them: no options, the lengths of the packet, and the checksums.\<close>

definition built4 :: "ipv4_header \<Rightarrow> udp_header \<Rightarrow> byte list \<Rightarrow> bool" where
  "built4 iph udph payload \<longleftrightarrow> version4_ihl4 iph = 0x45 \<and> ip_protocol iph = 17 \<and> 28 + length payload \<le> 65535 \<and>
     ip_total_length iph = hton16 (of_nat (28 + length payload)) \<and>
     ip_checksum iph = ipv4_checksum (iph\<lparr>ip_checksum := 0\<rparr>) [] \<and>
     udp_length udph = hton16 (of_nat (8 + length payload)) \<and>
     udp_checksum_field udph = udp_checksum (udph\<lparr>udp_checksum_field := 0\<rparr>) payload (ip_source_address iph) (ip_destination_address iph)"

lemma unat_u16_nat: "n \<le> 65535 \<Longrightarrow> unat (of_nat n :: u16) = n"
  by (simp add: unat_of_nat)

lemma ipv4_check_built:
  assumes "built4 iph udph payload"
  shows "ipv4_check (ipv4_header_bytes iph @ udp_header_bytes udph @ payload) = Some (iph, 20, 8 + length payload)"
proof -
  have v: "IPV4_GET_VERSION iph = 4" "unat (IPV4_GET_IHL iph) = 5"
    using assms by (simp_all add: built4_def IPV4_GET_VERSION_def IPV4_GET_IHL_def)
  have t: "unat (ntoh16 (ip_total_length iph)) = 28 + length payload"
    using assms unat_u16_nat [of "28 + length payload"] by (simp add: built4_def)
  show ?thesis using assms v t by (simp add: ipv4_check_def ipv4_header_roundtrip Let_def built4_def)
qed

lemma udp_check_built:
  assumes "udp_length udph = hton16 (of_nat (8 + length payload))" and "8 + length payload \<le> 65535"
  shows "udp_check (udp_header_bytes udph @ payload) = Some (udph, 8, length payload)"
proof -
  have "unat (ntoh16 (udp_length udph)) = 8 + length payload"
    using assms unat_u16_nat [of "8 + length payload"] by simp
  then show ?thesis using assms by (simp add: udp_check_def udp_header_roundtrip Let_def)
qed

lemma parse_udp4_built:
  assumes "built4 iph udph payload"
  shows "parse_udp4 (ipv4_header_bytes iph @ udp_header_bytes udph @ payload) = Some (iph, udph\<lparr>udp_checksum_field := 0\<rparr>, 28, length payload)"
    and "ip_version (ipv4_header_bytes iph @ udp_header_bytes udph @ payload) = 4"
proof -
  let ?p = "ipv4_header_bytes iph @ udp_header_bytes udph @ payload"
  have "?p ! 9 = 17" using assms by (simp add: built4_def ipv4_header_bytes_def nth_append)
  moreover have "take (8 + length payload) (drop 20 ?p) = udp_header_bytes udph @ payload" by simp
  moreover have "take (length payload) (drop 28 ?p) = payload" by simp
  ultimately show "parse_udp4 ?p = Some (iph, udph\<lparr>udp_checksum_field := 0\<rparr>, 28, length payload)"
    using ipv4_check_built [OF assms] udp_check_built [of udph payload] assms
    by (simp add: parse_udp4_def built4_def)
  show "ip_version ?p = 4" using assms by (simp add: ip_version_def built4_def ipv4_header_bytes_def)
qed

definition built6 :: "ipv6_header \<Rightarrow> udp_header \<Rightarrow> byte list \<Rightarrow> bool" where
  "built6 iph udph payload \<longleftrightarrow> version4_tc4 iph = 0x60 \<and> ip6_next_header iph = 17 \<and> 8 + length payload \<le> 65535 \<and>
     length (ip6_source_address iph) = 16 \<and> length (ip6_destination_address iph) = 16 \<and>
     ip6_payload_length iph = hton16 (of_nat (8 + length payload)) \<and>
     udp_length udph = hton16 (of_nat (8 + length payload)) \<and>
     udp_checksum_field udph = udp_ip6_checksum (udph\<lparr>udp_checksum_field := 0\<rparr>) payload (ip6_source_address iph) (ip6_destination_address iph)"

lemma parse_udp6_built:
  assumes "built6 iph udph payload"
  shows "parse_udp6 (ipv6_header_bytes iph @ udp_header_bytes udph @ payload) = Some (iph, udph\<lparr>udp_checksum_field := 0\<rparr>, 48, length payload)"
    and "ip_version (ipv6_header_bytes iph @ udp_header_bytes udph @ payload) = 6"
proof -
  let ?p = "ipv6_header_bytes iph @ udp_header_bytes udph @ payload"
  have l: "length (ipv6_header_bytes iph) = 40" using assms length_ipv6_header_bytes by (simp add: built6_def)
  have "unat (ntoh16 (ip6_payload_length iph)) = 8 + length payload"
    using assms unat_u16_nat [of "8 + length payload"] by (simp add: built6_def)
  then have c: "ipv6_check ?p = Some (iph, 40, 8 + length payload)"
    using assms l by (simp add: ipv6_check_def ipv6_header_roundtrip Let_def built6_def ntoh8_def)
  have "?p ! 6 = 17" using assms by (simp add: built6_def ipv6_header_bytes_def nth_append)
  moreover have "take (8 + length payload) (drop 40 ?p) = udp_header_bytes udph @ payload" using l by simp
  moreover have "take (length payload) (drop 48 ?p) = payload" using l by simp
  ultimately show "parse_udp6 ?p = Some (iph, udph\<lparr>udp_checksum_field := 0\<rparr>, 48, length payload)"
    using c udp_check_built [of udph payload] assms l by (simp add: parse_udp6_def built6_def)
  show "ip_version ?p = 6" using assms by (simp add: ip_version_def built6_def ipv6_header_bytes_def)
qed

text \<open>What a receiver makes of a packet: the source, the destination and the payload of a UDP packet whose lengths and checksums are right.\<close>

definition udp_parts :: "byte list \<Rightarrow> (BAddr \<times> BAddr \<times> byte list) option" where
  "udp_parts pkt =
     (if ip_version pkt = 4 then do {
        (iph, udph, off, len) \<leftarrow> parse_udp4 pkt;
        Some (BADDR_IPV4 (ip_source_address iph) (udp_source_port udph), BADDR_IPV4 (ip_destination_address iph) (udp_dest_port udph),
          take len (drop off pkt)) }
      else if ip_version pkt = 6 then do {
        (iph, udph, off, len) \<leftarrow> parse_udp6 pkt;
        Some (BADDR_IPV6 (ip6_source_address iph) (udp_source_port udph), BADDR_IPV6 (ip6_destination_address iph) (udp_dest_port udph),
          take len (drop off pkt)) }
      else None)"

lemma udp_parts_built4:
  assumes "built4 iph udph payload"
  shows "udp_parts (ipv4_header_bytes iph @ udp_header_bytes udph @ payload) =
    Some (BADDR_IPV4 (ip_source_address iph) (udp_source_port udph), BADDR_IPV4 (ip_destination_address iph) (udp_dest_port udph), payload)"
  using parse_udp4_built [OF assms] by (simp add: udp_parts_def)

lemma udp_parts_built6:
  assumes "built6 iph udph payload"
  shows "udp_parts (ipv6_header_bytes iph @ udp_header_bytes udph @ payload) =
    Some (BADDR_IPV6 (ip6_source_address iph) (udp_source_port udph), BADDR_IPV6 (ip6_destination_address iph) (udp_dest_port udph), payload)"
proof -
  have "length (ipv6_header_bytes iph) = 40" using assms length_ipv6_header_bytes by (simp add: built6_def)
  then show ?thesis using parse_udp6_built [OF assms] by (simp add: udp_parts_def)
qed

subsection \<open>Replies of the gateway\<close>

definition td_fits :: "Tun2socks \<Rightarrow> BAddr \<Rightarrow> int \<Rightarrow> bool" where
  "td_fits s a n \<longleftrightarrow> (if baddr_type a = 1 then n \<le> 65507 \<and> n \<le> ts_mtu s - 28
     else ts_netif_ip6addr s \<and> n \<le> 65527 \<and> n \<le> ts_mtu s - 48)"

lemma received4:
  assumes "ts_udpgw_remote s \<noteq> None" and buf: "int (length (ts_device_write_buf s)) = ts_mtu s"
    and n: "0 \<le> n" "n \<le> 65507" "n \<le> ts_mtu s - 28" and r: "read_at mem data (nat n) = Some payload"
  shows "\<exists>m pkt. udpgw_client_handler_received s (BADDR_IPV4 lip lport) (BADDR_IPV4 rip rport) mem data n =
      Some (s\<lparr>ts_device_write_buf := m\<rparr>, [TD_Send pkt]) \<and> length m = length (ts_device_write_buf s) \<and> int (length pkt) \<le> ts_mtu s \<and>
      udp_parts pkt = Some (BADDR_IPV4 rip rport, BADDR_IPV4 lip lport, payload)"
proof -
  have len: "int (length payload) = n" using read_at_length [OF r] n by simp
  let ?i0 = "\<lparr>version4_ihl4 = IPV4_MAKE_VERSION_IHL sizeof_ipv4_header, ip_ds = hton8 0,
                 ip_total_length = hton16 (of_int (int (sizeof_ipv4_header + sizeof_udp_header) + n)),
                 ip_identification = hton16 0, flags3_fragmentoffset13 = hton16 0, ip_ttl = hton8 64,
                 ip_protocol = hton8 IPV4_PROTOCOL_UDP, ip_checksum = hton16 0,
                 ip_source_address = rip, ip_destination_address = lip\<rparr>"
  let ?iph = "?i0\<lparr>ip_checksum := ipv4_checksum ?i0 []\<rparr>"
  let ?u0 = "\<lparr>udp_source_port = rport, udp_dest_port = lport,
                 udp_length = hton16 (of_int (int sizeof_udp_header + n)), udp_checksum_field = hton16 0\<rparr>"
  let ?udph = "?u0\<lparr>udp_checksum_field := udp_checksum ?u0 payload (ip_source_address ?iph) (ip_destination_address ?iph)\<rparr>"
  have "(of_int (28 + n) :: u16) = of_nat (28 + length payload)" "(of_int (8 + n) :: u16) = of_nat (8 + length payload)"
    using len by (simp_all flip: len)
  then have b: "built4 ?iph ?udph payload"
    using len n by (simp add: built4_def IPV4_MAKE_VERSION_IHL_def hton8_def)
  obtain m where m: "write_packet s (ipv4_header_bytes ?iph) ?udph payload = Some (s\<lparr>ts_device_write_buf := m\<rparr>)"
    "length m = length (ts_device_write_buf s)"
    "send_packet (s\<lparr>ts_device_write_buf := m\<rparr>) (int (length (ipv4_header_bytes ?iph) + 8 + length payload)) =
      Some [TD_Send (ipv4_header_bytes ?iph @ udp_header_bytes ?udph @ payload)]"
    using write_packet_send [of "ipv4_header_bytes ?iph" payload s ?udph] buf n len by auto
  have "int (length (ipv4_header_bytes ?iph) + 8 + length payload) = int (sizeof_ipv4_header + sizeof_udp_header) + n" using len by simp
  then have step: "udpgw_client_handler_received s (BADDR_IPV4 lip lport) (BADDR_IPV4 rip rport) mem data n =
      Some (s\<lparr>ts_device_write_buf := m\<rparr>, [TD_Send (ipv4_header_bytes ?iph @ udp_header_bytes ?udph @ payload)])"
    using assms(1) n r m(1,3) unfolding udpgw_client_handler_received_def
    by (simp add: c_assert_bind UINT16_MAX_def Let_def)
  show ?thesis using step m(2) udp_parts_built4 [OF b] len n
    by (intro exI [of _ m] exI [of _ "ipv4_header_bytes ?iph @ udp_header_bytes ?udph @ payload"]) simp
qed

lemma received6:
  assumes "ts_udpgw_remote s \<noteq> None" and buf: "int (length (ts_device_write_buf s)) = ts_mtu s" and "ts_netif_ip6addr s"
    and ip: "length lip = 16" "length rip = 16"
    and n: "0 \<le> n" "n \<le> 65527" "n \<le> ts_mtu s - 48" and r: "read_at mem data (nat n) = Some payload"
  shows "\<exists>m pkt. udpgw_client_handler_received s (BADDR_IPV6 lip lport) (BADDR_IPV6 rip rport) mem data n =
      Some (s\<lparr>ts_device_write_buf := m\<rparr>, [TD_Send pkt]) \<and> length m = length (ts_device_write_buf s) \<and> int (length pkt) \<le> ts_mtu s \<and>
      udp_parts pkt = Some (BADDR_IPV6 rip rport, BADDR_IPV6 lip lport, payload)"
proof -
  have len: "int (length payload) = n" using read_at_length [OF r] n by simp
  let ?iph = "\<lparr>version4_tc4 = hton8 (push_bit 4 6), tc4_fl4 = hton8 0, ip6_fl = hton16 0,
                 ip6_payload_length = hton16 (of_int (int sizeof_udp_header + n)),
                 ip6_next_header = hton8 IPV6_NEXT_UDP, ip6_hop_limit = hton8 64,
                 ip6_source_address = rip, ip6_destination_address = lip\<rparr>"
  let ?u0 = "\<lparr>udp_source_port = rport, udp_dest_port = lport,
                 udp_length = hton16 (of_int (int sizeof_udp_header + n)), udp_checksum_field = hton16 0\<rparr>"
  let ?udph = "?u0\<lparr>udp_checksum_field := udp_ip6_checksum ?u0 payload (ip6_source_address ?iph) (ip6_destination_address ?iph)\<rparr>"
  have "(of_int (8 + n) :: u16) = of_nat (8 + length payload)" using len by (simp flip: len)
  then have b: "built6 ?iph ?udph payload"
    using len n ip by (simp add: built6_def hton8_def)
  have l: "length (ipv6_header_bytes ?iph) = 40" using ip by (simp add: ipv6_header_bytes_def)
  obtain m where m: "write_packet s (ipv6_header_bytes ?iph) ?udph payload = Some (s\<lparr>ts_device_write_buf := m\<rparr>)"
    "length m = length (ts_device_write_buf s)"
    "send_packet (s\<lparr>ts_device_write_buf := m\<rparr>) (int (length (ipv6_header_bytes ?iph) + 8 + length payload)) =
      Some [TD_Send (ipv6_header_bytes ?iph @ udp_header_bytes ?udph @ payload)]"
    using write_packet_send [of "ipv6_header_bytes ?iph" payload s ?udph] buf n len l by auto
  have "int (length (ipv6_header_bytes ?iph) + 8 + length payload) = int (sizeof_ipv6_header + sizeof_udp_header) + n" using len l by simp
  from m(3) [unfolded this] have m3: "send_packet (s\<lparr>ts_device_write_buf := m\<rparr>) (int (sizeof_ipv6_header + sizeof_udp_header) + n) =
      Some [TD_Send (ipv6_header_bytes ?iph @ udp_header_bytes ?udph @ payload)]" .
  then have step: "udpgw_client_handler_received s (BADDR_IPV6 lip lport) (BADDR_IPV6 rip rport) mem data n =
      Some (s\<lparr>ts_device_write_buf := m\<rparr>, [TD_Send (ipv6_header_bytes ?iph @ udp_header_bytes ?udph @ payload)])"
    using assms(1,3) n r m(1) unfolding udpgw_client_handler_received_def
    by (simp add: c_assert_bind UINT16_MAX_def Let_def)
  show ?thesis using step m(2) udp_parts_built6 [OF b] len n l
    by (intro exI [of _ m] exI [of _ "ipv6_header_bytes ?iph @ udp_header_bytes ?udph @ payload"]) simp
qed

subsection \<open>The table of DNS connections\<close>

text \<open>What the operations of the table leave alone.\<close>

definition td_same :: "Tun2socks \<Rightarrow> Tun2socks \<Rightarrow> bool" where
  "td_same s s' \<longleftrightarrow> ts_udpgw_remote s' = ts_udpgw_remote s \<and> ts_transparent_dns s' = ts_transparent_dns s \<and> ts_mtu s' = ts_mtu s \<and>
     ts_udp_mtu s' = ts_udp_mtu s \<and> ts_netif_ipaddr s' = ts_netif_ipaddr s \<and> ts_netif_ip6addr s' = ts_netif_ip6addr s \<and>
     ts_quitting s' = ts_quitting s \<and> ts_udpgw_client s' = ts_udpgw_client s \<and> length (ts_device_write_buf s') = length (ts_device_write_buf s)"

lemma is_comparator_port: "is_comparator port_comparator"
proof -
  have "port_comparator = B_COMPARE" by (intro ext) (auto simp: port_comparator_def B_COMPARE_def)
  then show ?thesis using is_comparator_B_COMPARE by simp
qed

lemma port_same [simp]: "port_comparator a b = 0 \<longleftrightarrow> a = b"
  by (simp add: port_comparator_def)

abbreviation td_key :: "Tun2socks \<Rightarrow> nat \<Rightarrow> u16" where
  "td_key s c \<equiv> cn_port (ts_con s c)"

definition td_table :: "Tun2socks \<Rightarrow> nat set \<Rightarrow> bool" where
  "td_table s S \<longleftrightarrow> holds_tree port_comparator (td_key s) (ts_connections_tree s) S \<and>
     (\<forall>c\<in>S. 1 \<le> cn_count (ts_con s c) \<and> (\<exists>ip. cn_local_addr (ts_con s c) = BADDR_IPV4 ip (td_key s c)) \<and>
        (\<exists>ip. cn_remote_addr (ts_con s c) = BADDR_IPV4 ip (hton16 53)))"

lemma find_connection_cases:
  assumes "td_table s S"
  obtains (found) c where "c \<in> S" "td_key s c = port" "find_connection s port = Some (Some c)"
  | (none) "\<forall>c\<in>S. td_key s c \<noteq> port" "find_connection s port = Some None"
  using holds_tree_lookup [OF _ is_comparator_port, of "td_key s" "ts_connections_tree s" S port] assms
  by (auto simp: td_table_def find_connection_def)

lemma find_connection_unique:
  assumes "td_table s S" and "c \<in> S"
  shows "find_connection s (td_key s c) = Some (Some c)"
  using assms(1)
proof (cases rule: find_connection_cases [of s S "td_key s c"])
  case (found d)
  then have "d = c" using holds_tree_inj [OF _ is_comparator_port, of "td_key s" "ts_connections_tree s" S d c] assms
    by (auto simp: td_table_def)
  then show ?thesis using found by simp
next
  case none
  then show ?thesis using assms(2) by blast
qed

lemma insert_connection_again:
  assumes "td_table s S" and "c \<in> S"
  shows "\<exists>s'. insert_connection env s la ra (td_key s c) = Some s' \<and> td_table s' S \<and>
    s' = s\<lparr>ts_con := (ts_con s)(c := (ts_con s c)\<lparr>cn_count := cn_count (ts_con s c) + 1\<rparr>)\<rparr>"
proof -
  let ?s = "s\<lparr>ts_con := (ts_con s)(c := (ts_con s c)\<lparr>cn_count := cn_count (ts_con s c) + 1\<rparr>)\<rparr>"
  have "holds_tree port_comparator (td_key ?s) (ts_connections_tree ?s) S"
    using assms(1) by (subst holds_tree_cong [of _ _ "td_key s"]) (simp_all add: td_table_def)
  then have "td_table ?s S" using assms(1) by (auto simp: td_table_def)
  then show ?thesis using find_connection_unique [OF assms] by (simp add: insert_connection_def)
qed

lemma insert_connection_new:
  fixes lip rip :: u32
  assumes T: "td_table s S" and new: "\<forall>d\<in>S. td_key s d \<noteq> port" and c: "tn_con env = Some c" "c \<notin> S"
  defines "con \<equiv> \<lparr>cn_local_addr = BADDR_IPV4 lip port, cn_remote_addr = BADDR_IPV4 rip (hton16 53), cn_port = port, cn_count = 1\<rparr>"
  shows "\<exists>t. insert_connection env s (BADDR_IPV4 lip port) (BADDR_IPV4 rip (hton16 53)) port =
      Some (s\<lparr>ts_con := (ts_con s)(c := con), ts_connections_tree := t\<rparr>) \<and>
    td_table (s\<lparr>ts_con := (ts_con s)(c := con), ts_connections_tree := t\<rparr>) (insert c S)"
proof -
  let ?s = "s\<lparr>ts_con := (ts_con s)(c := con)\<rparr>"
  have none: "find_connection s port = Some None" using T new by (cases rule: find_connection_cases [of s S port]) auto
  have h: "holds_tree port_comparator (td_key ?s) (ts_connections_tree ?s) S"
    using T c(2) by (subst holds_tree_cong [of _ _ "td_key s"]) (auto simp: td_table_def)
  have "\<forall>x\<in>S. port_comparator (td_key ?s c) (td_key ?s x) \<noteq> 0" using new c(2) by (auto simp: con_def)
  from holds_tree_insert [OF h is_comparator_port this] obtain t where
    t: "tree_insert (\<lambda>a b. port_comparator (td_key ?s a) (td_key ?s b)) (ts_connections_tree ?s) c = Some t"
    "holds_tree port_comparator (td_key ?s) t (insert c S)" by blast
  then obtain x where "BAVL_Insert (\<lambda>a b. port_comparator (td_key ?s a) (td_key ?s b)) (ts_connections_tree s) c = Some (True, x, t)"
    by (auto simp: tree_insert_def c_assert_bind bind_eq_Some_conv split: if_splits)
  moreover have "td_table (?s\<lparr>ts_connections_tree := t\<rparr>) (insert c S)"
    using t(2) T c(2) by (auto simp: td_table_def con_def)
  ultimately show ?thesis using none c(1) unfolding insert_connection_def con_def by (intro exI [of _ t]) simp
qed

lemma remove_connection_ok:
  assumes T: "td_table s S" and c: "c \<in> S"
  shows "\<exists>s' outs S'. remove_connection s c = Some (s', outs) \<and> td_table s' S' \<and> S' \<subseteq> S \<and> (\<forall>p. TD_Send p \<notin> set outs) \<and>
    td_same s s' \<and> ts_dns_init s' = ts_dns_init s \<and>
    (cn_count (ts_con s c) = 1 \<longrightarrow> S' = S - {c} \<and> (\<forall>d\<in>S'. ts_con s' d = ts_con s d)) \<and>
    (cn_count (ts_con s c) > 1 \<longrightarrow> S' = S \<and> ts_con s' = (ts_con s)(c := (ts_con s c)\<lparr>cn_count := cn_count (ts_con s c) - 1\<rparr>))"
proof -
  let ?con = "(ts_con s c)\<lparr>cn_count := cn_count (ts_con s c) - 1\<rparr>"
  let ?s = "s\<lparr>ts_con := (ts_con s)(c := ?con)\<rparr>"
  have h: "holds_tree port_comparator (td_key ?s) (ts_connections_tree ?s) S"
    using T by (subst holds_tree_cong [of _ _ "td_key s"]) (auto simp: td_table_def)
  show ?thesis
  proof (cases "cn_count (ts_con s c) = 1")
    case True
    obtain t where t: "BAVL_Remove (ts_connections_tree ?s) c = Some t" "holds_tree port_comparator (td_key ?s) t (S - {c})"
      using holds_tree_remove [OF h is_comparator_port c] by blast
    then have "td_table (?s\<lparr>ts_connections_tree := t\<rparr>) (S - {c})" using T by (auto simp: td_table_def)
    then show ?thesis using True t(1)
      by (intro exI [of _ "?s\<lparr>ts_connections_tree := t\<rparr>"] exI [of _ "[TD_FreeCon c]"] exI [of _ "S - {c}"]) (auto simp: remove_connection_def td_same_def)
  next
    case False
    then have n: "1 < cn_count (ts_con s c)" using T c by (auto simp: td_table_def)
    then have "td_table ?s S" using T h by (auto simp: td_table_def)
    then show ?thesis using n False
      by (intro exI [of _ ?s] exI [of _ "[]"] exI [of _ S]) (auto simp: remove_connection_def td_same_def)
  qed
qed

subsection \<open>DNS packets\<close>

definition sealed_ip :: "ipv4_header \<Rightarrow> ipv4_header" where
  "sealed_ip iph = iph\<lparr>ip_checksum := ipv4_checksum (iph\<lparr>ip_checksum := 0\<rparr>) []\<rparr>"

definition sealed_udp :: "ipv4_header \<Rightarrow> udp_header \<Rightarrow> byte list \<Rightarrow> udp_header" where
  "sealed_udp iph udph payload = udph\<lparr>udp_checksum_field :=
     udp_checksum (udph\<lparr>udp_checksum_field := 0\<rparr>) payload (ip_source_address iph) (ip_destination_address iph)\<rparr>"

definition sealed :: "ipv4_header \<Rightarrow> udp_header \<Rightarrow> byte list \<Rightarrow> byte list" where
  "sealed iph udph payload = ipv4_header_bytes (sealed_ip iph) @ udp_header_bytes (sealed_udp iph udph payload) @ payload"

lemma parse_udp4_bounds:
  assumes "parse_udp4 pkt = Some (iph, udph, off, len)"
  shows "28 \<le> off" "off + len \<le> length pkt" "28 + len \<le> length pkt" "unat (ntoh16 (udp_length udph)) = 8 + len"
    "28 + len \<le> unat (ntoh16 (ip_total_length iph))"
proof -
  obtain o1 l1 udph0 o2 where a: "ipv4_check pkt = Some (iph, o1, l1)" "udp_check (take l1 (drop o1 pkt)) = Some (udph0, o2, len)"
      "off = o1 + o2" "udph = udph0\<lparr>udp_checksum_field := 0\<rparr>"
    using assms by (auto simp: parse_udp4_def bind_eq_Some_conv Let_def split: if_splits)
  note b = ipv4_check_bounds [OF a(1)] udp_check_bounds [OF a(2)]
  show "28 \<le> off" "off + len \<le> length pkt" "28 + len \<le> length pkt" "28 + len \<le> unat (ntoh16 (ip_total_length iph))" using a(3) b by auto
  show "unat (ntoh16 (udp_length udph)) = 8 + len" using a(2,4) by (auto simp: udp_check_def Let_def split: if_splits)
qed

lemma dns_send:
  assumes "int (length (ts_device_write_buf s)) = ts_mtu s" and "int (28 + length payload) \<le> ts_mtu s"
  shows "\<exists>m. (let iph = iph\<lparr>ip_checksum := hton16 0\<rparr>;
                  iph = iph\<lparr>ip_checksum := ipv4_checksum iph []\<rparr>;
                  udph = udph\<lparr>udp_checksum_field := hton16 0\<rparr>;
                  udph = udph\<lparr>udp_checksum_field :=
                         udp_checksum udph payload (ip_source_address iph) (ip_destination_address iph)\<rparr>
              in do { s \<leftarrow> write_packet s (ipv4_header_bytes iph) udph payload;
                   os \<leftarrow> send_packet s (int (sizeof_ipv4_header + sizeof_udp_header + length payload));
                   Some (True, s, outs @ os) }) =
      Some (True, s\<lparr>ts_device_write_buf := m\<rparr>, outs @ [TD_Send (sealed iph udph payload)]) \<and> length m = length (ts_device_write_buf s)"
proof -
  obtain m where m: "write_packet s (ipv4_header_bytes (sealed_ip iph)) (sealed_udp iph udph payload) payload = Some (s\<lparr>ts_device_write_buf := m\<rparr>)"
    "length m = length (ts_device_write_buf s)"
    "send_packet (s\<lparr>ts_device_write_buf := m\<rparr>) (int (28 + length payload)) = Some [TD_Send (sealed iph udph payload)]"
    using write_packet_send [of "ipv4_header_bytes (sealed_ip iph)" payload s "sealed_udp iph udph payload"] assms by (auto simp: sealed_def)
  have "iph\<lparr>ip_checksum := ipv4_checksum (iph\<lparr>ip_checksum := 0\<rparr>) []\<rparr> = sealed_ip iph"
    "udph\<lparr>udp_checksum_field := udp_checksum (udph\<lparr>udp_checksum_field := 0\<rparr>) payload (ip_source_address iph) (ip_destination_address iph)\<rparr> =
      sealed_udp iph udph payload" by (simp_all add: sealed_ip_def sealed_udp_def)
  then show ?thesis using m by (intro exI [of _ m]) (simp add: Let_def)
qed

lemma dns_query_step:
  assumes "ts_udpgw_remote s = Some server" and "ip_version pkt = 4" and p: "parse_udp4 pkt = Some (iph, udph, off, len)"
    and "udp_dest_port udph = hton16 53" and r: "0 \<le> n" "read_at mem data (nat n) = Some pkt"
    and ins: "insert_connection env (if ts_dns_init s then s
        else s\<lparr>ts_dns_init := True, ts_connections_tree := BAVL_Init (b_node (ts_connections_tree s))\<rparr>)
      (BADDR_IPV4 (ip_source_address iph) (udp_source_port udph)) (BADDR_IPV4 (ip_destination_address iph) (hton16 53)) (udp_source_port udph) = Some s1"
    and buf: "int (length (ts_device_write_buf s1)) = ts_mtu s1" "n \<le> ts_mtu s1"
  shows "\<exists>m. process_device_dns_packet env mem s data n = Some (True, s1\<lparr>ts_device_write_buf := m\<rparr>, [TD_Send (sealed
      (iph\<lparr>ip_destination_address := fst (baddr_ipv4 server), ip_source_address := ts_netif_ipaddr s1\<rparr>)
      (udph\<lparr>udp_dest_port := snd (baddr_ipv4 server)\<rparr>) (take len (drop off pkt)))]) \<and> length m = length (ts_device_write_buf s1)"
proof -
  note b = parse_udp4_bounds [OF p]
  have len: "length (take len (drop off pkt)) = len" "length pkt = nat n" using b read_at_length [OF r(2)] by simp_all
  have "int (28 + length (take len (drop off pkt))) \<le> ts_mtu s1" using b(3) len buf r(1) by simp
  from dns_send [OF buf(1) this, of "iph\<lparr>ip_destination_address := fst (baddr_ipv4 server), ip_source_address := ts_netif_ipaddr s1\<rparr>"
      "udph\<lparr>udp_dest_port := snd (baddr_ipv4 server)\<rparr>" "[]"]
  show ?thesis unfolding process_device_dns_packet_def
    using assms(1,2) p assms(4) r ins len(1) by (simp add: c_assert_bind BAddr_InitIPv4_def Let_def)
qed

lemma dns_reply_step:
  assumes "ts_udpgw_remote s = Some server" and "ip_version pkt = 4" and p: "parse_udp4 pkt = Some (iph, udph, off, len)"
    and "udp_dest_port udph \<noteq> hton16 53" "udp_source_port udph = snd (baddr_ipv4 server)" and "ts_dns_init s"
    and r: "0 \<le> n" "read_at mem data (nat n) = Some pkt"
    and con: "find_connection s (udp_dest_port udph) = Some (Some c)" "remove_connection s c = Some (s1, outs)"
    and buf: "int (length (ts_device_write_buf s1)) = ts_mtu s1" "n \<le> ts_mtu s1"
  shows "\<exists>m. process_device_dns_packet env mem s data n = Some (True, s1\<lparr>ts_device_write_buf := m\<rparr>, outs @ [TD_Send (sealed
      (iph\<lparr>ip_source_address := fst (baddr_ipv4 (cn_remote_addr (ts_con s c))), ip_destination_address := fst (baddr_ipv4 (cn_local_addr (ts_con s c)))\<rparr>)
      (udph\<lparr>udp_source_port := snd (baddr_ipv4 (cn_remote_addr (ts_con s c)))\<rparr>) (take len (drop off pkt)))]) \<and>
      length m = length (ts_device_write_buf s1)"
proof -
  note b = parse_udp4_bounds [OF p]
  have len: "length (take len (drop off pkt)) = len" "length pkt = nat n" using b read_at_length [OF r(2)] by simp_all
  have "int (28 + length (take len (drop off pkt))) \<le> ts_mtu s1" using b(3) len buf r(1) by simp
  from dns_send [OF buf(1) this, of "iph\<lparr>ip_source_address := fst (baddr_ipv4 (cn_remote_addr (ts_con s c))),
        ip_destination_address := fst (baddr_ipv4 (cn_local_addr (ts_con s c)))\<rparr>"
      "udph\<lparr>udp_source_port := snd (baddr_ipv4 (cn_remote_addr (ts_con s c)))\<rparr>" outs]
  show ?thesis unfolding process_device_dns_packet_def
    using assms(1,2) p assms(4-6) r con len(1) by (simp add: c_assert_bind Let_def)
qed

lemma hton16_of_unat: "unat (ntoh16 x) = n \<Longrightarrow> x = hton16 (of_nat n)"
  by auto

lemma udp_parts_sealed:
  assumes "version4_ihl4 iph = 0x45" and "ip_protocol iph = 17" and "unat (ntoh16 (ip_total_length iph)) = 28 + length payload"
    and "unat (ntoh16 (udp_length udph)) = 8 + length payload"
  shows "udp_parts (sealed iph udph payload) =
    Some (BADDR_IPV4 (ip_source_address iph) (udp_source_port udph), BADDR_IPV4 (ip_destination_address iph) (udp_dest_port udph), payload)"
proof -
  have "28 + length payload < 65536" using unat_u16_less [of "ntoh16 (ip_total_length iph)"] assms(3) by simp
  then have "built4 (sealed_ip iph) (sealed_udp iph udph payload) payload"
    using assms hton16_of_unat [OF assms(3)] hton16_of_unat [OF assms(4)]
    by (simp add: built4_def sealed_ip_def sealed_udp_def)
  from udp_parts_built4 [OF this] show ?thesis by (simp add: sealed_def sealed_ip_def sealed_udp_def)
qed

text \<open>A UDP packet without IP options and without padding behind the UDP datagram.\<close>

definition plain4 :: "byte list \<Rightarrow> ipv4_header \<Rightarrow> udp_header \<Rightarrow> byte list \<Rightarrow> bool" where
  "plain4 pkt iph udph payload \<longleftrightarrow> ip_version pkt = 4 \<and> parse_udp4 pkt = Some (iph, udph, 28, length payload) \<and> take (length payload) (drop 28 pkt) = payload \<and>
     version4_ihl4 iph = 0x45 \<and> unat (ntoh16 (ip_total_length iph)) = 28 + length payload"

lemma plain4_protocol: "parse_udp4 pkt = Some (iph, udph, off, len) \<Longrightarrow> ip_protocol iph = 17"
  by (auto simp: parse_udp4_def bind_eq_Some_conv Let_def ipv4_header_of_bytes_def dest!: ipv4_check_header split: if_splits)

lemma plain4_parts:
  assumes "plain4 pkt iph udph payload"
  shows "udp_parts pkt = Some (BADDR_IPV4 (ip_source_address iph) (udp_source_port udph), BADDR_IPV4 (ip_destination_address iph) (udp_dest_port udph), payload)"
  using assms by (simp add: udp_parts_def plain4_def)

lemma plain4_sealed:
  assumes p: "plain4 pkt iph udph payload"
  shows "udp_parts (sealed (iph\<lparr>ip_destination_address := b, ip_source_address := a\<rparr>) (udph\<lparr>udp_dest_port := k\<rparr>) payload) =
      Some (BADDR_IPV4 a (udp_source_port udph), BADDR_IPV4 b k, payload)"
    and "udp_parts (sealed (iph\<lparr>ip_source_address := a, ip_destination_address := b\<rparr>) (udph\<lparr>udp_source_port := k\<rparr>) payload) =
      Some (BADDR_IPV4 a k, BADDR_IPV4 b (udp_dest_port udph), payload)"
proof -
  have q: "parse_udp4 pkt = Some (iph, udph, 28, length payload)" using p by (simp add: plain4_def)
  show "udp_parts (sealed (iph\<lparr>ip_destination_address := b, ip_source_address := a\<rparr>) (udph\<lparr>udp_dest_port := k\<rparr>) payload) =
      Some (BADDR_IPV4 a (udp_source_port udph), BADDR_IPV4 b k, payload)"
    using udp_parts_sealed [of "iph\<lparr>ip_destination_address := b, ip_source_address := a\<rparr>" payload "udph\<lparr>udp_dest_port := k\<rparr>"]
      parse_udp4_bounds(4) [OF q] plain4_protocol [OF q] p by (simp add: plain4_def)
  show "udp_parts (sealed (iph\<lparr>ip_source_address := a, ip_destination_address := b\<rparr>) (udph\<lparr>udp_source_port := k\<rparr>) payload) =
      Some (BADDR_IPV4 a k, BADDR_IPV4 b (udp_dest_port udph), payload)"
    using udp_parts_sealed [of "iph\<lparr>ip_source_address := a, ip_destination_address := b\<rparr>" payload "udph\<lparr>udp_source_port := k\<rparr>"]
      parse_udp4_bounds(4) [OF q] plain4_protocol [OF q] p by (simp add: plain4_def)
qed

subsection \<open>The transition system\<close>

definition td_cons :: "Tun2socks \<Rightarrow> nat set \<Rightarrow> bool" where
  "td_cons s S \<longleftrightarrow> (if ts_dns_init s then td_table s S else b_root (ts_connections_tree s) = None \<and> S = {})"

abbreviation td_gateway :: "Tun2socks \<Rightarrow> bool" where
  "td_gateway s \<equiv> ts_udpgw_remote s \<noteq> None \<and> \<not> ts_transparent_dns s"

definition td_client_ok :: "Tun2socks \<Rightarrow> SocksUdpGwClient \<Rightarrow> bool" where
  "td_client_ok s u \<longleftrightarrow> su_inv u \<and> ts_udp_mtu s \<le> uc_udp_mtu (su_udpgw_client u)"

definition td_inv :: "Tun2socks \<Rightarrow> bool" where
  "td_inv s \<longleftrightarrow> int (length (ts_device_write_buf s)) = ts_mtu s \<and> (\<exists>S. td_cons s S) \<and> (td_gateway s \<longrightarrow> td_client_ok s (ts_udpgw_client s))"

text \<open>The environment: memory for a connection is available, at an address that is not in use, and the gateway client is in use only when the
  code has created it.\<close>

definition td_env_ok :: "td_env \<Rightarrow> Tun2socks \<Rightarrow> bool" where
  "td_env_ok env s \<longleftrightarrow> (\<exists>c. tn_con env = Some c \<and> (\<forall>S. td_cons s S \<longrightarrow> c \<notin> S)) \<and>
     (\<forall>xs. is_list (uc_connections_list (su_udpgw_client (ts_udpgw_client s))) xs \<longrightarrow> uc_env_ok (tn_udpgw env) xs)"

lemma td_same_inv: "td_same s s' \<Longrightarrow> td_inv s \<Longrightarrow> td_cons s' S \<Longrightarrow> td_inv s'"
  by (auto simp: td_same_def td_inv_def td_client_ok_def)

lemma dns_start:
  assumes "td_cons s S"
  defines "s0 \<equiv> if ts_dns_init s then s else s\<lparr>ts_dns_init := True, ts_connections_tree := BAVL_Init (b_node (ts_connections_tree s))\<rparr>"
  shows "td_table s0 S" "ts_dns_init s0" "td_same s s0" "ts_con s0 = ts_con s"
  using assms holds_tree_empty [of port_comparator "td_key s" "b_node (ts_connections_tree s)"]
  by (auto simp: td_cons_def td_table_def td_same_def)

lemma insert_connection_ok:
  assumes T: "td_table s S" and c: "tn_con env = Some c" "c \<notin> S"
  shows "\<exists>s' S'. insert_connection env s (BADDR_IPV4 lip port) (BADDR_IPV4 rip (hton16 53)) port = Some s' \<and> td_table s' S' \<and>
    td_same s s' \<and> ts_dns_init s' = ts_dns_init s \<and> ts_device_write_buf s' = ts_device_write_buf s"
proof (cases "\<exists>d\<in>S. td_key s d = port")
  case True
  then obtain d where d: "d \<in> S" "td_key s d = port" by blast
  show ?thesis using insert_connection_again [OF T d(1), of env "BADDR_IPV4 lip port" "BADDR_IPV4 rip (hton16 53)"] d(2)
    by (auto simp: td_same_def)
next
  case False
  then have "\<forall>d\<in>S. td_key s d \<noteq> port" by blast
  from insert_connection_new [OF T this c, of lip rip] show ?thesis by (fastforce simp: td_same_def)
qed

lemma dns_cases:
  assumes "0 \<le> n" and r: "read_at mem data (nat n) = Some pkt"
  obtains (fail) "process_device_dns_packet env mem s data n = Some (False, s, [])"
    | (query) server iph udph off len where "ts_udpgw_remote s = Some server" "ip_version pkt = 4" "parse_udp4 pkt = Some (iph, udph, off, len)"
        "udp_dest_port udph = hton16 53"
    | (reply) server iph udph off len where "ts_udpgw_remote s = Some server" "ip_version pkt = 4" "parse_udp4 pkt = Some (iph, udph, off, len)"
        "udp_dest_port udph \<noteq> hton16 53" "udp_source_port udph = snd (baddr_ipv4 server)" "ts_dns_init s"
proof (cases "\<exists>server iph udph off len. ts_udpgw_remote s = Some server \<and> ip_version pkt = 4 \<and> parse_udp4 pkt = Some (iph, udph, off, len)")
  case True
  then obtain server iph udph off len where p: "ts_udpgw_remote s = Some server" "ip_version pkt = 4" "parse_udp4 pkt = Some (iph, udph, off, len)" by blast
  show thesis
  proof (cases "udp_dest_port udph = hton16 53 \<or> udp_source_port udph = snd (baddr_ipv4 server) \<and> ts_dns_init s")
    case True
    then show thesis using query [OF p] reply [OF p] by blast
  next
    case False
    then have "process_device_dns_packet env mem s data n = Some (False, s, [])"
      using p assms by (auto simp: process_device_dns_packet_def c_assert_bind Let_def)
    then show thesis by (rule fail)
  qed
next
  case False
  then have "process_device_dns_packet env mem s data n = Some (False, s, [])"
    using assms by (auto simp: process_device_dns_packet_def c_assert_bind Let_def split: option.split)
  then show thesis by (rule fail)
qed

lemma process_dns_ok:
  assumes inv: "td_inv s" and n: "0 \<le> n" "n \<le> ts_mtu s" and r: "read_at mem data (nat n) = Some pkt" and env: "td_env_ok env s"
  shows "process_device_dns_packet env mem s data n = Some (False, s, []) \<or>
    (\<exists>s' outs. process_device_dns_packet env mem s data n = Some (True, s', outs) \<and> td_inv s' \<and> td_same s s')"
proof -
  obtain S where S: "td_cons s S" using inv by (auto simp: td_inv_def)
  have buf: "int (length (ts_device_write_buf s)) = ts_mtu s" using inv by (simp add: td_inv_def)
  obtain c where c: "tn_con env = Some c" "c \<notin> S" using env S by (auto simp: td_env_ok_def)
  let ?s0 = "if ts_dns_init s then s else s\<lparr>ts_dns_init := True, ts_connections_tree := BAVL_Init (b_node (ts_connections_tree s))\<rparr>"
  note s0 = dns_start [OF S]
  show ?thesis using n(1) r
  proof (cases rule: dns_cases [where s = s and env = env])
    case fail
    then show ?thesis by blast
  next
    case (query server iph udph off len)
    obtain s1 S1 where s1: "insert_connection env ?s0 (BADDR_IPV4 (ip_source_address iph) (udp_source_port udph))
        (BADDR_IPV4 (ip_destination_address iph) (hton16 53)) (udp_source_port udph) = Some s1" "td_table s1 S1" "td_same ?s0 s1" "ts_dns_init s1"
      using insert_connection_ok [OF s0(1) c] s0(2) by blast
    have same: "td_same s s1" using s0(3) s1(3) by (auto simp: td_same_def)
    from dns_query_step [OF query n(1) r s1(1)] same n buf obtain m where
      m: "process_device_dns_packet env mem s data n = Some (True, s1\<lparr>ts_device_write_buf := m\<rparr>, [TD_Send (sealed
      (iph\<lparr>ip_destination_address := fst (baddr_ipv4 server), ip_source_address := ts_netif_ipaddr s1\<rparr>)
      (udph\<lparr>udp_dest_port := snd (baddr_ipv4 server)\<rparr>) (take len (drop off pkt)))])" "length m = length (ts_device_write_buf s1)"
      by (auto simp: td_same_def)
    have "td_same s (s1\<lparr>ts_device_write_buf := m\<rparr>)" "td_cons (s1\<lparr>ts_device_write_buf := m\<rparr>) S1"
      using same m(2) s1(2,4) by (simp_all add: td_same_def td_cons_def td_table_def)
    then show ?thesis using m(1) td_same_inv [OF _ inv] by blast
  next
    case (reply server iph udph off len)
    then have T: "td_table s S" using S by (simp add: td_cons_def)
    show ?thesis using T
    proof (cases rule: find_connection_cases [of s S "udp_dest_port udph"])
      case none
      then show ?thesis using reply n(1) r by (simp add: process_device_dns_packet_def c_assert_bind)
    next
      case (found d)
      obtain s1 outs S1 where s1: "remove_connection s d = Some (s1, outs)" "td_table s1 S1" "td_same s s1" "ts_dns_init s1 = ts_dns_init s"
        using remove_connection_ok [OF T found(1)] by (elim exE conjE) (rule that)
      have same: "td_same s s1" "ts_dns_init s1" using s1(3,4) reply(6) by simp_all
      from dns_reply_step [OF reply n(1) r found(3) s1(1), of env] same n buf obtain m o2 where
        m: "process_device_dns_packet env mem s data n = Some (True, s1\<lparr>ts_device_write_buf := m\<rparr>, o2)" "length m = length (ts_device_write_buf s1)"
        by (auto simp: td_same_def)
      have "td_same s (s1\<lparr>ts_device_write_buf := m\<rparr>)" "td_cons (s1\<lparr>ts_device_write_buf := m\<rparr>) S1"
        using same m(2) s1(2) by (simp_all add: td_same_def td_cons_def td_table_def)
      then show ?thesis using m(1) td_same_inv [OF _ inv] by blast
    qed
  qed
qed

subsection \<open>UDP packets\<close>

lemma td_cons_client [simp]: "td_cons (s\<lparr>ts_udpgw_client := u\<rparr>) = td_cons s"
  by (simp add: fun_eq_iff td_cons_def td_table_def)

lemma td_cons_buf [simp]: "td_cons (s\<lparr>ts_device_write_buf := m\<rparr>) = td_cons s"
  by (simp add: fun_eq_iff td_cons_def td_table_def)

lemma su_submit_ok:
  assumes inv: "su_inv u" and env: "\<forall>xs. is_list (uc_connections_list (su_udpgw_client u)) xs \<longrightarrow> uc_env_ok env xs"
    and "is_ip_addr la" "is_ip_addr ra" "0 \<le> n" "n \<le> uc_udp_mtu (su_udpgw_client u)" "read_at mem data (nat n) \<noteq> None"
  shows "\<exists>u2 outs. SocksUdpGwClient_SubmitPacket env mem u la ra is_dns data n = Some (u2, outs) \<and> su_inv u2 \<and>
    uc_udp_mtu (su_udpgw_client u2) = uc_udp_mtu (su_udpgw_client u)"
proof -
  obtain xs where ok: "uc_ok (su_udpgw_client u) xs" using inv by (auto simp: su_inv_def)
  obtain payload where "read_at mem data (nat n) = Some payload" using assms(7) by auto
  from UdpGwClient_SubmitPacket_ok [OF ok assms(3-6) this, of env is_dns] env uc_ok_list [OF ok] obtain o2 outs xs2 where
    "UdpGwClient_SubmitPacket env mem (su_udpgw_client u) la ra is_dns data n = Some (o2, outs)" "uc_ok o2 xs2"
    "uc_have_server o2 = uc_have_server (su_udpgw_client u)" "uc_udp_mtu o2 = uc_udp_mtu (su_udpgw_client u)" by blast
  then show ?thesis using inv by (auto simp: SocksUdpGwClient_SubmitPacket_def su_inv_def su_socks_ok_def)
qed

lemma parse_udp6_bounds:
  assumes "parse_udp6 pkt = Some (iph, udph, off, len)"
  shows "off + len \<le> length pkt" "length (ip6_source_address iph) = 16" "length (ip6_destination_address iph) = 16"
proof -
  obtain o1 l1 udph0 o2 where a: "ipv6_check pkt = Some (iph, o1, l1)" "udp_check (take l1 (drop o1 pkt)) = Some (udph0, o2, len)"
      "off = o1 + o2" "40 \<le> length pkt"
    using assms by (auto simp: parse_udp6_def bind_eq_Some_conv Let_def split: if_splits)
  note b = ipv6_check_bounds [OF a(1)] udp_check_bounds [OF a(2)]
  show "off + len \<le> length pkt" using a(3) b by auto
  have "iph = ipv6_header_of_bytes pkt" using a(1) by (auto simp: ipv6_check_def Let_def split: if_splits)
  then show "length (ip6_source_address iph) = 16" "length (ip6_destination_address iph) = 16"
    using a(4) by (simp_all add: ipv6_header_of_bytes_def)
qed

lemma udp_cases:
  assumes "0 \<le> n" and r: "read_at mem data (nat n) = Some pkt"
  obtains (fail) "process_device_udp_packet env mem s data n = Some (False, s, [])"
    | (submit) la ra is_dns off len where "td_gateway s" "is_ip_addr la" "is_ip_addr ra" "off + len \<le> length pkt" "int len \<le> ts_udp_mtu s"
        "udp_parts pkt = Some (la, ra, take len (drop off pkt))"
        "process_device_udp_packet env mem s data n = do {
           (u, outs) \<leftarrow> SocksUdpGwClient_SubmitPacket (tn_udpgw env) mem (ts_udpgw_client s) la ra is_dns (data + off) (int len);
           Some (True, s\<lparr>ts_udpgw_client := u\<rparr>, [TD_Udpgw outs]) }"
proof (cases "td_gateway s")
  case False
  then show thesis using assms by (intro fail) (auto simp: process_device_udp_packet_def c_assert_bind Let_def)
next
  case gw: True
  consider (v4) iph udph off len where "ip_version pkt = 4" "parse_udp4 pkt = Some (iph, udph, off, len)"
    | (v6) iph udph off len where "ip_version pkt = 6" "ts_netif_ip6addr s" "parse_udp6 pkt = Some (iph, udph, off, len)"
    | (other) "\<not> (ip_version pkt = 4 \<and> parse_udp4 pkt \<noteq> None)" "\<not> (ip_version pkt = 6 \<and> ts_netif_ip6addr s \<and> parse_udp6 pkt \<noteq> None)"
    by (metis option.exhaust prod_cases4)
  then show thesis
  proof cases
    case v4
    then show thesis using submit [OF gw, of "BADDR_IPV4 (ip_source_address iph) (udp_source_port udph)"
          "BADDR_IPV4 (ip_destination_address iph) (udp_dest_port udph)" off len "tn_is_dns env"] fail assms gw parse_udp4_bounds(2) [OF v4(2)]
      by (cases "int len > ts_udp_mtu s")
        (auto simp: process_device_udp_packet_def c_assert_bind Let_def udp_parts_def BAddr_InitIPv4_def)
  next
    case v6
    then show thesis using submit [OF gw, of "BADDR_IPV6 (ip6_source_address iph) (udp_source_port udph)"
          "BADDR_IPV6 (ip6_destination_address iph) (udp_dest_port udph)" off len False] fail assms gw parse_udp6_bounds [OF v6(3)]
      by (cases "int len > ts_udp_mtu s")
        (auto simp: process_device_udp_packet_def c_assert_bind Let_def udp_parts_def BAddr_InitIPv6_def)
  next
    case other
    then have "parse_udp4 pkt = None \<or> ip_version pkt \<noteq> 4" "parse_udp6 pkt = None \<or> ip_version pkt \<noteq> 6 \<or> \<not> ts_netif_ip6addr s" by blast+
    then show thesis using assms gw by (intro fail) (auto simp: process_device_udp_packet_def c_assert_bind Let_def)
  qed
qed

lemma process_udp_ok:
  assumes inv: "td_inv s" and n: "0 \<le> n" and r: "read_at mem data (nat n) = Some pkt" and env: "td_env_ok env s"
  shows "\<exists>b s' outs. process_device_udp_packet env mem s data n = Some (b, s', outs) \<and> td_inv s'"
  using n r
proof (cases rule: udp_cases [where s = s and env = env])
  case fail
  then show ?thesis using inv by blast
next
  case (submit la ra is_dns off len)
  let ?u = "ts_udpgw_client s"
  have u: "su_inv ?u" "ts_udp_mtu s \<le> uc_udp_mtu (su_udpgw_client ?u)" using inv submit(1) by (simp_all add: td_inv_def td_client_ok_def)
  have "off + len \<le> nat n" using submit(4) read_at_length [OF r] by simp
  then have rd: "read_at mem (data + off) (nat (int len)) \<noteq> None" using read_at_inner [OF r, of off len] by simp
  have e: "\<forall>xs. is_list (uc_connections_list (su_udpgw_client ?u)) xs \<longrightarrow> uc_env_ok (tn_udpgw env) xs"
    using env by (simp add: td_env_ok_def)
  from su_submit_ok [OF u(1) e submit(2,3) _ _ rd, of is_dns] submit(5) u(2) obtain u2 outs where
    "SocksUdpGwClient_SubmitPacket (tn_udpgw env) mem ?u la ra is_dns (data + off) (int len) = Some (u2, outs)" "su_inv u2"
    "uc_udp_mtu (su_udpgw_client u2) = uc_udp_mtu (su_udpgw_client ?u)" by auto
  moreover have "td_inv (s\<lparr>ts_udpgw_client := u2\<rparr>)" if "su_inv u2" "uc_udp_mtu (su_udpgw_client u2) = uc_udp_mtu (su_udpgw_client ?u)"
    using inv that u(2) by (simp add: td_inv_def td_client_ok_def)
  ultimately show ?thesis using submit(7) by auto
qed

subsection \<open>The other handlers\<close>

lemma received_ok:
  assumes inv: "td_inv s" and "ts_udpgw_remote s \<noteq> None" and ip: "is_ip_addr la" "is_ip_addr ra" "baddr_type la = baddr_type ra"
    and n: "0 \<le> n" and r: "read_at mem data (nat n) = Some payload"
  shows "\<exists>m. udpgw_client_handler_received s la ra mem data n = Some (s\<lparr>ts_device_write_buf := m\<rparr>, []) \<and> \<not> td_fits s la n \<and> m = ts_device_write_buf s \<or>
    (\<exists>pkt. udpgw_client_handler_received s la ra mem data n = Some (s\<lparr>ts_device_write_buf := m\<rparr>, [TD_Send pkt]) \<and> td_fits s la n \<and>
      length m = length (ts_device_write_buf s) \<and> int (length pkt) \<le> ts_mtu s \<and> udp_parts pkt = Some (ra, la, payload))"
proof (cases "td_fits s la n")
  case False
  then have "udpgw_client_handler_received s la ra mem data n = Some (s, [])"
    using ip n assms(2) by (cases la; cases ra) (auto simp: udpgw_client_handler_received_def c_assert_bind td_fits_def UINT16_MAX_def)
  then show ?thesis using False by (intro exI [of _ "ts_device_write_buf s"]) simp
next
  case fits: True
  have buf: "int (length (ts_device_write_buf s)) = ts_mtu s" using inv by (simp add: td_inv_def)
  show ?thesis
  proof (cases "\<exists>lip lport. la = BADDR_IPV4 lip lport")
    case True
    then obtain lip lport rip rport where "la = BADDR_IPV4 lip lport" "ra = BADDR_IPV4 rip rport" using ip by (cases ra) auto
    then show ?thesis using received4 [OF assms(2) buf n _ _ r, of lip lport rip rport] fits by (auto simp: td_fits_def)
  next
    case False
    then obtain lip lport rip rport where "la = BADDR_IPV6 lip lport" "ra = BADDR_IPV6 rip rport" "length lip = 16" "length rip = 16"
      using ip by (cases la; cases ra) auto
    then show ?thesis using received6 [OF assms(2) buf _ _ _ n _ _ r, of lip rip lport rport] fits by (auto simp: td_fits_def)
  qed
qed

end
