(* ===== verification/Tun_Device_Props.thy ===== *)
theory Tun_Device_Props
  imports Tun_Device_Facts "HOL-Library.Code_Target_Nat"
begin

text \<open>
  The device side of \<^verbatim>\<open>tun2socks.c\<close> as a transition system, its invariant, and the properties of the packets it passes on.
\<close>

subsection \<open>Reachable states\<close>

text \<open>A run starts with an empty table of connections, as the program and the end of an earlier run leave it. Packets that are
  read fit the device. The gateway client is created before the first packet when it is in use, and runs on its own between the handlers.\<close>

inductive td_reach :: "Tun2socks \<Rightarrow> bool" where
  init: "BAVL_IsEmpty (ts_connections_tree s0) \<Longrightarrow> int (length buf) = mtu \<Longrightarrow> device_init size_max s0 mtu buf = Some s \<Longrightarrow>
    (td_gateway s \<Longrightarrow> su_reach (ts_udpgw_client s) \<and> uc_udp_mtu (su_udpgw_client (ts_udpgw_client s)) = ts_udp_mtu s) \<Longrightarrow> td_reach s"
| read: "td_reach s \<Longrightarrow> \<not> ts_quitting s \<Longrightarrow> 0 \<le> n \<Longrightarrow> n \<le> ts_mtu s \<Longrightarrow> read_at mem data (nat n) = Some pkt \<Longrightarrow> td_env_ok env s \<Longrightarrow>
    device_read_handler_send env mem s data n = Some (s', outs) \<Longrightarrow> td_reach s'"
| received: "td_reach s \<Longrightarrow> is_ip_addr la \<Longrightarrow> is_ip_addr ra \<Longrightarrow> read_at mem data (nat n) = Some payload \<Longrightarrow>
    udpgw_client_handler_received s la ra mem data n = Some (s', outs) \<Longrightarrow> td_reach s'"
| netif_out: "td_reach s \<Longrightarrow> common_netif_output s p = Some (s', outs) \<Longrightarrow> td_reach s'"
| client: "td_reach s \<Longrightarrow> su_reach u \<Longrightarrow> uc_udp_mtu (su_udpgw_client u) = ts_udp_mtu s \<Longrightarrow> td_reach (s\<lparr>ts_udpgw_client := u\<rparr>)"
| quit: "td_reach s \<Longrightarrow> device_error_handler s = Some s' \<Longrightarrow> td_reach s'"

lemma empty_table:
  assumes "BAVL_IsEmpty (ts_connections_tree s)"
  shows "td_cons s {}"
proof -
  have "ts_connections_tree s = BAVL_Init (b_node (ts_connections_tree s))"
    using assms by (cases "ts_connections_tree s") (simp add: BAVL_IsEmpty_def BAVL_Init_def)
  then have "holds_tree port_comparator (td_key s) (ts_connections_tree s) {}" using holds_tree_empty [of _ _ "b_node (ts_connections_tree s)"] by simp
  then show ?thesis using assms by (simp add: td_cons_def td_table_def BAVL_IsEmpty_def)
qed

lemma device_init_inv:
  assumes "BAVL_IsEmpty (ts_connections_tree s0)" "int (length buf) = mtu" "device_init size_max s0 mtu buf = Some s"
    and "td_gateway s \<Longrightarrow> su_reach (ts_udpgw_client s) \<and> uc_udp_mtu (su_udpgw_client (ts_udpgw_client s)) = ts_udp_mtu s"
  shows "td_inv s"
proof -
  have s: "ts_connections_tree s = ts_connections_tree s0" "ts_device_write_buf s = buf" "ts_mtu s = mtu"
    using assms(3) by (auto simp: device_init_def Let_def split: if_splits)
  have "td_cons s {}" using assms(1) s by (intro empty_table) simp
  moreover have "td_client_ok s (ts_udpgw_client s)" if "td_gateway s"
    using assms(4) [OF that] su_reach_inv by (simp add: td_client_ok_def)
  ultimately show ?thesis using s(2,3) assms(2) by (auto simp: td_inv_def)
qed

lemma read_ok:
  assumes inv: "td_inv s" and "\<not> ts_quitting s" and n: "0 \<le> n" "n \<le> ts_mtu s" and r: "read_at mem data (nat n) = Some pkt"
    and env: "td_env_ok env s"
  shows "\<exists>s' outs. device_read_handler_send env mem s data n = Some (s', TD_Done # outs) \<and> td_inv s'"
  using process_dns_ok [OF inv n r env]
proof (elim disjE exE conjE)
  assume "process_device_dns_packet env mem s data n = Some (False, s, [])"
  moreover obtain b s' outs where "process_device_udp_packet env mem s data n = Some (b, s', outs)" "td_inv s'"
    using process_udp_ok [OF inv n(1) r env] by blast
  ultimately show ?thesis using assms(2) n r by (auto simp: device_read_handler_send_def c_assert_bind)
next
  fix s' outs
  assume "process_device_dns_packet env mem s data n = Some (True, s', outs)" "td_inv s'"
  then show ?thesis using assms(2) n r by (auto simp: device_read_handler_send_def c_assert_bind)
qed

lemma td_inv_buf: "td_inv s \<Longrightarrow> length m = length (ts_device_write_buf s) \<Longrightarrow> td_inv (s\<lparr>ts_device_write_buf := m\<rparr>)"
  by (simp add: td_inv_def td_client_ok_def)

lemma received_inv:
  assumes "td_inv s" "is_ip_addr la" "is_ip_addr ra" "read_at mem data (nat n) = Some payload"
    "udpgw_client_handler_received s la ra mem data n = Some (s', outs)"
  shows "td_inv s'"
proof -
  have "ts_udpgw_remote s \<noteq> None" "baddr_type la = baddr_type ra" "0 \<le> n"
    using assms(5) by (auto simp: udpgw_client_handler_received_def c_assert_bind split: if_splits)
  from received_ok [OF assms(1) this(1) assms(2,3) this(2,3) assms(4)] assms(5)
  obtain m where "s' = s\<lparr>ts_device_write_buf := m\<rparr>" "length m = length (ts_device_write_buf s)" by auto
  then show ?thesis using td_inv_buf [OF assms(1)] by simp
qed

lemma netif_copy_ok:
  assumes "int (length (ts_device_write_buf s)) = ts_mtu s" and "0 \<le> len" "len \<le> ts_mtu s"
  shows "\<exists>m r. netif_copy s len ps = Some (s\<lparr>ts_device_write_buf := m\<rparr>, r) \<and> length m = length (ts_device_write_buf s) \<and>
    (\<forall>l. r = Some l \<longrightarrow> l = len + int (length (concat ps)) \<and> l \<le> ts_mtu s \<and> take (nat l) m = take (nat len) (ts_device_write_buf s) @ concat ps) \<and>
    (r = None \<longleftrightarrow> len + int (length (concat ps)) > ts_mtu s)"
  using assms
proof (induction ps arbitrary: s len)
  case Nil
  then show ?case by (intro exI [of _ "ts_device_write_buf s"] exI [of _ "Some len"]) simp
next
  case (Cons p ps)
  show ?case
  proof (cases "int (length p) > ts_mtu s - len")
    case True
    then show ?thesis by (intro exI [of _ "ts_device_write_buf s"] exI [of _ None]) simp
  next
    case False
    have fit: "nat len + length p \<le> length (ts_device_write_buf s)" using False Cons.prems by linarith
    let ?m = "take (nat len) (ts_device_write_buf s) @ p @ drop (nat len + length p) (ts_device_write_buf s)"
    have w: "write_at (ts_device_write_buf s) (nat len) p = Some ?m" using fit by (simp add: write_at_def)
    have "int (length (ts_device_write_buf (s\<lparr>ts_device_write_buf := ?m\<rparr>))) = ts_mtu (s\<lparr>ts_device_write_buf := ?m\<rparr>)"
      using fit Cons.prems by simp
    from Cons.IH [OF this, of "len + int (length p)"] False Cons.prems obtain m r where
      m: "netif_copy (s\<lparr>ts_device_write_buf := ?m\<rparr>) (len + int (length p)) ps = Some (s\<lparr>ts_device_write_buf := m\<rparr>, r)"
      "length m = length ?m" "r = None \<longleftrightarrow> len + int (length p) + int (length (concat ps)) > ts_mtu s"
      "\<forall>l. r = Some l \<longrightarrow> l = len + int (length p) + int (length (concat ps)) \<and> l \<le> ts_mtu s \<and>
         take (nat l) m = take (nat (len + int (length p))) ?m @ concat ps" by auto
    have "take (nat (len + int (length p))) ?m = take (nat len) (ts_device_write_buf s) @ p"
      using fit Cons.prems by (simp add: nat_add_distrib)
    then show ?thesis using False w m fit by (intro exI [of _ m] exI [of _ r]) (auto simp: add.assoc)
  qed
qed

lemma netif_output_ok:
  assumes inv: "td_inv s" and "p \<noteq> []" "\<not> ts_quitting s"
  shows "\<exists>m. common_netif_output s p = Some (s\<lparr>ts_device_write_buf := m\<rparr>, if int (length (concat p)) \<le> ts_mtu s then [TD_Send (concat p)] else []) \<and>
    length m = length (ts_device_write_buf s)"
proof (cases "\<exists>q. p = [q]")
  case True
  then show ?thesis using assms(3) by (auto simp: common_netif_output_def intro!: exI [of _ "ts_device_write_buf s"])
next
  case False
  have c: "common_netif_output s p = do { (s, r) \<leftarrow> netif_copy s 0 p;
      case r of None \<Rightarrow> Some (s, []) | Some len \<Rightarrow> do { outs \<leftarrow> send_packet s len; Some (s, outs) } }"
    using False assms(2,3) by (cases p rule: remdups_adj.cases) (auto simp: common_netif_output_def)
  have b: "int (length (ts_device_write_buf s)) = ts_mtu s" using inv by (simp add: td_inv_def)
  then obtain m r where "netif_copy s 0 p = Some (s\<lparr>ts_device_write_buf := m\<rparr>, r)" "length m = length (ts_device_write_buf s)"
    "\<forall>l. r = Some l \<longrightarrow> l = int (length (concat p)) \<and> l \<le> ts_mtu s \<and> take (nat l) m = concat p"
    "r = None \<longleftrightarrow> int (length (concat p)) > ts_mtu s" using netif_copy_ok [of s 0 p] by auto
  then show ?thesis using b by (cases r) (auto simp: c send_packet_def c_assert_bind read_at_def)
qed

lemma netif_output_inv: "td_inv s \<Longrightarrow> common_netif_output s p = Some (s', outs) \<Longrightarrow> td_inv s'"
proof (cases "ts_quitting s \<or> p = []")
  case False
  then show "td_inv s \<Longrightarrow> common_netif_output s p = Some (s', outs) \<Longrightarrow> td_inv s'"
    using netif_output_ok [of s p] td_inv_buf [of s] by (auto split: if_splits)
qed (auto simp: common_netif_output_def split: if_splits)

lemma td_reach_inv: "td_reach s \<Longrightarrow> td_inv s"
proof (induction rule: td_reach.induct)
  case (init s0 buf mtu size_max s)
  then show ?case using device_init_inv by blast
next
  case (read s n mem data pkt env s' outs)
  then show ?case using read_ok by fastforce
next
  case (received s la ra mem data n payload s' outs)
  then show ?case using received_inv by blast
next
  case (netif_out s p s' outs)
  then show ?case using netif_output_inv by blast
next
  case (client s u)
  then show ?case using su_reach_inv [OF client(2)] by (simp add: td_inv_def td_client_ok_def)
next
  case (quit s s')
  then show ?case by (auto simp: device_error_handler_def terminate_def c_assert_bind td_inv_def td_client_ok_def td_cons_def td_table_def
        split: if_splits)
qed

lemma free_connections_ok:
  assumes "td_table s S"
  shows "\<exists>s'. free_connections s = Some s' \<and> BAVL_IsEmpty (ts_connections_tree s')"
  using assms
proof (induction "card S" arbitrary: s S rule: less_induct)
  case less
  obtain ys where ys: "bavl port_comparator (td_key s) (ts_connections_tree s) ys" "set ys = S"
    using less.prems by (auto simp: td_table_def holds_tree_def)
  note ends = GetFirst_ok(2,3) [OF ys(1)]
  show ?case
  proof (cases "ys = []")
    case True
    then show ?thesis using ends by (subst free_connections.simps) simp
  next
    case False
    then have c: "last ys \<in> S" using ys(2) by auto
    from holds_tree_remove [OF _ is_comparator_port c, of "td_key s" "ts_connections_tree s"] less.prems obtain T where
      T: "BAVL_Remove (ts_connections_tree s) (last ys) = Some T" "holds_tree port_comparator (td_key s) T (S - {last ys})"
      by (auto simp: td_table_def)
    have "td_table (s\<lparr>ts_connections_tree := T\<rparr>) (S - {last ys})" using T(2) less.prems by (auto simp: td_table_def)
    moreover have "card (S - {last ys}) < card S" using c ys(2) by (intro psubset_card_mono) auto
    ultimately show ?thesis using less.hyps False ends T(1) by (subst free_connections.simps) auto
  qed
qed

lemma td_cons_free:
  assumes "td_cons s S"
  shows "\<exists>s'. free_connections s = Some s' \<and> BAVL_IsEmpty (ts_connections_tree s')"
proof (cases "ts_dns_init s")
  case True
  then show ?thesis using assms free_connections_ok by (simp add: td_cons_def)
next
  case False
  then have "BAVL_IsEmpty (ts_connections_tree s)" using assms by (simp add: td_cons_def BAVL_IsEmpty_def)
  then show ?thesis by (subst free_connections.simps) simp
qed

lemma find_connection_cons:
  assumes "td_cons s S" "ts_dns_init s" "find_connection s port = Some (Some c)"
  shows "c \<in> S" "td_key s c = port"
proof -
  have T: "td_table s S" using assms(1,2) by (simp add: td_cons_def)
  then have "c \<in> S \<and> td_key s c = port" using assms(3) by (cases rule: find_connection_cases [of s S port]) auto
  then show "c \<in> S" "td_key s c = port" by auto
qed

subsection \<open>A DNS query and its reply\<close>

definition dns_con :: "u32 \<Rightarrow> u32 \<Rightarrow> u16 \<Rightarrow> int \<Rightarrow> Connection" where
  "dns_con client server port n = \<lparr>cn_local_addr = BADDR_IPV4 client port, cn_remote_addr = BADDR_IPV4 server (hton16 53), cn_port = port, cn_count = n\<rparr>"

lemma read_dns:
  assumes "\<not> ts_quitting s" "0 \<le> n" "process_device_dns_packet env mem s data n = Some (True, s', outs)"
  shows "device_read_handler_send env mem s data n = Some (s', TD_Done # outs)"
  using assms by (simp add: device_read_handler_send_def c_assert_bind)

lemma plain4D:
  assumes "plain4 pkt iph udph payload"
  shows "ip_version pkt = 4" "parse_udp4 pkt = Some (iph, udph, 28, length payload)" "take (length payload) (drop 28 pkt) = payload"
  using assms by (simp_all add: plain4_def)

lemma dns_query_new:
  assumes inv: "td_inv s" and srv: "ts_udpgw_remote s = Some (BADDR_IPV4 dip dport)" and q: "plain4 pkt iph udph payload" "udp_dest_port udph = hton16 53"
    and n: "0 \<le> n" "n \<le> ts_mtu s" and r: "read_at mem data (nat n) = Some pkt" and env: "td_env_ok env s" "tn_con env = Some c"
    and new: "ts_dns_init s \<longrightarrow> find_connection s (udp_source_port udph) = Some None" and "\<not> ts_quitting s"
  shows "\<exists>s1 q. device_read_handler_send env mem s data n = Some (s1, [TD_Done, TD_Send q]) \<and>
    udp_parts q = Some (BADDR_IPV4 (ts_netif_ipaddr s) (udp_source_port udph), BADDR_IPV4 dip dport, payload) \<and>
    ts_dns_init s1 \<and> find_connection s1 (udp_source_port udph) = Some (Some c) \<and>
    ts_con s1 c = dns_con (ip_source_address iph) (ip_destination_address iph) (udp_source_port udph) 1 \<and> td_same s s1"
proof -
  obtain S where S: "td_cons s S" using inv by (auto simp: td_inv_def)
  have c: "c \<notin> S" using env S by (auto simp: td_env_ok_def)
  let ?s0 = "if ts_dns_init s then s else s\<lparr>ts_dns_init := True, ts_connections_tree := BAVL_Init (b_node (ts_connections_tree s))\<rparr>"
  let ?p = "udp_source_port udph"
  note s0 = dns_start [OF S]
  have none: "\<forall>d\<in>S. td_key ?s0 d \<noteq> ?p"
  proof (cases "ts_dns_init s")
    case True
    then have "td_table s S" using S by (simp add: td_cons_def)
    then show ?thesis using new True by (cases rule: find_connection_cases [of s S ?p]) auto
  next
    case False
    then show ?thesis using S by (simp add: td_cons_def)
  qed
  obtain t where t: "insert_connection env ?s0 (BADDR_IPV4 (ip_source_address iph) ?p) (BADDR_IPV4 (ip_destination_address iph) (hton16 53)) ?p =
      Some (?s0\<lparr>ts_con := (ts_con ?s0)(c := dns_con (ip_source_address iph) (ip_destination_address iph) ?p 1), ts_connections_tree := t\<rparr>)"
    "td_table (?s0\<lparr>ts_con := (ts_con ?s0)(c := dns_con (ip_source_address iph) (ip_destination_address iph) ?p 1), ts_connections_tree := t\<rparr>) (insert c S)"
    using insert_connection_new [OF s0(1) none env(2) c, of "ip_source_address iph" "ip_destination_address iph"] unfolding dns_con_def by blast
  let ?s1 = "?s0\<lparr>ts_con := (ts_con ?s0)(c := dns_con (ip_source_address iph) (ip_destination_address iph) ?p 1), ts_connections_tree := t\<rparr>"
  have "int (length (ts_device_write_buf ?s1)) = ts_mtu ?s1" "n \<le> ts_mtu ?s1" "ts_netif_ipaddr ?s1 = ts_netif_ipaddr s"
    using inv n(2) by (simp_all add: td_inv_def)
  with dns_query_step [OF srv plain4D(1,2) [OF q(1)] q(2) n(1) r t(1)] plain4D(3) [OF q(1)] obtain m where
    m: "process_device_dns_packet env mem s data n = Some (True, ?s1\<lparr>ts_device_write_buf := m\<rparr>, [TD_Send (sealed
      (iph\<lparr>ip_destination_address := dip, ip_source_address := ts_netif_ipaddr s\<rparr>) (udph\<lparr>udp_dest_port := dport\<rparr>) payload)])" by auto
  have "td_key ?s1 c = ?p" by (simp add: dns_con_def)
  with find_connection_unique [OF t(2), of c] have "find_connection (?s1\<lparr>ts_device_write_buf := m\<rparr>) ?p = Some (Some c)"
    by (simp add: find_connection_def)
  moreover have "ts_con (?s1\<lparr>ts_device_write_buf := m\<rparr>) c = dns_con (ip_source_address iph) (ip_destination_address iph) ?p 1" by simp
  moreover have "ts_dns_init (?s1\<lparr>ts_device_write_buf := m\<rparr>)" by simp
  moreover have "td_same s (?s1\<lparr>ts_device_write_buf := m\<rparr>)"
    using process_dns_ok [OF inv n r env(1)] unfolding m by simp
  ultimately show ?thesis using read_dns [OF assms(11) n(1) m] plain4_sealed(1) [OF q(1)] by blast
qed

lemma dns_query_again:
  assumes inv: "td_inv s" and srv: "ts_udpgw_remote s = Some (BADDR_IPV4 dip dport)" and q: "plain4 pkt iph udph payload" "udp_dest_port udph = hton16 53"
    and n: "0 \<le> n" "n \<le> ts_mtu s" and r: "read_at mem data (nat n) = Some pkt"
    and old: "ts_dns_init s" "find_connection s (udp_source_port udph) = Some (Some c)" and "\<not> ts_quitting s"
  shows "\<exists>s1 q. device_read_handler_send env mem s data n = Some (s1, [TD_Done, TD_Send q]) \<and>
    udp_parts q = Some (BADDR_IPV4 (ts_netif_ipaddr s) (udp_source_port udph), BADDR_IPV4 dip dport, payload) \<and>
    find_connection s1 (udp_source_port udph) = Some (Some c) \<and>
    ts_con s1 c = (ts_con s c)\<lparr>cn_count := cn_count (ts_con s c) + 1\<rparr>"
proof -
  obtain S where S: "td_cons s S" using inv by (auto simp: td_inv_def)
  let ?p = "udp_source_port udph" and ?s1 = "s\<lparr>ts_con := (ts_con s)(c := (ts_con s c)\<lparr>cn_count := cn_count (ts_con s c) + 1\<rparr>)\<rparr>"
  have T: "td_table s S" using S old(1) by (simp add: td_cons_def)
  note c = find_connection_cons [OF S old]
  have ins: "insert_connection env s la ra ?p = Some ?s1" "td_table ?s1 S" for la ra
    using insert_connection_again [OF T c(1), of env la ra] c(2) by auto
  then have ins0: "insert_connection env (if ts_dns_init s then s
        else s\<lparr>ts_dns_init := True, ts_connections_tree := BAVL_Init (b_node (ts_connections_tree s))\<rparr>)
      (BADDR_IPV4 (ip_source_address iph) ?p) (BADDR_IPV4 (ip_destination_address iph) (hton16 53)) ?p = Some ?s1" using old(1) by simp
  have "int (length (ts_device_write_buf ?s1)) = ts_mtu ?s1" "n \<le> ts_mtu ?s1" "ts_netif_ipaddr ?s1 = ts_netif_ipaddr s"
    using inv n(2) by (simp_all add: td_inv_def)
  with dns_query_step [OF srv plain4D(1,2) [OF q(1)] q(2) n(1) r ins0] plain4D(3) [OF q(1)] obtain m where
    m: "process_device_dns_packet env mem s data n = Some (True, ?s1\<lparr>ts_device_write_buf := m\<rparr>, [TD_Send (sealed
      (iph\<lparr>ip_destination_address := dip, ip_source_address := ts_netif_ipaddr s\<rparr>) (udph\<lparr>udp_dest_port := dport\<rparr>) payload)])" by auto
  have "td_key ?s1 c = ?p" using c(2) by simp
  with find_connection_unique [OF ins(2) c(1)] have "find_connection (?s1\<lparr>ts_device_write_buf := m\<rparr>) ?p = Some (Some c)"
    by (simp add: find_connection_def)
  moreover have "ts_con (?s1\<lparr>ts_device_write_buf := m\<rparr>) c = (ts_con s c)\<lparr>cn_count := cn_count (ts_con s c) + 1\<rparr>" by simp
  ultimately show ?thesis using read_dns [OF assms(10) n(1) m] plain4_sealed(1) [OF q(1)] by blast
qed

lemma dns_reply:
  assumes inv: "td_inv s" and srv: "ts_udpgw_remote s = Some (BADDR_IPV4 dip dport)"
    and q: "plain4 pkt iph udph payload" "udp_source_port udph = dport" "udp_dest_port udph = port" "port \<noteq> hton16 53"
    and n: "0 \<le> n" "n \<le> ts_mtu s" and r: "read_at mem data (nat n) = Some pkt"
    and con: "ts_dns_init s" "find_connection s port = Some (Some c)" "ts_con s c = dns_con client server port k" and "\<not> ts_quitting s"
  shows "\<exists>s2 outs r. device_read_handler_send env mem s data n = Some (s2, TD_Done # outs @ [TD_Send r]) \<and> (\<forall>p. TD_Send p \<notin> set outs) \<and>
    udp_parts r = Some (BADDR_IPV4 server (hton16 53), BADDR_IPV4 client port, payload) \<and>
    (k = 1 \<longrightarrow> find_connection s2 port = Some None) \<and>
    (k > 1 \<longrightarrow> find_connection s2 port = Some (Some c) \<and> ts_con s2 c = dns_con client server port (k - 1))"
proof -
  obtain S where S: "td_cons s S" using inv by (auto simp: td_inv_def)
  have T: "td_table s S" using S con(1) by (simp add: td_cons_def)
  note c = find_connection_cons [OF S con(1,2)]
  have k: "cn_count (ts_con s c) = k" using con(3) by (simp add: dns_con_def)
  from remove_connection_ok [OF T c(1)] k obtain s1 outs S1 where
    rm: "remove_connection s c = Some (s1, outs)" "td_table s1 S1" "\<forall>p. TD_Send p \<notin> set outs" "td_same s s1"
      "k = 1 \<Longrightarrow> S1 = S - {c} \<and> (\<forall>d\<in>S1. ts_con s1 d = ts_con s d)"
      "k > 1 \<Longrightarrow> S1 = S \<and> ts_con s1 = (ts_con s)(c := (ts_con s c)\<lparr>cn_count := k - 1\<rparr>)" by auto
  have "int (length (ts_device_write_buf s1)) = ts_mtu s1" "n \<le> ts_mtu s1" using inv n(2) rm(4) by (simp_all add: td_inv_def td_same_def)
  with dns_reply_step [OF srv plain4D(1,2) [OF q(1)] _ _ con(1) n(1) r _ rm(1)] q con(2,3) plain4D(3) [OF q(1)] obtain m where
    m: "process_device_dns_packet env mem s data n = Some (True, s1\<lparr>ts_device_write_buf := m\<rparr>, outs @ [TD_Send (sealed
      (iph\<lparr>ip_source_address := server, ip_destination_address := client\<rparr>) (udph\<lparr>udp_source_port := hton16 53\<rparr>) payload)])"
    by (auto simp: dns_con_def)
  have f: "find_connection (s1\<lparr>ts_device_write_buf := m\<rparr>) port = find_connection s1 port" by (simp add: find_connection_def)
  have "find_connection s1 port = Some None" if "k = 1"
    using rm(2)
  proof (cases rule: find_connection_cases [of s1 S1 port])
    case (found d)
    then have "d \<in> S" "d \<noteq> c" "td_key s d = td_key s c" using rm(5) [OF that] c(2) by auto
    then show ?thesis using find_connection_unique [OF T, of d] find_connection_unique [OF T, of c] c(1) by simp
  qed simp
  moreover have "find_connection s1 port = Some (Some c) \<and> ts_con s1 c = dns_con client server port (k - 1)" if "k > 1"
    using find_connection_unique [OF rm(2), of c] rm(6) [OF that] c con(3) by (simp add: dns_con_def)
  ultimately show ?thesis using read_dns [OF assms(13) n(1) m] plain4_sealed(2) [OF q(1)] q(3) rm(3) f by (intro exI conjI) auto
qed

subsection \<open>Properties\<close>


text \<open>C34. No handler of the device side faults in a reachable state, when memory for a connection is available and the gateway client has been created if it is
  in use: a packet read from the device is accepted and processed, a packet of the gateway and a packet of lwIP are processed, and a packet of lwIP is sent as the
  concatenation of its buffers exactly when it fits the device.\<close>

theorem device_safe:
  assumes "td_reach s" and "\<not> ts_quitting s"
  shows "(\<forall>env mem data n. 0 \<le> n \<and> n \<le> ts_mtu s \<and> read_at mem data (nat n) \<noteq> None \<and> td_env_ok env s \<longrightarrow>
       (\<exists>s' outs. device_read_handler_send env mem s data n = Some (s', TD_Done # outs))) \<and>
    (\<forall>la ra mem data n. ts_udpgw_remote s \<noteq> None \<and> is_ip_addr la \<and> is_ip_addr ra \<and> baddr_type la = baddr_type ra \<and> 0 \<le> n \<and>
       read_at mem data (nat n) \<noteq> None \<longrightarrow> udpgw_client_handler_received s la ra mem data n \<noteq> None) \<and>
    (\<forall>p. p \<noteq> [] \<longrightarrow> (\<exists>s'. common_netif_output s p = Some (s', if int (length (concat p)) \<le> ts_mtu s then [TD_Send (concat p)] else []))) \<and>
    device_error_handler s \<noteq> None"
proof -
  have inv: "td_inv s" by (rule td_reach_inv [OF assms(1)])
  have "\<exists>s' outs. device_read_handler_send env mem s data n = Some (s', TD_Done # outs)"
    if "0 \<le> n" "n \<le> ts_mtu s" "read_at mem data (nat n) \<noteq> None" "td_env_ok env s" for env mem data n
    using read_ok [OF inv assms(2) that(1,2) _ that(4)] that(3) by blast
  moreover have "udpgw_client_handler_received s la ra mem data n \<noteq> None"
    if "ts_udpgw_remote s \<noteq> None" "is_ip_addr la" "is_ip_addr ra" "baddr_type la = baddr_type ra" "0 \<le> n" "read_at mem data (nat n) \<noteq> None"
    for la ra mem data n using received_ok [OF inv that(1-5)] that(6) by fastforce
  moreover have "\<exists>s'. common_netif_output s p = Some (s', if int (length (concat p)) \<le> ts_mtu s then [TD_Send (concat p)] else [])"
    if "p \<noteq> []" for p using netif_output_ok [OF inv that assms(2)] by blast
  moreover have "device_error_handler s \<noteq> None" using assms(2) by (simp add: device_error_handler_def terminate_def c_assert_bind)
  ultimately show ?thesis by blast
qed

text \<open>C35. A DNS query for port 53 of any server goes to the configured DNS gateway, with the address of the network interface as its source, and the reply comes
  back to the client as if the server it asked had sent it: in any later state in which the connection is
  still recorded, a reply from the gateway's port is sent on with the server's address and port 53 as its source, the client's address
  and port as its destination, the same payload and correct checksums, and the connection is forgotten. The packets have no IP options and no padding.\<close>

theorem dns_redirect:
  assumes "td_reach s" and "\<not> ts_quitting s" and "ts_udpgw_remote s = Some (BADDR_IPV4 dip dport)" and "plain4 pkt iph udph payload"
    and "udp_dest_port udph = hton16 53" and "udp_source_port udph \<noteq> hton16 53" and "0 \<le> n" "n \<le> ts_mtu s" and "read_at mem data (nat n) = Some pkt"
    and "td_env_ok env s" "tn_con env = Some c" and "ts_dns_init s \<longrightarrow> find_connection s (udp_source_port udph) = Some None"
  shows "\<exists>s1 q. device_read_handler_send env mem s data n = Some (s1, [TD_Done, TD_Send q]) \<and>
    udp_parts q = Some (BADDR_IPV4 (ts_netif_ipaddr s) (udp_source_port udph), BADDR_IPV4 dip dport, payload) \<and>
    td_reach s1 \<and> ts_mtu s1 = ts_mtu s \<and> ts_udpgw_remote s1 = ts_udpgw_remote s \<and> \<not> ts_quitting s1 \<and>
    ts_dns_init s1 \<and> find_connection s1 (udp_source_port udph) = Some (Some c) \<and>
    (\<forall>s' pkt' iph' udph' reply mem' data' n' env'. td_reach s' \<and> \<not> ts_quitting s' \<and> ts_udpgw_remote s' = Some (BADDR_IPV4 dip dport) \<and>
       ts_dns_init s' \<and> find_connection s' (udp_source_port udph) = Some (Some c) \<and> ts_con s' c = ts_con s1 c \<and>
       plain4 pkt' iph' udph' reply \<and> udp_source_port udph' = dport \<and> udp_dest_port udph' = udp_source_port udph \<and>
       0 \<le> n' \<and> n' \<le> ts_mtu s' \<and> read_at mem' data' (nat n') = Some pkt' \<longrightarrow>
       (\<exists>s2 outs r. device_read_handler_send env' mem' s' data' n' = Some (s2, TD_Done # outs @ [TD_Send r]) \<and> (\<forall>p. TD_Send p \<notin> set outs) \<and>
          udp_parts r = Some (BADDR_IPV4 (ip_destination_address iph) (hton16 53), BADDR_IPV4 (ip_source_address iph) (udp_source_port udph), reply) \<and>
          find_connection s2 (udp_source_port udph) = Some None))"
proof -
  have inv: "td_inv s" by (rule td_reach_inv [OF assms(1)])
  obtain s1 q where s1: "device_read_handler_send env mem s data n = Some (s1, [TD_Done, TD_Send q])"
    "udp_parts q = Some (BADDR_IPV4 (ts_netif_ipaddr s) (udp_source_port udph), BADDR_IPV4 dip dport, payload)"
    "ts_dns_init s1" "find_connection s1 (udp_source_port udph) = Some (Some c)"
    "ts_con s1 c = dns_con (ip_source_address iph) (ip_destination_address iph) (udp_source_port udph) 1" "td_same s s1"
    using dns_query_new [OF inv assms(3-5,7-12,2)] by blast
  have "td_reach s1" by (rule td_reach.read [OF assms(1,2,7-10) s1(1)])
  moreover have "ts_mtu s1 = ts_mtu s" "ts_udpgw_remote s1 = ts_udpgw_remote s" "\<not> ts_quitting s1"
    using s1(6) assms(2) by (simp_all add: td_same_def)
  moreover have "\<exists>s2 outs r. device_read_handler_send env' mem' s' data' n' = Some (s2, TD_Done # outs @ [TD_Send r]) \<and> (\<forall>p. TD_Send p \<notin> set outs) \<and>
          udp_parts r = Some (BADDR_IPV4 (ip_destination_address iph) (hton16 53), BADDR_IPV4 (ip_source_address iph) (udp_source_port udph), reply) \<and>
          find_connection s2 (udp_source_port udph) = Some None"
    if "td_reach s'" "\<not> ts_quitting s'" "ts_udpgw_remote s' = Some (BADDR_IPV4 dip dport)" "ts_dns_init s'"
      "find_connection s' (udp_source_port udph) = Some (Some c)" "ts_con s' c = ts_con s1 c"
      "plain4 pkt' iph' udph' reply" "udp_source_port udph' = dport" "udp_dest_port udph' = udp_source_port udph"
      "0 \<le> n'" "n' \<le> ts_mtu s'" "read_at mem' data' (nat n') = Some pkt'" for s' pkt' iph' udph' reply mem' data' n' env'
    using dns_reply [OF td_reach_inv [OF that(1)] that(3,7-9) assms(6) that(10-12,4,5) that(6) [unfolded s1(5)] that(2), of env'] by auto
  ultimately show ?thesis using s1(1-4) by blast
qed

text \<open>C36. The table of DNS connections is keyed by the client's port alone: when a query is outstanding for a port, a second query from
  that port to another server is forwarded, but the other server is not recorded, and the replies to both come from the
  server of the first query.\<close>

theorem dns_port_collision:
  assumes "td_reach s" and "\<not> ts_quitting s" and "ts_udpgw_remote s = Some (BADDR_IPV4 dip dport)" and "plain4 pkt iph udph payload"
    and "udp_dest_port udph = hton16 53" and "0 \<le> n" "n \<le> ts_mtu s" and "read_at mem data (nat n) = Some pkt"
    and "ts_dns_init s" and "find_connection s (udp_source_port udph) = Some (Some c)"
    and "ts_con s c = dns_con client server (udp_source_port udph) k"
  shows "\<exists>s1 q. device_read_handler_send env mem s data n = Some (s1, [TD_Done, TD_Send q]) \<and>
    udp_parts q = Some (BADDR_IPV4 (ts_netif_ipaddr s) (udp_source_port udph), BADDR_IPV4 dip dport, payload) \<and>
    find_connection s1 (udp_source_port udph) = Some (Some c) \<and>
    ts_con s1 c = dns_con client server (udp_source_port udph) (k + 1)"
  using dns_query_again [OF td_reach_inv [OF assms(1)] assms(3-10,2), of env] assms(11) by (simp add: dns_con_def)

text \<open>C37. A packet that the gateway client receives is sent to the device as one well formed UDP packet, with correct
  checksums, from the remote to the local address and with the same payload, when it fits the device (and IPv6 is enabled for an IPv6 packet); otherwise nothing is sent.\<close>

theorem udpgw_reply_packet:
  assumes "td_reach s" and "ts_udpgw_remote s \<noteq> None" and "is_ip_addr la" "is_ip_addr ra" "baddr_type la = baddr_type ra"
    and "0 \<le> n" and "read_at mem data (nat n) = Some payload"
  shows "if (if baddr_type la = 1 then n \<le> 65507 \<and> n \<le> ts_mtu s - 28 else ts_netif_ip6addr s \<and> n \<le> 65527 \<and> n \<le> ts_mtu s - 48)
    then \<exists>s' pkt. udpgw_client_handler_received s la ra mem data n = Some (s', [TD_Send pkt]) \<and>
      int (length pkt) \<le> ts_mtu s \<and> udp_parts pkt = Some (ra, la, payload)
    else udpgw_client_handler_received s la ra mem data n = Some (s, [])"
  using received_ok [OF td_reach_inv [OF assms(1)] assms(2-7)] by (cases "td_fits s la n") (auto simp: td_fits_def)

text \<open>C38. The UDP gateway client is used without having been created: \<^verbatim>\<open>run\<close> leaves it as the program starts with it, all zero, and when the gateway is in use
  without transparent DNS the first UDP packet from the device that is not a DNS packet makes the program fail.\<close>

theorem udpgw_uninitialised:
  assumes "td_gateway s0" and "device_init size_max s0 mtu buf = Some s"
    and "uc_num_connections (su_udpgw_client (ts_udpgw_client s0)) = 0" and "uc_max_connections (su_udpgw_client (ts_udpgw_client s0)) = 0"
    and "b_root (uc_connections_tree_by_conaddr (su_udpgw_client (ts_udpgw_client s0))) = None"
    and "0 \<le> n" and "read_at mem data (nat n) = Some pkt" and "ip_version pkt = 4" and "parse_udp4 pkt = Some (iph, udph, off, len)"
    and "udp_dest_port udph \<noteq> hton16 53" and "udp_source_port udph \<noteq> snd (baddr_ipv4 (the (ts_udpgw_remote s0)))" and "int len \<le> ts_udp_mtu s"
  shows "device_read_handler_send env mem s data n = None"
proof -
  have s: "ts_udpgw_client s = ts_udpgw_client s0" "ts_udpgw_remote s = ts_udpgw_remote s0" "td_gateway s" "\<not> ts_quitting s"
    using assms(1,2) by (auto simp: device_init_def Let_def split: if_splits)
  obtain server where server: "ts_udpgw_remote s0 = Some server" using assms(1) by auto
  have find: "find_connection_by_conaddr (su_udpgw_client (ts_udpgw_client s0)) a = Some None" for a
    using assms(5) by (simp add: find_connection_by_conaddr_def BAVL_LookupExact_def)
  have "process_device_dns_packet env mem s data n = Some (False, s, [])"
    using assms(6-11) s server by (simp add: process_device_dns_packet_def c_assert_bind)
  moreover have "process_device_udp_packet env mem s data n = None"
    using assms(3,4,6-9,12) s find
    by (simp add: process_device_udp_packet_def c_assert_bind SocksUdpGwClient_SubmitPacket_def UdpGwClient_SubmitPacket_def reuse_connection_def
        BAddr_InitIPv4_def Let_def)
  ultimately show ?thesis using s(4) assms(6) by (simp add: device_read_handler_send_def c_assert_bind)
qed

subsection \<open>An example\<close>

text \<open>The DNS gateway is 10.0.0.9, port 5400, the network interface has the address 10.0.0.2, and the gateway client is as the program starts with it.\<close>

definition ex_addr :: "byte \<Rightarrow> byte \<Rightarrow> byte \<Rightarrow> byte \<Rightarrow> u32" where
  "ex_addr a b c d = le_word [a, b, c, d]"

definition td_example_globals :: "bool \<Rightarrow> Tun2socks" where
  "td_example_globals transparent =
     \<lparr>ts_udpgw_remote = Some (BADDR_IPV4 (ex_addr 10 0 0 9) (hton16 5400)), ts_transparent_dns = transparent,
      ts_netif_ipaddr = ex_addr 10 0 0 2, ts_netif_ip6addr = False, ts_mtu = 0, ts_udp_mtu = 0, ts_device_write_buf = [],
      ts_udpgw_client =
       \<lparr>su_udp_mtu = 0, su_socks_server_addr = BADDR_NONE, su_auth_info = [], su_remote_udpgw_addr = BADDR_NONE,
        su_udpgw_client = uc_example_junk, su_reconnect_timer = False, su_have_socks = False, su_socks_client = ex_client, su_socks_up = False\<rparr>,
      ts_connections_tree = BAVL_Init (\<lambda>_. \<lparr>n_parent = None, n_link = \<lambda>_. None, n_balance = 0\<rparr>),
      ts_con = (\<lambda>_. dns_con 0 0 0 0), ts_dns_init = False, ts_quitting = False\<rparr>"

definition td_example :: "bool \<Rightarrow> Tun2socks" where
  "td_example transparent = the (device_init 4294967295 (td_example_globals transparent) 100 (replicate 100 0))"

definition td_example_env :: "nat \<Rightarrow> td_env" where
  "td_example_env c = \<lparr>tn_con = Some c, tn_udpgw = \<lparr>ue_con = None, ue_malloc = uc_example_malloc, ue_size_max = 4294967295\<rparr>,
     tn_is_dns = False, tn_pbuf = True, tn_input = True\<rparr>"

text \<open>A UDP packet.\<close>

definition ex_ip :: "u32 \<Rightarrow> u32 \<Rightarrow> nat \<Rightarrow> ipv4_header" where
  "ex_ip src dst n = \<lparr>version4_ihl4 = 0x45, ip_ds = 0, ip_total_length = hton16 (of_nat (28 + n)), ip_identification = 0,
     flags3_fragmentoffset13 = 0, ip_ttl = 64, ip_protocol = 17, ip_checksum = 0, ip_source_address = src, ip_destination_address = dst\<rparr>"

definition ex_udph :: "u16 \<Rightarrow> u16 \<Rightarrow> nat \<Rightarrow> udp_header" where
  "ex_udph sport dport n = \<lparr>udp_source_port = hton16 sport, udp_dest_port = hton16 dport, udp_length = hton16 (of_nat (8 + n)), udp_checksum_field = 0\<rparr>"

definition ex_packet :: "u32 \<Rightarrow> u32 \<Rightarrow> u16 \<Rightarrow> u16 \<Rightarrow> byte list \<Rightarrow> byte list" where
  "ex_packet src dst sport dport payload = sealed (ex_ip src dst (length payload)) (ex_udph sport dport (length payload)) payload"

lemma length_ex_packet: "length (ex_packet src dst sport dport payload) = 28 + length payload"
  by (simp add: ex_packet_def sealed_def)

lemma ex_plain:
  assumes n: "length payload = n" and "n \<le> 1000"
  shows "plain4 (ex_packet src dst sport dport payload) (sealed_ip (ex_ip src dst n)) (ex_udph sport dport n) payload"
    "read_at (ex_packet src dst sport dport payload) 0 (nat (28 + int n)) = Some (ex_packet src dst sport dport payload)"
proof -
  let ?i = "ex_ip src dst n" and ?u = "ex_udph sport dport n"
  have t: "unat (ntoh16 (ip_total_length ?i)) = 28 + length payload"
    using assms unat_u16_nat [of "28 + n"] by (simp add: ex_ip_def)
  have "built4 (sealed_ip ?i) (sealed_udp ?i ?u payload) payload"
    using assms by (simp add: built4_def sealed_ip_def sealed_udp_def ex_ip_def ex_udph_def)
  from parse_udp4_built [OF this] t n show "plain4 (ex_packet src dst sport dport payload) (sealed_ip ?i) ?u payload"
    by (simp add: plain4_def ex_packet_def sealed_def sealed_ip_def sealed_udp_def ex_ip_def ex_udph_def)
  show "read_at (ex_packet src dst sport dport payload) 0 (nat (28 + int n)) = Some (ex_packet src dst sport dport payload)"
    using n by (simp add: read_at_def length_ex_packet nat_add_distrib)
qed

lemma ex_fields [simp]:
  "ip_source_address (sealed_ip (ex_ip src dst n)) = src" "ip_destination_address (sealed_ip (ex_ip src dst n)) = dst"
  "udp_source_port (ex_udph sport dport n) = hton16 sport" "udp_dest_port (ex_udph sport dport n) = hton16 dport"
  by (simp_all add: ex_ip_def ex_udph_def sealed_ip_def)

lemma td_example:
  "device_init 4294967295 (td_example_globals t) 100 (replicate 100 0) = Some (td_example t)"
  "ts_mtu (td_example t) = 100" "\<not> ts_quitting (td_example t)" "\<not> ts_dns_init (td_example t)"
  "ts_udpgw_remote (td_example t) = Some (BADDR_IPV4 (ex_addr 10 0 0 9) (hton16 5400))"
  "ts_netif_ipaddr (td_example t) = ex_addr 10 0 0 2" "td_env_ok (td_example_env c) (td_example t)"
  "\<not> t \<Longrightarrow> ts_udp_mtu (td_example t) = 72"
proof -
  have m: "device_udp_mtu False 100 = 72" by (simp add: device_udp_mtu_def)
  have u: "udpgw_compute_mtu 4294967295 72 = 93" by code_simp
  note defs = Let_def td_example_def device_init_def td_example_globals_def m u PACKETPROTO_MAXPAYLOAD_def UINT16_MAX_def
  show "device_init 4294967295 (td_example_globals t) 100 (replicate 100 0) = Some (td_example t)" by (simp add: defs)
  show "ts_mtu (td_example t) = 100" "\<not> ts_quitting (td_example t)" "ts_netif_ipaddr (td_example t) = ex_addr 10 0 0 2"
    "ts_udpgw_remote (td_example t) = Some (BADDR_IPV4 (ex_addr 10 0 0 9) (hton16 5400))" by (simp_all add: defs)
  show n: "\<not> ts_dns_init (td_example t)" by (simp add: defs)
  show "td_env_ok (td_example_env c) (td_example t)"
    using n by (simp add: td_env_ok_def td_example_env_def td_cons_def uc_env_ok_def malloc_ok_def uc_example_malloc_def)
  show "\<not> t \<Longrightarrow> ts_udp_mtu (td_example t) = 72" by (simp add: defs)
qed

lemma td_example_reach: "td_reach (td_example True)"
  by (rule td_reach.init [OF _ _ td_example(1)])
    (simp_all add: td_example_def device_init_def td_example_globals_def BAVL_IsEmpty_def BAVL_Init_def)

text \<open>A query of 10.0.0.1, port 1234, to 8.8.8.8 is recorded.\<close>

abbreviation ex_query :: "byte list" where
  "ex_query \<equiv> ex_packet (ex_addr 10 0 0 1) (ex_addr 8 8 8 8) 1234 53 [1, 2]"

lemma td_example_query:
  obtains s1 where "td_reach s1" "\<not> ts_quitting s1" "ts_dns_init s1" "find_connection s1 (hton16 1234) = Some (Some 7)" "ts_mtu s1 = 100"
    "ts_udpgw_remote s1 = Some (BADDR_IPV4 (ex_addr 10 0 0 9) (hton16 5400))"
    "ts_con s1 7 = dns_con (ex_addr 10 0 0 1) (ex_addr 8 8 8 8) (hton16 1234) 1"
proof -
  let ?e = "td_example True" and ?env = "td_example_env 7"
  have p: "plain4 ex_query (sealed_ip (ex_ip (ex_addr 10 0 0 1) (ex_addr 8 8 8 8) 2)) (ex_udph 1234 53 2) [1, 2]" by (rule ex_plain) simp_all
  have r: "read_at ex_query 0 (nat 30) = Some ex_query" using ex_plain(2) [of "[1, 2]" 2] by simp
  have env: "tn_con ?env = Some 7" by (simp add: td_example_env_def)
  obtain s1 q where s1: "device_read_handler_send ?env ex_query ?e 0 30 = Some (s1, [TD_Done, TD_Send q])"
    "ts_dns_init s1" "find_connection s1 (hton16 1234) = Some (Some 7)" "td_same ?e s1"
    "ts_con s1 7 = dns_con (ex_addr 10 0 0 1) (ex_addr 8 8 8 8) (hton16 1234) 1"
    using dns_query_new [OF td_reach_inv [OF td_example_reach] td_example(5) p _ _ _ r td_example(7) env _ td_example(3)] td_example(2,4)
    by auto
  have "td_reach s1" by (rule td_reach.read [OF td_example_reach td_example(3) _ _ r td_example(7) s1(1)]) (simp_all add: td_example(2))
  then show thesis using s1 td_example(2,3,5) [of True] by (intro that [of s1]) (simp_all add: td_same_def)
qed


theorem device_safe_witness:
  "td_reach (td_example True) \<and> \<not> ts_quitting (td_example True) \<and>
   (\<exists>s' outs. device_read_handler_send (td_example_env 7) ex_query (td_example True) 0 30 = Some (s', TD_Done # outs)) \<and>
   (\<exists>s'. common_netif_output (td_example True) [[1], [2, 3]] = Some (s', [TD_Send [1, 2, 3]]))"
proof -
  have r: "read_at ex_query 0 (nat 30) \<noteq> None" using ex_plain(2) [of "[1, 2]" 2] by simp
  note safe = device_safe [OF td_example_reach td_example(3)]
  have "\<exists>s' outs. device_read_handler_send (td_example_env 7) ex_query (td_example True) 0 30 = Some (s', TD_Done # outs)"
    using safe [THEN conjunct1] r td_example(7) td_example(2) [of True] by simp
  moreover have "\<exists>s'. common_netif_output (td_example True) [[1], [2, 3]] = Some (s', [TD_Send [1, 2, 3]])"
    using safe [THEN conjunct2, THEN conjunct2, THEN conjunct1, rule_format, of "[[1], [2, 3]]"] td_example(2) [of True] by simp
  ultimately show ?thesis using td_example_reach td_example(3) by blast
qed

abbreviation ex_reply :: "byte list" where
  "ex_reply \<equiv> ex_packet (ex_addr 10 0 0 9) (ex_addr 10 0 0 2) 5400 1234 [3, 6]"

text \<open>The query goes to the gateway, and the reply comes back from 8.8.8.8, port 53.\<close>

theorem dns_redirect_witness:
  "\<exists>s1 q s2 outs r. device_read_handler_send (td_example_env 7) ex_query (td_example True) 0 30 = Some (s1, [TD_Done, TD_Send q]) \<and>
     udp_parts q = Some (BADDR_IPV4 (ex_addr 10 0 0 2) (hton16 1234), BADDR_IPV4 (ex_addr 10 0 0 9) (hton16 5400), [1, 2]) \<and>
     device_read_handler_send (td_example_env 8) ex_reply s1 0 30 = Some (s2, TD_Done # outs @ [TD_Send r]) \<and>
     udp_parts r = Some (BADDR_IPV4 (ex_addr 8 8 8 8) (hton16 53), BADDR_IPV4 (ex_addr 10 0 0 1) (hton16 1234), [3, 6]) \<and>
     find_connection s2 (hton16 1234) = Some None"
proof -
  have p: "plain4 ex_query (sealed_ip (ex_ip (ex_addr 10 0 0 1) (ex_addr 8 8 8 8) 2)) (ex_udph 1234 53 2) [1, 2]" by (rule ex_plain) simp_all
  have r: "read_at ex_query 0 (nat 30) = Some ex_query" using ex_plain(2) [of "[1, 2]" 2] by simp
  have p2: "plain4 ex_reply (sealed_ip (ex_ip (ex_addr 10 0 0 9) (ex_addr 10 0 0 2) 2)) (ex_udph 5400 1234 2) [3, 6]" by (rule ex_plain) simp_all
  have r2: "read_at ex_reply 0 (nat 30) = Some ex_reply" using ex_plain(2) [of "[3, 6]" 2] by simp
  have env: "tn_con (td_example_env 7) = Some 7" by (simp add: td_example_env_def)
  have side: "udp_dest_port (ex_udph 1234 53 2) = hton16 53" "udp_source_port (ex_udph 1234 53 2) \<noteq> hton16 53" "(0::int) \<le> 30"
    "30 \<le> ts_mtu (td_example True)" "ts_dns_init (td_example True) \<longrightarrow> find_connection (td_example True) (udp_source_port (ex_udph 1234 53 2)) = Some None"
    using td_example(2,4) [of True] by simp_all
  note red = dns_redirect [OF td_example_reach td_example(3,5) p side(1-4) r td_example(7) env side(5), unfolded ex_fields td_example(2,5,6)]
  obtain s1 q where s1: "device_read_handler_send (td_example_env 7) ex_query (td_example True) 0 30 = Some (s1, [TD_Done, TD_Send q])"
      "udp_parts q = Some (BADDR_IPV4 (ex_addr 10 0 0 2) (hton16 1234), BADDR_IPV4 (ex_addr 10 0 0 9) (hton16 5400), [1, 2])"
      "td_reach s1" "ts_mtu s1 = 100" "ts_udpgw_remote s1 = Some (BADDR_IPV4 (ex_addr 10 0 0 9) (hton16 5400))" "\<not> ts_quitting s1" "ts_dns_init s1"
      "find_connection s1 (hton16 1234) = Some (Some 7)"
    and answer: "\<forall>s' pkt' iph' udph' reply mem' data' n' env'. td_reach s' \<and> \<not> ts_quitting s' \<and>
       ts_udpgw_remote s' = Some (BADDR_IPV4 (ex_addr 10 0 0 9) (hton16 5400)) \<and> ts_dns_init s' \<and> find_connection s' (hton16 1234) = Some (Some 7) \<and>
       ts_con s' 7 = ts_con s1 7 \<and> plain4 pkt' iph' udph' reply \<and> udp_source_port udph' = hton16 5400 \<and> udp_dest_port udph' = hton16 1234 \<and>
       0 \<le> n' \<and> n' \<le> ts_mtu s' \<and> read_at mem' data' (nat n') = Some pkt' \<longrightarrow>
       (\<exists>s2 outs r. device_read_handler_send env' mem' s' data' n' = Some (s2, TD_Done # outs @ [TD_Send r]) \<and> (\<forall>p. TD_Send p \<notin> set outs) \<and>
          udp_parts r = Some (BADDR_IPV4 (ex_addr 8 8 8 8) (hton16 53), BADDR_IPV4 (ex_addr 10 0 0 1) (hton16 1234), reply) \<and>
          find_connection s2 (hton16 1234) = Some None)"
    using red by (elim exE conjE) (rule that)
  have "\<exists>s2 outs r. device_read_handler_send (td_example_env 8) ex_reply s1 0 30 = Some (s2, TD_Done # outs @ [TD_Send r]) \<and> (\<forall>p. TD_Send p \<notin> set outs) \<and>
          udp_parts r = Some (BADDR_IPV4 (ex_addr 8 8 8 8) (hton16 53), BADDR_IPV4 (ex_addr 10 0 0 1) (hton16 1234), [3, 6]) \<and>
          find_connection s2 (hton16 1234) = Some None"
    by (rule answer [rule_format, of s1 ex_reply "sealed_ip (ex_ip (ex_addr 10 0 0 9) (ex_addr 10 0 0 2) 2)" "ex_udph 5400 1234 2"]) (intro conjI s1 p2 r2, simp_all add: s1(4))
  then show ?thesis using s1(1,2) by blast
qed

text \<open>A second query of the same port, to 9.9.9.9, leaves 8.8.8.8 recorded.\<close>

theorem dns_port_collision_witness:
  "\<exists>s s1 q. td_reach s \<and> device_read_handler_send (td_example_env 8) (ex_packet (ex_addr 10 0 0 1) (ex_addr 9 9 9 9) 1234 53 [4, 5]) s 0 30 =
       Some (s1, [TD_Done, TD_Send q]) \<and>
     ts_con s1 7 = dns_con (ex_addr 10 0 0 1) (ex_addr 8 8 8 8) (hton16 1234) 2"
proof -
  obtain s where s: "td_reach s" "\<not> ts_quitting s" "ts_dns_init s" "find_connection s (hton16 1234) = Some (Some 7)" "ts_mtu s = 100"
    "ts_udpgw_remote s = Some (BADDR_IPV4 (ex_addr 10 0 0 9) (hton16 5400))"
    "ts_con s 7 = dns_con (ex_addr 10 0 0 1) (ex_addr 8 8 8 8) (hton16 1234) 1" by (rule td_example_query)
  let ?q = "ex_packet (ex_addr 10 0 0 1) (ex_addr 9 9 9 9) 1234 53 [4, 5]"
  have p: "plain4 ?q (sealed_ip (ex_ip (ex_addr 10 0 0 1) (ex_addr 9 9 9 9) 2)) (ex_udph 1234 53 2) [4, 5]" by (rule ex_plain) simp_all
  have r: "read_at ?q 0 (nat 30) = Some ?q" using ex_plain(2) [of "[4, 5]" 2] by simp
  from dns_port_collision [OF s(1,2,6) p _ _ _ r s(3), of 7 "ex_addr 10 0 0 1" "ex_addr 8 8 8 8" 1 "td_example_env 8"] s(4,5,7) s(1)
  show ?thesis by fastforce
qed

theorem udpgw_reply_packet_witness:
  "\<exists>s' pkt. udpgw_client_handler_received (td_example True) (BADDR_IPV4 1 2) (BADDR_IPV4 3 4) [7, 8, 9] 1 2 = Some (s', [TD_Send pkt]) \<and>
     udp_parts pkt = Some (BADDR_IPV4 3 4, BADDR_IPV4 1 2, [8, 9])"
  using udpgw_reply_packet [OF td_example_reach, of "BADDR_IPV4 1 2" "BADDR_IPV4 3 4" 2 "[7, 8, 9]" 1 "[8, 9]"] td_example(2,5) [of True]
  by (auto simp: read_at_def)

theorem udpgw_uninitialised_witness:
  "device_read_handler_send (td_example_env 7) (ex_packet (ex_addr 10 0 0 1) (ex_addr 9 9 9 9) 1234 80 [7, 8]) (td_example False) 0 30 = None"
proof -
  let ?q = "ex_packet (ex_addr 10 0 0 1) (ex_addr 9 9 9 9) 1234 80 [7, 8]"
  have p: "plain4 ?q (sealed_ip (ex_ip (ex_addr 10 0 0 1) (ex_addr 9 9 9 9) 2)) (ex_udph 1234 80 2) [7, 8]" by (rule ex_plain) simp_all
  have r: "read_at ?q 0 (nat 30) = Some ?q" using ex_plain(2) [of "[7, 8]" 2] by simp
  show ?thesis
    by (rule udpgw_uninitialised [OF _ td_example(1) _ _ _ _ r plain4D(1,2) [OF p]])
      (simp_all add: td_example(8), simp_all add: td_example_globals_def uc_example_junk_def BAVL_Init_def)
qed

end
