(* ===== verification/Spec2Isabelle.thy ===== *)
theory Spec2Isabelle
  imports Checksum_Facts Socks_Facts Packet_Buffer_Facts Flow_Facts Proto_Flow_Facts Bavl_Index Fair_Queue_Facts Addr_Props Tun_Device_Props
begin

text \<open>
  A verification development of the native code of the proxy: the packet tunnel of the Android service, libtun2socks, under
  \<^verbatim>\<open>src/orbotservice/external/badvpn\<close>. File names below are relative to that directory.

  \<^bold>\<open>The program.\<close> The tunnel reads IP packets from a tun device. Packets of TCP go to the lwIP stack, and each accepted
  connection is carried to its destination by a SOCKS5 client. Packets of UDP are parsed, their checksums are
  verified, and their payload is passed to the UDP gateway client, which multiplexes them as framed messages
  over one SOCKS connection. All of it runs on one thread: a reactor calls handlers, and handlers call each
  other through asynchronous interfaces, whose calls are jobs of a last-in first-out queue.

  \<^bold>\<open>Conventions.\<close> Memory is a list of bytes with checked reads and writes; an access out of bounds makes the result
  \<^const>\<open>None\<close>. The assertions of the code are guards (\<open>c_assert\<close>), so that a failed assertion is \<^const>\<open>None\<close> too, although the
  shipped build compiles them out. Machine integers are words where they wrap and integers where the code
  keeps them in range. A handler takes the state of its object and gives the new state and the list of the
  calls it makes, in order. What lies outside (\<^verbatim>\<open>malloc\<close>, \<^verbatim>\<open>SIZE_MAX\<close>, the neighbours of a flow node, the server,
  uninitialised memory) is a parameter; what the environment may do is written as an inductive reachability
  relation, and the invariants are proved by rule induction over it. Pointer structures (trees, lists) keep
  the fields of all nodes in a function from addresses. Loops along pointers are partial functions with values
  in the option type, so that running forever is \<^const>\<open>None\<close>; that they return is part of what is proved.

  \<^bold>\<open>Theories.\<close>
  \<^item> \<open>Sakura_Prelude\<close>: byte memory, integer ranges, the option-monad rules and the fact collections.
  \<^item> \<open>Byteorder\<close>: \<^verbatim>\<open>misc/byteorder.h\<close>, \<^verbatim>\<open>read_write_int.h\<close>, \<^verbatim>\<open>balign.h\<close>, \<^verbatim>\<open>bsize.h\<close>, \<^verbatim>\<open>minmax.h\<close>, \<^verbatim>\<open>compare.h\<close>, with conversions
    to and from bytes.
  \<^item> \<open>Ip_Proto\<close>, \<open>Checksum_Facts\<close>: the headers and checksums of \<^verbatim>\<open>misc/ipv4_proto.h\<close>, \<^verbatim>\<open>ipv6_proto.h\<close> and \<^verbatim>\<open>udp_proto.h\<close>. The
    checksum written verifies, and the one case in which a UDP checksum is zero is characterised.
  \<^item> \<open>Net_Addr\<close>, \<open>Addr_Order\<close>, \<open>Addr_Props\<close>: \<^verbatim>\<open>system/BAddr.h\<close>; the order on addresses is a total order, equal to a
    lexicographic reference.
  \<^item> \<open>Socks_Client\<close>, \<open>Socks_Facts\<close>: \<^verbatim>\<open>socksclient/BSocksClient.c\<close>. For every behaviour of the server: no assertion fails and no
    byte is accessed out of bounds; what is sent is what the protocol says for the state reached; every
    resource is released once; with a conforming server the client comes up in a bounded number of steps.
  \<^item> \<open>Chunk_Buffer\<close>, \<open>Chunk_Facts\<close>, \<open>Packet_Buffer\<close>, \<open>Packet_Buffer_Facts\<close>: the circular buffer of \<^verbatim>\<open>structure/ChunkBuffer2.h\<close>
    and \<^verbatim>\<open>flow/PacketBuffer.c\<close> refine a queue of packets, and the buffer always makes progress.
  \<^item> \<open>Packet_Proto\<close>, \<open>Packet_Proto_Facts\<close>: the encoder, the stream sender and the decoder of framed packets
    (\<^verbatim>\<open>flow/PacketProtoEncoder.c\<close>, \<^verbatim>\<open>PacketStreamSender.c\<close>, \<^verbatim>\<open>PacketProtoDecoder.c\<close>). Decoding a stream of frames, cut at
    any place, gives the packets back; no input makes the decoder leave its buffer.
  \<^item> \<open>Flow_Interface\<close>, \<open>Flow_Facts\<close>: the job queue \<^verbatim>\<open>base/BPending.c\<close> and the packet and stream interfaces, whose
    states follow the protocol of calls that both sides rely on, cancellation included.
  \<^item> \<open>Flow_Nodes\<close>, \<open>Flow_Node_Facts\<close>, \<open>Proto_Flow_Facts\<close>: connector, single packet buffer, buffer writer, framing flow and
    inactivity monitor. Packets pass a connector unchanged across reconnections; the framing flow emits the
    frames of what was written, in order.
  \<^item> \<open>Bavl\<close>, \<open>Bavl_Paths\<close>, \<open>Bavl_Swap\<close>, \<open>Bavl_Facts\<close>, \<open>Bavl_Index\<close>: the AVL tree with parent pointers of \<^verbatim>\<open>structure/BAVL.h\<close>.
    Insertion, removal, lookup and traversal refine a sorted sequence of keys; the height is logarithmic. The
    locale of \<open>Bavl_Index\<close> is the contract its clients use.
  \<^item> \<open>Fair_Queue\<close>, \<open>Fair_Queue_Facts\<close>: \<^verbatim>\<open>flow/PacketPassFairQueue.c\<close>. No assertion fails, no flow starves, the virtual times
    survive overflow, and every packet is delivered once and in order.
  \<^item> \<open>Linked_List\<close>: \<^verbatim>\<open>structure/LinkedList1.h\<close> refines lists of nodes.
  \<^item> \<open>Udpgw_Client\<close>, \<open>Udpgw_Facts\<close>, \<open>Udpgw_Table\<close>, \<open>Udpgw_Props\<close>: \<^verbatim>\<open>udpgw_client/UdpGwClient.c\<close> and \<^verbatim>\<open>protocol/udpgw_proto.h\<close> on top of
    the tree, the list, the queue and the framing flow. The table refines one in the order of last use, all
    handlers return, numbers are found, and a message echoed by the server reaches its connection.
  \<^item> \<open>Socks_Udpgw\<close>, \<open>Socks_Udpgw_Facts\<close>: \<^verbatim>\<open>tun2socks/SocksUdpGwClient.c\<close>, which composes the SOCKS client with the UDP gateway client.
    A connection attempt is in progress or the timer runs; a server that accepts is reached again after every
    failure.
  \<^item> \<open>Tun_Device\<close>, \<open>Tun_Device_Facts\<close>, \<open>Tun_Device_Props\<close>: the device side of \<^verbatim>\<open>tun2socks/tun2socks.c\<close>, on top of the headers, the tree and the gateway
    client: the handler of packets read from the tun device with the DNS redirection and its table, packets from
    the gateway and from lwIP written to the device, and the part of \<^verbatim>\<open>run\<close> that sets this state up. No handler faults, a DNS
    query and its reply make a round trip through the gateway, packets built for the device are well formed; two
    theorems show defects of the code (queries that share a port, the gateway client that is never created).

  \<^bold>\<open>Bounds.\<close> No fuel is used. Sizes are those the code itself requires: packets of at most 65535 bytes in a
  frame, block counts of a packet buffer below 2^29 (\<open>pb_sizes_ok\<close>, what \<^verbatim>\<open>int\<close> arithmetic of the buffer can hold), at most
  65536 connection numbers.

  \<^bold>\<open>Not modelled.\<close> The reactor, sockets, signals, clocks and the tun device are system calls: their callbacks are the
  transitions of the models. lwIP is a third-party stack. The TCP clients of \<^verbatim>\<open>tun2socks.c\<close>, which are callbacks of lwIP
  that call back into it, and its option parsing and JNI entry points are not modelled. Logging and the debug counters have no effect on the
  state. The node counts and the debug verifier of the tree are not compiled. The other programs of the badvpn
  distribution are not built for Android. The DNS daemon pdnsd is threads, sockets, timers and a configuration
  language. The Java code (the Orchid Tor client, the control library, the application) is
  multi-threaded code around sockets, cryptographic providers and the Android platform.
\<close>

end
